(* ===== verification/Prelude.thy ===== *)
theory Prelude
  imports Main "HOL-Library.Word" "HOL-Library.List_Lexorder"
begin

text \<open>
  Shared vocabulary of the development: the machine types of the Rust sources, results and
  errors as sums, the rule collections the component theories fill, and the generic lemmas on
  lists, association lists and options they use.

  Conventions. A Rust \<open>u8\<close>/\<open>u64\<close>/\<open>u128\<close> is a word of that width; a \<open>usize\<close> that counts
  elements of a collection is a \<open>nat\<close>. A byte array \<open>[u8; N]\<close> and a \<open>Vec<u8>\<close> are byte lists;
  where the length matters it is a hypothesis or an invariant. \<open>Result<T, E>\<close> is \<open>'e + 't\<close> with
  \<open>Inl\<close> the error; an \<open>anyhow\<close> error is its message, without the values formatted into it.
\<close>

type_synonym byte = "8 word"
type_synonym u8 = "8 word"
type_synonym u32 = "32 word"
type_synonym u64 = "64 word"
type_synonym u128 = "128 word"
type_synonym bytes = "byte list"

text \<open>\<open>anyhow::Result<T>\<close>: the error is the formatted message.\<close>

type_synonym 'a anyhow = "string + 'a"

named_theorems map_laws \<open>lookup after an operation of a map\<close>
named_theorems store_laws \<open>what an operation of the message store leaves in it\<close>
named_theorems wf_intros \<open>well-formedness is kept\<close>

text \<open>\<open>q - 1\<close> on a \<open>usize\<close> with the wrap-around of a release build written out.\<close>

definition usize_pred :: "nat \<Rightarrow> nat" where
  "usize_pred q = (if q = 0 then 2 ^ 64 - 1 else q - 1)"

lemma usize_pred_pos [simp]: "0 < q \<Longrightarrow> usize_pred q = q - 1"
  by (simp add: usize_pred_def)

lemma word_succ_le:
  fixes h :: "'w::len word"
  assumes "h \<noteq> - 1"
  shows "h + 1 \<le> k \<longleftrightarrow> h < k"
proof -
  have "1 + h \<noteq> 0" using assms by (metis add.commute add_eq_0_iff)
  then have "unat (h + 1) = Suc (unat h)" using unatSuc [of h] by (simp add: add.commute)
  then show ?thesis by (simp add: word_le_nat_alt word_less_nat_alt Suc_le_eq)
qed

subsection \<open>Options and results\<close>

lemma bind_Some_iff: "Option.bind x f = Some y \<longleftrightarrow> (\<exists>z. x = Some z \<and> f z = Some y)"
  by (cases x) auto

lemma sum_case_Inr_iff:
  "(case x of Inl e \<Rightarrow> Inl e | Inr y \<Rightarrow> f y) = Inr z \<longleftrightarrow> (\<exists>y. x = Inr y \<and> f y = Inr z)"
  by (cases x) auto

subsection \<open>Association lists\<close>

lemma map_of_filter_key:
  "map_of (filter (\<lambda>p. P (fst p)) m) k = (if P k then map_of m k else None)"
  by (induction m) auto

lemma map_of_filter_distinct:
  "distinct (map fst m) \<Longrightarrow>
     map_of (filter (\<lambda>(k, v). P k v) m) k = (case map_of m k of None \<Rightarrow> None
       | Some v \<Rightarrow> if P k v then Some v else None)"
proof (induction m)
  case (Cons p m)
  obtain k' v' where p: "p = (k', v')" by (cases p)
  have notin: "k' \<notin> fst ` set m" using Cons.prems p by simp
  then have "map_of m k' = None" by (simp add: map_of_eq_None_iff)
  then show ?case using Cons p by (auto split: option.splits)
qed simp

lemma distinct_map_fst_filter:
  "distinct (map fst m) \<Longrightarrow> distinct (map fst (filter P m))"
  by (induction m) auto

lemma card_dom_map_of: "distinct (map fst m) \<Longrightarrow> card (dom (map_of m)) = length m"
  by (metis distinct_card dom_map_of_conv_image_fst length_map set_map)

lemma length_le_card_subset:
  assumes "distinct xs" and "set xs \<subseteq> A" and "finite A"
  shows "length xs \<le> card A"
  using assms by (metis card_mono distinct_card)

end
