(* ===== verification/Externals.thy ===== *)
theory Externals
  imports Prelude
begin

text \<open>
  The third-party crates the sources call (\<open>sha2\<close>, \<open>borsh\<close>, \<open>secp256k1\<close>, \<open>hex\<close>) are parameters
  of the model: the fields of the record \<open>externals\<close>. What the code relies on is stated as
  named predicates over that record, each the documented behaviour of one crate; theorems that
  need one take it as a hypothesis. The record \<open>sample_externals\<close> is a concrete instance that
  satisfies all of them; only witnesses use it.
\<close>

text \<open>
  The shapes of data that the derived \<open>BorshSerialize\<close> implementations walk over: integers,
  fixed arrays \<open>[u8; N]\<close>, byte vectors and slices, vectors, options, enum variants (the variant
  index or discriminant, then the fields) and tuples or structs (the fields in order).
\<close>

datatype bval =
    BU8 u8
  | BU64 u64
  | BArray bytes
  | BBytes bytes
  | BSeq "bval list"
  | BOpt "bval option"
  | BVariant u8 "bval list"
  | BTuple "bval list"

text \<open>Keys and recoverable signatures of \<open>secp256k1\<close> are represented by their bytes.\<close>

type_synonym secret_key = bytes
type_synonym public_key = bytes

record externals =
  sha256_digest :: "bytes \<Rightarrow> bytes"
  borsh_to_vec :: "bval \<Rightarrow> bytes"
  secret_key_from_byte_array :: "bytes \<Rightarrow> string + secret_key"
  secret_key_public_key :: "secret_key \<Rightarrow> public_key"
  public_key_serialize :: "public_key \<Rightarrow> bytes"
  sign_ecdsa_recoverable :: "bytes \<Rightarrow> secret_key \<Rightarrow> int \<times> bytes"
  recovery_id_try_from :: "int \<Rightarrow> string + int"
  recover_ecdsa_compact :: "bytes \<Rightarrow> bytes \<Rightarrow> int \<Rightarrow> string + public_key"
  hex_encode_to_slice :: "bytes \<Rightarrow> nat \<Rightarrow> string + string"
  hex_decode_to_slice :: "string \<Rightarrow> nat \<Rightarrow> string + bytes"
  hex_decode :: "string \<Rightarrow> string + bytes"

subsection \<open>Documented behaviour the code relies on\<close>

text \<open>SHA-256 digests are 32 bytes long.\<close>

definition sha256_ok :: "externals \<Rightarrow> bool" where
  "sha256_ok E \<longleftrightarrow> (\<forall>m. length (sha256_digest E m) = 32)"

text \<open>
  A recoverable ECDSA signature is 64 bytes with a recovery id from 0 to 3, and recovery from it
  over the signed digest gives back the signer's public key. \<open>RecoveryId::try_from\<close> accepts
  exactly 0 to 3.
\<close>

definition ecdsa_ok :: "externals \<Rightarrow> bool" where
  "ecdsa_ok E \<longleftrightarrow>
     (\<forall>sk d. length (snd (sign_ecdsa_recoverable E d sk)) = 64 \<and>
             fst (sign_ecdsa_recoverable E d sk) \<in> {0..3}) \<and>
     (\<forall>i. recovery_id_try_from E i = (if i \<in> {0..3} then Inr i else Inl ''invalid recovery id'')) \<and>
     (\<forall>b sk d. secret_key_from_byte_array E b = Inr sk \<longrightarrow> length d = 32 \<longrightarrow>
        recover_ecdsa_compact E d (snd (sign_ecdsa_recoverable E d sk))
          (fst (sign_ecdsa_recoverable E d sk)) = Inr (secret_key_public_key E sk))"

text \<open>
  Hex text has two digits per byte; encoding into a buffer of that size succeeds, and decoding
  an encoded text gives the bytes back. Decoding into a buffer of \<open>n\<close> bytes refuses a text whose
  length is not \<open>2 n\<close>.
\<close>

definition hex_ok :: "externals \<Rightarrow> bool" where
  "hex_ok E \<longleftrightarrow>
     (\<forall>bs. \<exists>t. hex_encode_to_slice E bs (2 * length bs) = Inr t \<and> length t = 2 * length bs \<and>
               hex_decode_to_slice E t (length bs) = Inr bs) \<and>
     (\<forall>t n. length t \<noteq> 2 * n \<longrightarrow> (\<exists>e. hex_decode_to_slice E t n = Inl e)) \<and>
     (\<forall>t n bs. hex_decode_to_slice E t n = Inr bs \<longrightarrow> length bs = n)"

text \<open>
  The Borsh specification, for the shapes digests are built from: a \<open>u8\<close> is itself, a \<open>u64\<close> is
  eight bytes that determine it, a fixed array is its bytes, a fieldless enum value written with
  its discriminant is that byte, a tuple or struct is the concatenation of its fields, and the
  encoding of a byte slice determines the slice.
\<close>

definition borsh_ok :: "externals \<Rightarrow> bool" where
  "borsh_ok E \<longleftrightarrow>
     (\<forall>x. borsh_to_vec E (BU8 x) = [x]) \<and>
     (\<forall>x. length (borsh_to_vec E (BU64 x)) = 8) \<and>
     inj (\<lambda>x. borsh_to_vec E (BU64 x)) \<and>
     (\<forall>bs. borsh_to_vec E (BArray bs) = bs) \<and>
     (\<forall>d. borsh_to_vec E (BVariant d []) = [d]) \<and>
     (\<forall>vs. borsh_to_vec E (BTuple vs) = concat (map (borsh_to_vec E) vs)) \<and>
     inj (\<lambda>bs. borsh_to_vec E (BBytes bs))"

definition externals_ok :: "externals \<Rightarrow> bool" where
  "externals_ok E \<longleftrightarrow> sha256_ok E \<and> ecdsa_ok E \<and> borsh_ok E"

subsection \<open>A concrete instance\<close>

text \<open>The bytes of a word, least significant first.\<close>

definition le64 :: "u64 \<Rightarrow> bytes" where
  "le64 x = map (\<lambda>i. ucast (drop_bit (8 * i) x)) [0..<8]"

definition le32 :: "u32 \<Rightarrow> bytes" where
  "le32 x = map (\<lambda>i. ucast (drop_bit (8 * i) x)) [0..<4]"

fun borsh_encode :: "bval \<Rightarrow> bytes" where
  "borsh_encode (BU8 x) = [x]"
| "borsh_encode (BU64 x) = le64 x"
| "borsh_encode (BArray bs) = bs"
| "borsh_encode (BBytes bs) = le32 (of_nat (length bs)) @ bs"
| "borsh_encode (BSeq vs) = le32 (of_nat (length vs)) @ concat (map borsh_encode vs)"
| "borsh_encode (BOpt None) = [0]"
| "borsh_encode (BOpt (Some v)) = 1 # borsh_encode v"
| "borsh_encode (BVariant d vs) = d # concat (map borsh_encode vs)"
| "borsh_encode (BTuple vs) = concat (map borsh_encode vs)"

text \<open>
  The sample digest keeps the first 32 bytes and pads with zeros; the sample signature is the
  key's 32 bytes followed by the digest, which recovery compares.
\<close>

definition sample_hash :: "bytes \<Rightarrow> bytes" where
  "sample_hash m = take 32 (m @ replicate 32 0)"

definition sample_hex_digit :: "nat \<Rightarrow> char" where
  "sample_hex_digit n = (if n < 10 then char_of (48 + n) else char_of (87 + n))"

definition sample_hex_encode :: "bytes \<Rightarrow> string" where
  "sample_hex_encode bs =
     concat (map (\<lambda>b. [sample_hex_digit (unat b div 16), sample_hex_digit (unat b mod 16)]) bs)"

definition sample_hex_value :: "char \<Rightarrow> nat" where
  "sample_hex_value c = (let n = of_char c in if n < 58 then n - 48 else n - 87)"

fun sample_hex_decode :: "string \<Rightarrow> bytes" where
  "sample_hex_decode (a # b # t) =
     of_nat (16 * sample_hex_value a + sample_hex_value b) # sample_hex_decode t"
| "sample_hex_decode t = []"

definition sample_externals :: externals where
  "sample_externals =
     \<lparr>sha256_digest = sample_hash,
      borsh_to_vec = borsh_encode,
      secret_key_from_byte_array = (\<lambda>b. if length b = 32 then Inr b else Inl ''malformed key''),
      secret_key_public_key = (\<lambda>sk. take 32 (sk @ replicate 32 0)),
      public_key_serialize = (\<lambda>pk. pk),
      sign_ecdsa_recoverable =
        (\<lambda>d sk. (0, take 32 (sk @ replicate 32 0) @ take 32 (d @ replicate 32 0))),
      recovery_id_try_from = (\<lambda>i. if i \<in> {0..3} then Inr i else Inl ''invalid recovery id''),
      recover_ecdsa_compact = (\<lambda>d s i. if drop 32 s = d then Inr (take 32 s) else Inl ''bad signature''),
      hex_encode_to_slice =
        (\<lambda>bs n. if n = 2 * length bs then Inr (sample_hex_encode bs) else Inl ''Invalid string length''),
      hex_decode_to_slice =
        (\<lambda>t n. if length t = 2 * n then Inr (sample_hex_decode t) else Inl ''Invalid string length''),
      hex_decode =
        (\<lambda>t. if even (length t) then Inr (sample_hex_decode t) else Inl ''Odd number of digits'')\<rparr>"

lemma le64_length [simp]: "length (le64 x) = 8"
  by (simp add: le64_def)

text \<open>Reading eight little-endian bytes.\<close>

definition of_le64 :: "bytes \<Rightarrow> u64" where
  "of_le64 bs = foldr (\<lambda>i acc. or (push_bit (8 * i) (ucast (bs ! i))) acc) [0..<8] 0"

lemma bit_foldr_or: "bit (foldr (\<lambda>i acc. or (f i) acc) is 0) n \<longleftrightarrow> (\<exists>i \<in> set is. bit (f i :: 'a :: len word) n)"
  by (induction "is") (auto simp: bit_or_iff)

lemma of_le64_le64 [simp]: "of_le64 (le64 x) = x"
proof (rule bit_word_eqI)
  fix n :: nat
  assume n: "n < LENGTH(64)"
  have nth: "le64 x ! i = ucast (drop_bit (8 * i) x)" if "i < 8" for i using that by (simp add: le64_def)
  have "bit (push_bit (8 * i) (ucast (le64 x ! i)) :: u64) n \<longleftrightarrow> i = n div 8 \<and> bit x n" if "i < 8" for i
    using that n by (auto simp: nth bit_push_bit_iff bit_unsigned_iff bit_drop_bit_eq)
  then have "bit (of_le64 (le64 x)) n \<longleftrightarrow> (\<exists>i < 8. i = n div 8 \<and> bit x n)"
    unfolding of_le64_def bit_foldr_or by auto
  then show "bit (of_le64 (le64 x)) n \<longleftrightarrow> bit x n" using n by auto
qed

lemma le64_inj: "inj le64"
  by (rule inj_on_inverseI [of _ of_le64]) simp

lemma borsh_encode_bytes_inj: "inj (\<lambda>bs. borsh_encode (BBytes bs))"
proof (rule injI)
  fix a b :: bytes
  assume "borsh_encode (BBytes a) = borsh_encode (BBytes b)"
  then show "a = b" by (simp add: le32_def)
qed

lemma sample_hex_digit_value: "n < 16 \<Longrightarrow> sample_hex_value (sample_hex_digit n) = n"
  by (simp add: sample_hex_value_def sample_hex_digit_def Let_def)

lemma sample_hex_encode_Cons:
  "sample_hex_encode (b # bs) =
     sample_hex_digit (unat b div 16) # sample_hex_digit (unat b mod 16) # sample_hex_encode bs"
  by (simp add: sample_hex_encode_def)

lemma sample_hex_decode_encode: "sample_hex_decode (sample_hex_encode bs) = bs"
proof (induction bs)
  case (Cons b bs)
  have "unat b < 256" using unsigned_less [of b, where 'a = nat] by simp
  then have "unat b div 16 < 16" by simp
  then have "16 * sample_hex_value (sample_hex_digit (unat b div 16)) +
             sample_hex_value (sample_hex_digit (unat b mod 16)) = unat b"
    by (simp add: sample_hex_digit_value)
  then show ?case using Cons by (simp add: sample_hex_encode_Cons)
qed (simp add: sample_hex_encode_def)

lemma sample_hex_encode_length: "length (sample_hex_encode bs) = 2 * length bs"
  by (induction bs) (simp_all add: sample_hex_encode_Cons, simp add: sample_hex_encode_def)

lemma sample_hex_decode_length: "length (sample_hex_decode t) = length t div 2"
  by (induction t rule: sample_hex_decode.induct) simp_all

lemma sample_sha256_ok: "sha256_ok sample_externals"
  by (auto simp: sha256_ok_def sample_externals_def sample_hash_def min_def)

lemma sample_ecdsa_ok: "ecdsa_ok sample_externals"
  by (auto simp: ecdsa_ok_def sample_externals_def split: if_splits)

lemma sample_hex_ok: "hex_ok sample_externals"
  by (auto simp: hex_ok_def sample_externals_def sample_hex_decode_encode sample_hex_encode_length
      sample_hex_decode_length)

lemma sample_borsh_ok: "borsh_ok sample_externals"
  using le64_inj borsh_encode_bytes_inj by (simp add: borsh_ok_def sample_externals_def)

lemma sample_externals_ok: "externals_ok sample_externals"
  by (simp add: externals_ok_def sample_sha256_ok sample_ecdsa_ok sample_borsh_ok)

end
