(* ===== verification/Primitives.thy ===== *)
theory Primitives
  imports Externals "HOL-Library.Sublist"
begin

text \<open>
  The crate \<open>tonic-primitives\<close>: addresses, signatures, the signer and the wrappers around
  SHA-256 and secp256k1 (files \<open>address.rs\<close>, \<open>signature.rs\<close>, \<open>signer.rs\<close>, \<open>crypto/\<close>). A function
  that can panic returns an option, \<open>None\<close> being the panic.
\<close>

subsection \<open>Hashing and secp256k1 (crypto/sha2.rs, crypto/k256.rs)\<close>

definition sha256 :: "externals \<Rightarrow> bytes \<Rightarrow> bytes" where
  "sha256 E message = sha256_digest E message"

definition k256_sign_prehash :: "externals \<Rightarrow> secret_key \<Rightarrow> bytes \<Rightarrow> bytes \<times> u8" where
  "k256_sign_prehash E secret_key prehash =
     (let (recid, signature) = sign_ecdsa_recoverable E prehash secret_key
      in (signature, word_of_int recid))"

definition k256_recover_from_prehash ::
    "externals \<Rightarrow> bytes \<Rightarrow> bytes \<Rightarrow> u8 \<Rightarrow> public_key anyhow" where
  "k256_recover_from_prehash E prehash signature recid =
     (case recovery_id_try_from E (uint recid) of
        Inl e \<Rightarrow> Inl e
      | Inr rid \<Rightarrow> recover_ecdsa_compact E prehash signature rid)"

subsection \<open>Addresses (address.rs)\<close>

datatype address = Address (address_bytes: bytes)

text \<open>The derived \<open>Ord\<close> compares the byte arrays lexicographically.\<close>

instantiation address :: linorder
begin

definition less_eq_address :: "address \<Rightarrow> address \<Rightarrow> bool" where
  "less_eq_address a b \<longleftrightarrow> address_bytes a \<le> address_bytes b"

definition less_address :: "address \<Rightarrow> address \<Rightarrow> bool" where
  "less_address a b \<longleftrightarrow> address_bytes a < address_bytes b"

instance
  by standard (auto simp: less_eq_address_def less_address_def address.expand)

end

definition ADDRESS_SIZE :: nat where
  "ADDRESS_SIZE = 24"

definition address_from_bytes :: "bytes \<Rightarrow> address" where
  "address_from_bytes bs = Address bs"

definition address_from_slice :: "bytes \<Rightarrow> address anyhow" where
  "address_from_slice src =
     (if length src = ADDRESS_SIZE then Inr (Address src)
      else Inl ''could not convert slice to array'')"

definition address_from_hex :: "externals \<Rightarrow> string \<Rightarrow> address anyhow" where
  "address_from_hex E s =
     (if \<not> prefix ''0x'' s then Inl ''Address must have 0x-prefix''
      else case hex_decode_to_slice E (drop 2 s) ADDRESS_SIZE of
             Inl e \<Rightarrow> Inl e
           | Inr bs \<Rightarrow> Inr (Address bs))"

definition address_to_bytes :: "address \<Rightarrow> bytes" where
  "address_to_bytes a = address_bytes a"

text \<open>The text buffer has \<open>SIZE * 2 + 2\<close> characters; \<open>None\<close> is the panic of \<open>expect\<close>.\<close>

definition address_encode_0x_prefixed :: "externals \<Rightarrow> address \<Rightarrow> string option" where
  "address_encode_0x_prefixed E a =
     (case hex_encode_to_slice E (address_bytes a) (ADDRESS_SIZE * 2) of
        Inl e \<Rightarrow> None
      | Inr t \<Rightarrow> Some (''0x'' @ t))"

definition address_from_public_key :: "externals \<Rightarrow> public_key \<Rightarrow> address" where
  "address_from_public_key E pk = Address (drop 8 (sha256 E (public_key_serialize E pk)))"

subsection \<open>Signatures (signature.rs)\<close>

datatype signature = Signature (signature_bytes: bytes)

definition SIGNATURE_SIZE :: nat where
  "SIGNATURE_SIZE = 65"

definition signature_from_bytes :: "bytes \<Rightarrow> signature anyhow" where
  "signature_from_bytes bs =
     (let v = bs ! 64 in if v \<le> 3 then Inr (Signature bs) else Inl ''Invalid signature recovery id'')"

definition signature_from_parts :: "bytes \<Rightarrow> u8 \<Rightarrow> signature anyhow" where
  "signature_from_parts sig recid = signature_from_bytes (sig @ [recid])"

definition signature_from_slice :: "bytes \<Rightarrow> signature anyhow" where
  "signature_from_slice src =
     (if length src = SIGNATURE_SIZE then signature_from_bytes src
      else Inl ''could not convert slice to array'')"

definition signature_from_hex :: "externals \<Rightarrow> string \<Rightarrow> signature anyhow" where
  "signature_from_hex E s =
     (if \<not> prefix ''0x'' s then Inl ''Signature must have 0x-prefix''
      else case hex_decode_to_slice E (drop 2 s) SIGNATURE_SIZE of
             Inl e \<Rightarrow> Inl e
           | Inr bs \<Rightarrow> signature_from_bytes bs)"

definition signature_encode_0x_prefixed :: "externals \<Rightarrow> signature \<Rightarrow> string option" where
  "signature_encode_0x_prefixed E sig =
     (case hex_encode_to_slice E (signature_bytes sig) (SIGNATURE_SIZE * 2) of
        Inl e \<Rightarrow> None
      | Inr t \<Rightarrow> Some (''0x'' @ t))"

text \<open>
  \<open>split_last\<close> separates the recovery id from the 64 signature bytes; the array has 65 bytes, so
  neither \<open>expect\<close> can fail.
\<close>

definition signature_recover_from_prehash ::
    "externals \<Rightarrow> signature \<Rightarrow> bytes \<Rightarrow> address anyhow" where
  "signature_recover_from_prehash E sig prehash =
     (case k256_recover_from_prehash E prehash (butlast (signature_bytes sig)) (last (signature_bytes sig)) of
        Inl e \<Rightarrow> Inl e
      | Inr pk \<Rightarrow> Inr (address_from_public_key E pk))"

definition signature_recover :: "externals \<Rightarrow> signature \<Rightarrow> bytes \<Rightarrow> address anyhow" where
  "signature_recover E sig message = signature_recover_from_prehash E sig (sha256 E message)"

subsection \<open>The signer (signer.rs)\<close>

record signer =
  signer_secret_key :: secret_key
  signer_address :: address

definition signer_from_secret_key :: "externals \<Rightarrow> secret_key \<Rightarrow> signer" where
  "signer_from_secret_key E sk =
     \<lparr>signer_secret_key = sk,
      signer_address = address_from_public_key E (secret_key_public_key E sk)\<rparr>"

definition signer_new :: "externals \<Rightarrow> bytes \<Rightarrow> signer option" where
  "signer_new E secret =
     (case secret_key_from_byte_array E secret of
        Inl e \<Rightarrow> None
      | Inr sk \<Rightarrow> Some (signer_from_secret_key E sk))"

text \<open>The outer option is a panic in \<open>Signer::new\<close>, the sum the \<open>anyhow\<close> result.\<close>

definition signer_from_secret_bytes :: "externals \<Rightarrow> bytes \<Rightarrow> signer anyhow option" where
  "signer_from_secret_bytes E secret =
     (if length secret = 32 then map_option Inr (signer_new E secret)
      else Some (Inl ''could not convert slice to array''))"

definition signer_from_secret_str :: "externals \<Rightarrow> string \<Rightarrow> signer anyhow option" where
  "signer_from_secret_str E secret =
     (if \<not> prefix ''0x'' secret then Some (Inl ''Signed secret key must have 0x-prefix'')
      else case hex_decode E (drop 2 secret) of
             Inl e \<Rightarrow> Some (Inl e)
           | Inr bs \<Rightarrow> signer_from_secret_bytes E bs)"

definition signer_sign_prehash :: "externals \<Rightarrow> signer \<Rightarrow> bytes \<Rightarrow> signature option" where
  "signer_sign_prehash E s prehash =
     (let (sig, recid) = k256_sign_prehash E (signer_secret_key s) prehash
      in case signature_from_parts sig recid of Inl e \<Rightarrow> None | Inr x \<Rightarrow> Some x)"

definition signer_sign :: "externals \<Rightarrow> signer \<Rightarrow> bytes \<Rightarrow> signature option" where
  "signer_sign E s message = signer_sign_prehash E s (sha256 E message)"

text \<open>A signer built from a valid secret: what every constructor of \<open>signer.rs\<close> establishes.\<close>

definition signer_wf :: "externals \<Rightarrow> signer \<Rightarrow> bool" where
  "signer_wf E s \<longleftrightarrow>
     (\<exists>b. secret_key_from_byte_array E b = Inr (signer_secret_key s)) \<and>
     signer_address s = address_from_public_key E (secret_key_public_key E (signer_secret_key s))"

subsection \<open>Lemmas\<close>

lemma sha256_length: "sha256_ok E \<Longrightarrow> length (sha256 E m) = 32"
  by (simp add: sha256_ok_def sha256_def)

lemma address_from_public_key_length:
  "sha256_ok E \<Longrightarrow> length (address_bytes (address_from_public_key E pk)) = ADDRESS_SIZE"
  by (simp add: address_from_public_key_def sha256_length ADDRESS_SIZE_def)

lemma recid_word:
  assumes "r \<in> {0..3::int}"
  shows "(word_of_int r :: u8) \<le> 3" and "uint (word_of_int r :: u8) = r"
  using assms by (auto simp: word_le_def uint_word_of_int)

lemma sign_prehash_total:
  assumes "ecdsa_ok E"
  obtains sig where "signer_sign_prehash E s d = Some sig"
    and "signature_bytes sig = snd (sign_ecdsa_recoverable E d (signer_secret_key s)) @
           [word_of_int (fst (sign_ecdsa_recoverable E d (signer_secret_key s)))]"
    and "length (signature_bytes sig) = SIGNATURE_SIZE"
proof -
  obtain r b where rb: "sign_ecdsa_recoverable E d (signer_secret_key s) = (r, b)"
    by (cases "sign_ecdsa_recoverable E d (signer_secret_key s)")
  have len: "length b = 64" and r: "r \<in> {0..3}"
    using assms rb unfolding ecdsa_ok_def by (metis snd_conv, metis fst_conv)
  have "signer_sign_prehash E s d = Some (Signature (b @ [word_of_int r]))"
    using rb len recid_word(1) [OF r]
    by (simp add: signer_sign_prehash_def k256_sign_prehash_def signature_from_parts_def
        signature_from_bytes_def nth_append)
  then show thesis using that rb len by (simp add: SIGNATURE_SIZE_def)
qed

lemma recover_signed:
  assumes "ecdsa_ok E" and "signer_wf E s" and "length d = 32"
    and "signer_sign_prehash E s d = Some sig"
  shows "signature_recover_from_prehash E sig d = Inr (signer_address s)"
proof -
  obtain sig' where sig': "signer_sign_prehash E s d = Some sig'"
    and bytes: "signature_bytes sig' = snd (sign_ecdsa_recoverable E d (signer_secret_key s)) @
           [word_of_int (fst (sign_ecdsa_recoverable E d (signer_secret_key s)))]"
    using sign_prehash_total [OF assms(1)] by metis
  have r: "fst (sign_ecdsa_recoverable E d (signer_secret_key s)) \<in> {0..3}"
    and tryid: "\<And>i. i \<in> {0..3} \<Longrightarrow> recovery_id_try_from E i = Inr i"
    using assms(1) by (simp_all add: ecdsa_ok_def)
  have "recover_ecdsa_compact E d (snd (sign_ecdsa_recoverable E d (signer_secret_key s)))
          (fst (sign_ecdsa_recoverable E d (signer_secret_key s))) =
        Inr (secret_key_public_key E (signer_secret_key s))"
    using assms(1-3) unfolding ecdsa_ok_def signer_wf_def by blast
  then show ?thesis
    using assms(2,4) sig' bytes recid_word(2) [OF r] tryid [OF r]
    by (simp add: signature_recover_from_prehash_def k256_recover_from_prehash_def signer_wf_def)
qed

lemma signer_new_wf: "signer_new E secret = Some s \<Longrightarrow> signer_wf E s"
  by (auto simp: signer_new_def signer_wf_def signer_from_secret_key_def split: sum.splits)

lemma hex_text:
  assumes "hex_ok E"
  obtains t where "hex_encode_to_slice E bs (2 * length bs) = Inr t" and "length t = 2 * length bs"
    and "hex_decode_to_slice E t (length bs) = Inr bs"
  using assms unfolding hex_ok_def by blast

end
