(* ===== verification/Poa_Types.thy ===== *)
theory Poa_Types
  imports Primitives
begin

text \<open>
  The messages of the proof-of-authority consensus (\<open>consensus/poa/src/types.rs\<close>) with their
  digests, signatures and conversions, and the codec helpers of \<open>codec.rs\<close>. Every struct is a
  record and every enum a datatype; the derived Borsh implementations become functions into
  \<open>bval\<close> that list the fields in the order of the source. Signing can panic (the \<open>expect\<close> in
  \<open>Signer::sign_prehash\<close>), so operations that sign return an option.
\<close>

subsection \<open>Data\<close>

record view =
  view_height :: u64
  view_round :: u8

definition view_new :: "u64 \<Rightarrow> u8 \<Rightarrow> view" where
  "view_new h r = \<lparr>view_height = h, view_round = r\<rparr>"

record proposed_block =
  raw_block :: bytes
  block_round :: u8

record proposal_metadata =
  meta_view :: view
  meta_digest :: bytes
  meta_signature :: signature

record prepare_message =
  prepare_view :: view
  prepare_digest :: bytes

record prepare_signed =
  prepare_message :: prepare_message
  prepare_signature :: signature

record commit_message =
  commit_view :: view
  commit_digest :: bytes
  commit_seal :: signature

record commit_signed =
  commit_message :: commit_message
  commit_signature :: signature

record prepared_certificate =
  pc_proposal :: proposal_metadata
  pc_prepares :: "prepare_signed list"

record prepared_proposed =
  pp_block :: proposed_block
  pp_certificate :: prepared_certificate

record round_change_message =
  rc_view :: view
  rc_prepared :: "prepared_proposed option"

record round_change_signed =
  rc_message :: round_change_message
  rc_signature :: signature

record round_change_metadata =
  rcm_view :: view
  rcm_certificate :: "prepared_certificate option"
  rcm_signature :: signature

record round_change_certificate =
  rcc_messages :: "round_change_metadata list"

record proposal_message =
  proposal_view :: view
  proposal_block :: proposed_block
  proposal_digest :: bytes
  proposal_rcc :: "round_change_certificate option"

record proposal_signed =
  proposal_message :: proposal_message
  proposal_signature :: signature

type_synonym commit_seals = "signature list"

record finalization_proof =
  proof_round :: u8
  proof_seals :: commit_seals

record finalized_block =
  final_raw_block :: bytes
  final_proof :: finalization_proof

text \<open>
  \<open>IBFTBroadcastMessage\<close> (borrowed, sent) and \<open>IBFTReceivedMessage\<close> (owned, received) have the
  same variants in the same order; one datatype stands for both.
\<close>

datatype ibft_message =
    Proposal proposal_signed
  | Prepare prepare_signed
  | Commit commit_signed
  | RoundChange round_change_signed

datatype message_type = TProposal | TPrepare | TCommit | TRoundChange

datatype ibft_error =
    IncorrectProposalDigest
  | InvalidProposalBlock string
  | BlockBuild string
  | MissingRoundChangeCertificate
  | RoundChangeCertificateQuorumNotReached
  | InvalidRoundChangeInCertificate
  | DuplicateRoundChangeInCertificate

subsection \<open>Codec (codec.rs) and Borsh layouts\<close>

definition codec_serialize :: "externals \<Rightarrow> bval \<Rightarrow> bytes" where
  "codec_serialize E item = borsh_to_vec E item"

text \<open>
  Writing into a fixed buffer fills it from the front and leaves the rest; the flag says whether
  the whole item fitted, which \<open>expect\<close> demands.
\<close>

definition codec_serialize_to :: "externals \<Rightarrow> bval \<Rightarrow> bytes \<Rightarrow> bytes \<times> bool" where
  "codec_serialize_to E item buf =
     (let b = borsh_to_vec E item
      in (take (length buf) b @ drop (length b) buf, length b \<le> length buf))"

fun message_type_discriminant :: "message_type \<Rightarrow> u8" where
  "message_type_discriminant TProposal = 0"
| "message_type_discriminant TPrepare = 1"
| "message_type_discriminant TCommit = 2"
| "message_type_discriminant TRoundChange = 3"

definition bval_type :: "message_type \<Rightarrow> bval" where
  "bval_type t = BVariant (message_type_discriminant t) []"

definition bval_view :: "view \<Rightarrow> bval" where
  "bval_view v = BTuple [BU64 (view_height v), BU8 (view_round v)]"

definition bval_signature :: "signature \<Rightarrow> bval" where
  "bval_signature s = BTuple [BArray (signature_bytes s)]"

definition bval_proposal_metadata :: "proposal_metadata \<Rightarrow> bval" where
  "bval_proposal_metadata p =
     BTuple [bval_view (meta_view p), BArray (meta_digest p), bval_signature (meta_signature p)]"

definition bval_prepare_signed :: "prepare_signed \<Rightarrow> bval" where
  "bval_prepare_signed p =
     BTuple [BTuple [bval_view (prepare_view (prepare_message p)), BArray (prepare_digest (prepare_message p))],
             bval_signature (prepare_signature p)]"

definition bval_prepared_certificate :: "prepared_certificate \<Rightarrow> bval" where
  "bval_prepared_certificate pc =
     BTuple [bval_proposal_metadata (pc_proposal pc), BSeq (map bval_prepare_signed (pc_prepares pc))]"

subsection \<open>Digests\<close>

definition PROPOSAL_SIZE :: nat where
  "PROPOSAL_SIZE = 1 + 9 + 32"

definition PREPARE_SIZE :: nat where
  "PREPARE_SIZE = 1 + 9 + 32"

definition COMMIT_SIZE :: nat where
  "COMMIT_SIZE = 1 + 9 + 32 + 65"

definition proposal_preimage :: "externals \<Rightarrow> view \<Rightarrow> bytes \<Rightarrow> bytes \<times> bool" where
  "proposal_preimage E v d =
     codec_serialize_to E (BTuple [bval_type TProposal, bval_view v, BArray d]) (replicate PROPOSAL_SIZE 0)"

definition digest_proposal :: "externals \<Rightarrow> view \<Rightarrow> bytes \<Rightarrow> bytes" where
  "digest_proposal E v d = sha256 E (fst (proposal_preimage E v d))"

definition prepare_preimage :: "externals \<Rightarrow> view \<Rightarrow> bytes \<Rightarrow> bytes \<times> bool" where
  "prepare_preimage E v d =
     codec_serialize_to E (BTuple [bval_type TPrepare, bval_view v, BArray d]) (replicate PREPARE_SIZE 0)"

definition digest_prepare :: "externals \<Rightarrow> view \<Rightarrow> bytes \<Rightarrow> bytes" where
  "digest_prepare E v d = sha256 E (fst (prepare_preimage E v d))"

definition commit_preimage :: "externals \<Rightarrow> view \<Rightarrow> bytes \<Rightarrow> signature \<Rightarrow> bytes \<times> bool" where
  "commit_preimage E v d seal =
     codec_serialize_to E (BTuple [bval_type TCommit, bval_view v, BArray d, bval_signature seal])
       (replicate COMMIT_SIZE 0)"

definition digest_commit :: "externals \<Rightarrow> view \<Rightarrow> bytes \<Rightarrow> signature \<Rightarrow> bytes" where
  "digest_commit E v d seal = sha256 E (fst (commit_preimage E v d seal))"

definition digest_round_change :: "externals \<Rightarrow> view \<Rightarrow> prepared_certificate option \<Rightarrow> bytes" where
  "digest_round_change E v pc =
     sha256 E (codec_serialize E
       (BTuple [bval_type TRoundChange, bval_view v, BOpt (map_option bval_prepared_certificate pc)]))"

definition digest_block :: "externals \<Rightarrow> bytes \<Rightarrow> u8 \<Rightarrow> bytes" where
  "digest_block E raw round = sha256 E (codec_serialize E (BTuple [BBytes raw, BU8 round]))"

definition proposed_block_digest :: "externals \<Rightarrow> proposed_block \<Rightarrow> bytes" where
  "proposed_block_digest E b = digest_block E (raw_block b) (block_round b)"

subsection \<open>Proposals\<close>

definition proposal_new :: "externals \<Rightarrow> view \<Rightarrow> bytes \<Rightarrow> round_change_certificate option \<Rightarrow> proposal_message" where
  "proposal_new E v raw rcc =
     (let b = \<lparr>raw_block = raw, block_round = view_round v\<rparr>
      in \<lparr>proposal_view = v, proposal_block = b, proposal_digest = proposed_block_digest E b,
          proposal_rcc = rcc\<rparr>)"

definition proposal_message_digest :: "externals \<Rightarrow> proposal_message \<Rightarrow> bytes" where
  "proposal_message_digest E m = digest_proposal E (proposal_view m) (proposal_digest m)"

definition proposal_into_signed :: "externals \<Rightarrow> proposal_message \<Rightarrow> signer \<Rightarrow> proposal_signed option" where
  "proposal_into_signed E m s =
     map_option (\<lambda>sig. \<lparr>proposal_message = m, proposal_signature = sig\<rparr>)
       (signer_sign_prehash E s (proposal_message_digest E m))"

definition proposal_verify_block_digest :: "externals \<Rightarrow> proposal_signed \<Rightarrow> bool" where
  "proposal_verify_block_digest E p \<longleftrightarrow>
     proposed_block_digest E (proposal_block (proposal_message p)) = proposal_digest (proposal_message p)"

definition proposal_recover_signer :: "externals \<Rightarrow> proposal_signed \<Rightarrow> address anyhow" where
  "proposal_recover_signer E p =
     signature_recover_from_prehash E (proposal_signature p) (proposal_message_digest E (proposal_message p))"

abbreviation ps_view :: "proposal_signed \<Rightarrow> view" where
  "ps_view p \<equiv> proposal_view (proposal_message p)"

abbreviation ps_digest :: "proposal_signed \<Rightarrow> bytes" where
  "ps_digest p \<equiv> proposal_digest (proposal_message p)"

abbreviation ps_block :: "proposal_signed \<Rightarrow> proposed_block" where
  "ps_block p \<equiv> proposal_block (proposal_message p)"

definition meta_recover_signer :: "externals \<Rightarrow> proposal_metadata \<Rightarrow> address anyhow" where
  "meta_recover_signer E p =
     signature_recover_from_prehash E (meta_signature p) (digest_proposal E (meta_view p) (meta_digest p))"

subsection \<open>Prepares and commits\<close>

definition prepare_new :: "view \<Rightarrow> bytes \<Rightarrow> prepare_message" where
  "prepare_new v d = \<lparr>prepare_view = v, prepare_digest = d\<rparr>"

definition prepare_message_digest :: "externals \<Rightarrow> prepare_message \<Rightarrow> bytes" where
  "prepare_message_digest E m = digest_prepare E (prepare_view m) (prepare_digest m)"

definition prepare_into_signed :: "externals \<Rightarrow> prepare_message \<Rightarrow> signer \<Rightarrow> prepare_signed option" where
  "prepare_into_signed E m s =
     map_option (\<lambda>sig. \<lparr>prepare_message = m, prepare_signature = sig\<rparr>)
       (signer_sign_prehash E s (prepare_message_digest E m))"

definition prepare_recover_signer :: "externals \<Rightarrow> prepare_signed \<Rightarrow> address anyhow" where
  "prepare_recover_signer E p =
     signature_recover_from_prehash E (prepare_signature p) (prepare_message_digest E (prepare_message p))"

abbreviation pr_view :: "prepare_signed \<Rightarrow> view" where
  "pr_view p \<equiv> prepare_view (prepare_message p)"

abbreviation pr_digest :: "prepare_signed \<Rightarrow> bytes" where
  "pr_digest p \<equiv> prepare_digest (prepare_message p)"

definition commit_new :: "externals \<Rightarrow> view \<Rightarrow> bytes \<Rightarrow> signer \<Rightarrow> commit_message option" where
  "commit_new E v d s =
     map_option (\<lambda>seal. \<lparr>commit_view = v, commit_digest = d, commit_seal = seal\<rparr>)
       (signer_sign_prehash E s d)"

definition commit_message_digest :: "externals \<Rightarrow> commit_message \<Rightarrow> bytes" where
  "commit_message_digest E m = digest_commit E (commit_view m) (commit_digest m) (commit_seal m)"

definition commit_into_signed :: "externals \<Rightarrow> commit_message \<Rightarrow> signer \<Rightarrow> commit_signed option" where
  "commit_into_signed E m s =
     map_option (\<lambda>sig. \<lparr>commit_message = m, commit_signature = sig\<rparr>)
       (signer_sign_prehash E s (commit_message_digest E m))"

definition commit_recover_signer :: "externals \<Rightarrow> commit_signed \<Rightarrow> address anyhow" where
  "commit_recover_signer E c =
     signature_recover_from_prehash E (commit_signature c) (commit_message_digest E (commit_message c))"

definition commit_recover_seal_signer :: "externals \<Rightarrow> commit_signed \<Rightarrow> address anyhow" where
  "commit_recover_seal_signer E c =
     signature_recover_from_prehash E (commit_seal (commit_message c)) (commit_digest (commit_message c))"

abbreviation cm_view :: "commit_signed \<Rightarrow> view" where
  "cm_view c \<equiv> commit_view (commit_message c)"

abbreviation cm_digest :: "commit_signed \<Rightarrow> bytes" where
  "cm_digest c \<equiv> commit_digest (commit_message c)"

abbreviation cm_seal :: "commit_signed \<Rightarrow> signature" where
  "cm_seal c \<equiv> commit_seal (commit_message c)"

subsection \<open>Round changes\<close>

definition prepared_proposed_new :: "proposal_signed \<Rightarrow> prepare_signed list \<Rightarrow> prepared_proposed" where
  "prepared_proposed_new p prepares =
     (let meta = \<lparr>meta_view = ps_view p, meta_digest = ps_digest p, meta_signature = proposal_signature p\<rparr>
      in \<lparr>pp_block = ps_block p, pp_certificate = \<lparr>pc_proposal = meta, pc_prepares = prepares\<rparr>\<rparr>)"

definition rc_new :: "view \<Rightarrow> prepared_proposed option \<Rightarrow> round_change_message" where
  "rc_new v pp = \<lparr>rc_view = v, rc_prepared = pp\<rparr>"

definition rc_message_digest :: "externals \<Rightarrow> round_change_message \<Rightarrow> bytes" where
  "rc_message_digest E m = digest_round_change E (rc_view m) (map_option pp_certificate (rc_prepared m))"

definition rc_into_signed :: "externals \<Rightarrow> round_change_message \<Rightarrow> signer \<Rightarrow> round_change_signed option" where
  "rc_into_signed E m s =
     map_option (\<lambda>sig. \<lparr>rc_message = m, rc_signature = sig\<rparr>)
       (signer_sign_prehash E s (rc_message_digest E m))"

definition rc_recover_signer :: "externals \<Rightarrow> round_change_signed \<Rightarrow> address anyhow" where
  "rc_recover_signer E m =
     signature_recover_from_prehash E (rc_signature m) (rc_message_digest E (rc_message m))"

abbreviation rcs_view :: "round_change_signed \<Rightarrow> view" where
  "rcs_view m \<equiv> rc_view (rc_message m)"

abbreviation rcs_prepared :: "round_change_signed \<Rightarrow> prepared_proposed option" where
  "rcs_prepared m \<equiv> rc_prepared (rc_message m)"

definition rc_update_and_resign ::
    "externals \<Rightarrow> round_change_signed \<Rightarrow> u8 \<Rightarrow> signer \<Rightarrow> round_change_signed option" where
  "rc_update_and_resign E m r s =
     (let msg = (rc_message m)\<lparr>rc_view := (rcs_view m)\<lparr>view_round := r\<rparr>\<rparr>
      in map_option (\<lambda>sig. m\<lparr>rc_message := msg, rc_signature := sig\<rparr>)
           (signer_sign_prehash E s (rc_message_digest E msg)))"

definition rc_into_metadata :: "round_change_signed \<Rightarrow> proposed_block option \<times> round_change_metadata" where
  "rc_into_metadata m =
     (let (block, cert) = (case rcs_prepared m of
                             Some p \<Rightarrow> (Some (pp_block p), Some (pp_certificate p))
                           | None \<Rightarrow> (None, None))
      in (block, \<lparr>rcm_view = rcs_view m, rcm_certificate = cert, rcm_signature = rc_signature m\<rparr>))"

definition rc_clone :: "round_change_signed \<Rightarrow> round_change_signed" where
  "rc_clone m =
     \<lparr>rc_message = \<lparr>rc_view = rcs_view m,
                    rc_prepared = map_option (\<lambda>p.
                      let pc = pp_certificate p
                      in \<lparr>pp_block = \<lparr>raw_block = raw_block (pp_block p), block_round = block_round (pp_block p)\<rparr>,
                          pp_certificate =
                            \<lparr>pc_proposal = \<lparr>meta_view = meta_view (pc_proposal pc),
                                            meta_digest = meta_digest (pc_proposal pc),
                                            meta_signature = meta_signature (pc_proposal pc)\<rparr>,
                             pc_prepares = pc_prepares pc\<rparr>\<rparr>) (rcs_prepared m)\<rparr>,
      rc_signature = rc_signature m\<rparr>"

definition rcm_from_message :: "round_change_signed \<Rightarrow> round_change_metadata" where
  "rcm_from_message m =
     \<lparr>rcm_view = rcs_view m, rcm_certificate = map_option pp_certificate (rcs_prepared m),
      rcm_signature = rc_signature m\<rparr>"

definition rcm_digest :: "externals \<Rightarrow> round_change_metadata \<Rightarrow> bytes" where
  "rcm_digest E m = digest_round_change E (rcm_view m) (rcm_certificate m)"

definition rcm_recover_signer :: "externals \<Rightarrow> round_change_metadata \<Rightarrow> address anyhow" where
  "rcm_recover_signer E m = signature_recover_from_prehash E (rcm_signature m) (rcm_digest E m)"

subsection \<open>Finalized blocks\<close>

definition finalization_proof_new :: "u8 \<Rightarrow> commit_seals \<Rightarrow> finalization_proof" where
  "finalization_proof_new r seals = \<lparr>proof_round = r, proof_seals = seals\<rparr>"

definition finalized_block_new :: "proposed_block \<Rightarrow> commit_seals \<Rightarrow> finalized_block" where
  "finalized_block_new b seals =
     \<lparr>final_raw_block = raw_block b, final_proof = finalization_proof_new (block_round b) seals\<rparr>"

subsection \<open>Signing and recovering\<close>

text \<open>Two different byte strings with one SHA-256 digest.\<close>

definition sha256_collision :: "externals \<Rightarrow> bytes \<Rightarrow> bytes \<Rightarrow> bool" where
  "sha256_collision E x y \<longleftrightarrow> x \<noteq> y \<and> sha256 E x = sha256 E y"

lemmas digest_defs = digest_proposal_def digest_prepare_def digest_commit_def digest_round_change_def
  digest_block_def

lemmas message_digest_defs = proposal_message_digest_def prepare_message_digest_def
  commit_message_digest_def rc_message_digest_def

lemma digest_lengths:
  assumes "sha256_ok E"
  shows "length (digest_proposal E v d) = 32" and "length (digest_prepare E v d) = 32"
    and "length (digest_commit E v d seal) = 32" and "length (digest_round_change E v pc) = 32"
    and "length (digest_block E raw r) = 32"
  using assms by (simp_all add: digest_defs sha256_length)

lemma sign_recover:
  assumes "externals_ok E" and "signer_wf E s" and "length d = 32"
  obtains sig where "signer_sign_prehash E s d = Some sig"
    and "signature_recover_from_prehash E sig d = Inr (signer_address s)"
    and "length (signature_bytes sig) = SIGNATURE_SIZE"
proof -
  have "ecdsa_ok E" using assms(1) by (simp add: externals_ok_def)
  then obtain sig where sig: "signer_sign_prehash E s d = Some sig"
    "length (signature_bytes sig) = SIGNATURE_SIZE"
    by (rule sign_prehash_total)
  show thesis
    by (rule that [OF sig(1) recover_signed [OF \<open>ecdsa_ok E\<close> assms(2,3) sig(1)] sig(2)])
qed

lemma proposal_into_signed_recovers:
  assumes "externals_ok E" and "signer_wf E s"
  obtains p where "proposal_into_signed E m s = Some p" and "proposal_message p = m"
    and "proposal_recover_signer E p = Inr (signer_address s)"
proof -
  have "length (proposal_message_digest E m) = 32"
    using assms(1) by (simp add: externals_ok_def message_digest_defs digest_lengths)
  then obtain sig where sig: "signer_sign_prehash E s (proposal_message_digest E m) = Some sig"
    "signature_recover_from_prehash E sig (proposal_message_digest E m) = Inr (signer_address s)"
    by (rule sign_recover [OF assms])
  show thesis
    by (rule that [of "\<lparr>proposal_message = m, proposal_signature = sig\<rparr>"])
      (simp_all add: proposal_into_signed_def proposal_recover_signer_def sig)
qed

lemma prepare_into_signed_recovers:
  assumes "externals_ok E" and "signer_wf E s"
  obtains p where "prepare_into_signed E m s = Some p" and "prepare_message p = m"
    and "prepare_recover_signer E p = Inr (signer_address s)"
proof -
  have "length (prepare_message_digest E m) = 32"
    using assms(1) by (simp add: externals_ok_def message_digest_defs digest_lengths)
  then obtain sig where sig: "signer_sign_prehash E s (prepare_message_digest E m) = Some sig"
    "signature_recover_from_prehash E sig (prepare_message_digest E m) = Inr (signer_address s)"
    by (rule sign_recover [OF assms])
  show thesis
    by (rule that [of "\<lparr>prepare_message = m, prepare_signature = sig\<rparr>"])
      (simp_all add: prepare_into_signed_def prepare_recover_signer_def sig)
qed

lemma commit_into_signed_recovers:
  assumes "externals_ok E" and "signer_wf E s"
  obtains c where "commit_into_signed E m s = Some c" and "commit_message c = m"
    and "commit_recover_signer E c = Inr (signer_address s)"
proof -
  have "length (commit_message_digest E m) = 32"
    using assms(1) by (simp add: externals_ok_def message_digest_defs digest_lengths)
  then obtain sig where sig: "signer_sign_prehash E s (commit_message_digest E m) = Some sig"
    "signature_recover_from_prehash E sig (commit_message_digest E m) = Inr (signer_address s)"
    by (rule sign_recover [OF assms])
  show thesis
    by (rule that [of "\<lparr>commit_message = m, commit_signature = sig\<rparr>"])
      (simp_all add: commit_into_signed_def commit_recover_signer_def sig)
qed

lemma commit_new_seals:
  assumes "externals_ok E" and "signer_wf E s" and "length d = 32"
  obtains m where "commit_new E v d s = Some m" and "commit_view m = v" and "commit_digest m = d"
    and "signature_recover_from_prehash E (commit_seal m) d = Inr (signer_address s)"
proof -
  obtain sig where sig: "signer_sign_prehash E s d = Some sig"
    "signature_recover_from_prehash E sig d = Inr (signer_address s)"
    by (rule sign_recover [OF assms])
  show thesis
    by (rule that [of "\<lparr>commit_view = v, commit_digest = d, commit_seal = sig\<rparr>"])
      (simp_all add: commit_new_def sig)
qed

lemma rc_into_signed_recovers:
  assumes "externals_ok E" and "signer_wf E s"
  obtains p where "rc_into_signed E m s = Some p" and "rc_message p = m"
    and "rc_recover_signer E p = Inr (signer_address s)"
proof -
  have "length (rc_message_digest E m) = 32"
    using assms(1) by (simp add: externals_ok_def message_digest_defs digest_lengths)
  then obtain sig where sig: "signer_sign_prehash E s (rc_message_digest E m) = Some sig"
    "signature_recover_from_prehash E sig (rc_message_digest E m) = Inr (signer_address s)"
    by (rule sign_recover [OF assms])
  show thesis
    by (rule that [of "\<lparr>rc_message = m, rc_signature = sig\<rparr>"])
      (simp_all add: rc_into_signed_def rc_recover_signer_def sig)
qed

lemma rc_update_and_resign_recovers:
  assumes "externals_ok E" and "signer_wf E s"
  obtains p where "rc_update_and_resign E m r s = Some p"
    and "rcs_view p = (rcs_view m)\<lparr>view_round := r\<rparr>" and "rcs_prepared p = rcs_prepared m"
    and "rc_recover_signer E p = Inr (signer_address s)"
proof -
  let ?msg = "(rc_message m)\<lparr>rc_view := (rcs_view m)\<lparr>view_round := r\<rparr>\<rparr>"
  have "length (rc_message_digest E ?msg) = 32"
    using assms(1) by (simp add: externals_ok_def message_digest_defs digest_lengths)
  then obtain sig where sig: "signer_sign_prehash E s (rc_message_digest E ?msg) = Some sig"
    "signature_recover_from_prehash E sig (rc_message_digest E ?msg) = Inr (signer_address s)"
    by (rule sign_recover [OF assms])
  show thesis
    by (rule that [of "m\<lparr>rc_message := ?msg, rc_signature := sig\<rparr>"])
      (simp_all add: rc_update_and_resign_def rc_recover_signer_def Let_def sig)
qed

subsection \<open>Layout of the signed byte strings\<close>

lemma bval_view_encoding:
  "borsh_ok E \<Longrightarrow> borsh_to_vec E (bval_view v) =
     borsh_to_vec E (BU64 (view_height v)) @ [view_round v]"
  by (simp add: borsh_ok_def bval_view_def)

lemma bval_view_length: "borsh_ok E \<Longrightarrow> length (borsh_to_vec E (bval_view v)) = 9"
  by (simp add: bval_view_encoding) (simp add: borsh_ok_def)

lemma bval_view_inj:
  assumes "borsh_ok E" and "borsh_to_vec E (bval_view v) = borsh_to_vec E (bval_view w)"
  shows "v = w"
proof -
  have "borsh_to_vec E (BU64 (view_height v)) = borsh_to_vec E (BU64 (view_height w))"
    and r: "view_round v = view_round w"
    using assms(2) by (simp_all add: bval_view_encoding [OF assms(1)])
  then have "view_height v = view_height w"
    using assms(1) by (auto simp: borsh_ok_def dest: injD)
  with r show ?thesis by simp
qed

lemma serialize_to_exact:
  assumes "length (borsh_to_vec E item) = n"
  shows "codec_serialize_to E item (replicate n 0) = (borsh_to_vec E item, True)"
  using assms by (simp add: codec_serialize_to_def)

lemma tagged_encoding:
  "borsh_ok E \<Longrightarrow> borsh_to_vec E (BTuple (bval_type t # bval_view v # BArray d # rest)) =
     message_type_discriminant t # borsh_to_vec E (bval_view v) @ d @ concat (map (borsh_to_vec E) rest)"
  by (simp add: borsh_ok_def bval_type_def)

lemma preimage_proposal:
  assumes "borsh_ok E" and "length d = 32"
  shows "proposal_preimage E v d = (0 # borsh_to_vec E (bval_view v) @ d, True)"
  unfolding proposal_preimage_def
  by (subst serialize_to_exact)
    (simp_all add: tagged_encoding [OF assms(1)] bval_view_length [OF assms(1)] assms(2) PROPOSAL_SIZE_def)

lemma preimage_prepare:
  assumes "borsh_ok E" and "length d = 32"
  shows "prepare_preimage E v d = (1 # borsh_to_vec E (bval_view v) @ d, True)"
  unfolding prepare_preimage_def
  by (subst serialize_to_exact)
    (simp_all add: tagged_encoding [OF assms(1)] bval_view_length [OF assms(1)] assms(2) PREPARE_SIZE_def)

lemma bval_signature_encoding:
  "borsh_ok E \<Longrightarrow> borsh_to_vec E (bval_signature s) = signature_bytes s"
  by (simp add: borsh_ok_def bval_signature_def)

lemma preimage_commit:
  assumes "borsh_ok E" and "length d = 32" and "length (signature_bytes seal) = SIGNATURE_SIZE"
  shows "commit_preimage E v d seal =
     (2 # borsh_to_vec E (bval_view v) @ d @ signature_bytes seal, True)"
  unfolding commit_preimage_def
  by (subst serialize_to_exact)
    (simp_all add: tagged_encoding [OF assms(1)] bval_view_length [OF assms(1)] assms(2,3)
       bval_signature_encoding [OF assms(1)] COMMIT_SIZE_def SIGNATURE_SIZE_def)

lemma rc_clone_id: "rc_clone m = m"
  by (cases "rcs_prepared m") (simp_all add: rc_clone_def Let_def)

lemma into_metadata_view [simp]: "rcm_view (snd (rc_into_metadata m)) = rcs_view m"
  by (simp add: rc_into_metadata_def split: option.split)

lemma into_metadata_certificate [simp]:
  "rcm_certificate (snd (rc_into_metadata m)) = map_option pp_certificate (rcs_prepared m)"
  by (simp add: rc_into_metadata_def split: option.split)

lemma into_metadata_block [simp]:
  "fst (rc_into_metadata m) = map_option pp_block (rcs_prepared m)"
  by (simp add: rc_into_metadata_def split: option.split)

lemma into_metadata_recover [simp]:
  "rcm_recover_signer E (snd (rc_into_metadata m)) = rc_recover_signer E m"
  by (simp add: rcm_recover_signer_def rc_recover_signer_def rcm_digest_def rc_message_digest_def)
    (simp add: rc_into_metadata_def split: option.split)

lemma prepared_proposed_new_recover [simp]:
  "meta_recover_signer E (pc_proposal (pp_certificate (prepared_proposed_new p prepares))) =
     proposal_recover_signer E p"
  by (simp add: prepared_proposed_new_def meta_recover_signer_def proposal_recover_signer_def
      proposal_message_digest_def)

subsection \<open>Properties\<close>

text \<open>C34: Every message the node signs carries a signature from which its receivers recover the
  signer's address, with the content unchanged: proposals, prepares, round changes and commits;
  and the seal of a commit recovers to the same address over the bare block digest.\<close>

theorem signed_messages_recover:
  assumes "externals_ok E" and "signer_wf E s" and "length d = 32"
  shows "(\<exists>p. proposal_into_signed E pm s = Some p \<and> proposal_message p = pm \<and>
              proposal_recover_signer E p = Inr (signer_address s)) \<and>
         (\<exists>p. prepare_into_signed E (prepare_new v d) s = Some p \<and> pr_view p = v \<and> pr_digest p = d \<and>
              prepare_recover_signer E p = Inr (signer_address s)) \<and>
         (\<exists>m c. commit_new E v d s = Some m \<and> commit_into_signed E m s = Some c \<and>
              cm_view c = v \<and> cm_digest c = d \<and>
              commit_recover_signer E c = Inr (signer_address s) \<and>
              commit_recover_seal_signer E c = Inr (signer_address s)) \<and>
         (\<exists>p. rc_into_signed E (rc_new v pp) s = Some p \<and> rcs_view p = v \<and> rcs_prepared p = pp \<and>
              rc_recover_signer E p = Inr (signer_address s))"
proof -
  obtain p where p: "proposal_into_signed E pm s = Some p" "proposal_message p = pm"
    "proposal_recover_signer E p = Inr (signer_address s)"
    by (rule proposal_into_signed_recovers [OF assms(1,2)])
  obtain q where q: "prepare_into_signed E (prepare_new v d) s = Some q" "prepare_message q = prepare_new v d"
    "prepare_recover_signer E q = Inr (signer_address s)"
    by (rule prepare_into_signed_recovers [OF assms(1,2)])
  obtain m where m: "commit_new E v d s = Some m" "commit_view m = v" "commit_digest m = d"
    "signature_recover_from_prehash E (commit_seal m) d = Inr (signer_address s)"
    by (rule commit_new_seals [OF assms])
  obtain c where c: "commit_into_signed E m s = Some c" "commit_message c = m"
    "commit_recover_signer E c = Inr (signer_address s)"
    by (rule commit_into_signed_recovers [OF assms(1,2)])
  obtain r where r: "rc_into_signed E (rc_new v pp) s = Some r" "rc_message r = rc_new v pp"
    "rc_recover_signer E r = Inr (signer_address s)"
    by (rule rc_into_signed_recovers [OF assms(1,2)])
  show ?thesis
    using p q m c r by (simp add: prepare_new_def rc_new_def commit_recover_seal_signer_def)
qed

text \<open>A concrete signer over the sample externals.\<close>

definition sample_signer :: "u8 \<Rightarrow> signer" where
  "sample_signer n = signer_from_secret_key sample_externals (replicate 32 n)"

lemma sample_signer_wf: "signer_wf sample_externals (sample_signer n)"
proof -
  have "secret_key_from_byte_array sample_externals (replicate 32 n) = Inr (replicate 32 n)"
    by (simp add: sample_externals_def)
  then show ?thesis
    unfolding signer_wf_def sample_signer_def signer_from_secret_key_def by auto
qed

theorem signed_messages_recover_witness:
  "\<exists>p. prepare_into_signed sample_externals (prepare_new (view_new 1 0) (replicate 32 7)) (sample_signer 1) = Some p \<and>
       prepare_recover_signer sample_externals p = Inr (signer_address (sample_signer 1))"
proof -
  have "length (replicate 32 (7::byte)) = 32" by simp
  from signed_messages_recover [OF sample_externals_ok sample_signer_wf this]
  show ?thesis by blast
qed

text \<open>The compact forms that travel inside certificates keep the signer: the metadata of a
  round change (\<open>into_metadata\<close>, \<open>from_message\<close>) and the proposal metadata of a prepared
  certificate recover to the signer of the original message, and cloning a round change is the
  identity.\<close>

theorem metadata_keeps_signer:
  "rcm_recover_signer E (snd (rc_into_metadata m)) = rc_recover_signer E m \<and>
   rcm_from_message m = snd (rc_into_metadata m) \<and>
   meta_recover_signer E (pc_proposal (pp_certificate (prepared_proposed_new p prepares))) =
     proposal_recover_signer E p \<and>
   rc_clone m = m"
  by (simp add: rc_clone_id) (simp add: rcm_from_message_def rc_into_metadata_def split: option.split)

text \<open>C36: The fixed buffers of \<open>digest_proposal\<close>, \<open>digest_prepare\<close> and \<open>digest_commit\<close> are exactly
  as long as what is written: \<open>serialize_to\<close> never panics on a 32-byte digest and a 65-byte seal, and
  no byte of padding is signed. What is signed determines the message kind, the view and the
  digest, and for a commit the seal: two buffers are equal only if all of these are.\<close>

theorem digest_preimages_exact:
  assumes "borsh_ok E" and "length d = 32" and "length d' = 32"
    and "length (signature_bytes seal) = SIGNATURE_SIZE" and "length (signature_bytes seal') = SIGNATURE_SIZE"
  shows "snd (proposal_preimage E v d) \<and> snd (prepare_preimage E v d) \<and> snd (commit_preimage E v d seal) \<and>
         length (fst (proposal_preimage E v d)) = PROPOSAL_SIZE \<and>
         length (fst (prepare_preimage E v d)) = PREPARE_SIZE \<and>
         length (fst (commit_preimage E v d seal)) = COMMIT_SIZE \<and>
         (fst (proposal_preimage E v d) = fst (proposal_preimage E w d') \<longleftrightarrow> v = w \<and> d = d') \<and>
         (fst (prepare_preimage E v d) = fst (prepare_preimage E w d') \<longleftrightarrow> v = w \<and> d = d') \<and>
         (fst (commit_preimage E v d seal) = fst (commit_preimage E w d' seal') \<longleftrightarrow> v = w \<and> d = d' \<and> seal = seal') \<and>
         hd (fst (proposal_preimage E v d)) = 0 \<and>
         hd (fst (prepare_preimage E v d)) = 1 \<and>
         hd (fst (commit_preimage E v d seal)) = 2 \<and>
         fst (proposal_preimage E v d) \<noteq> fst (prepare_preimage E w d') \<and>
         fst (proposal_preimage E v d) \<noteq> fst (commit_preimage E w d' seal') \<and>
         fst (prepare_preimage E v d) \<noteq> fst (commit_preimage E w d' seal')"
proof -
  note pre = preimage_proposal [OF assms(1)] preimage_prepare [OF assms(1)] preimage_commit [OF assms(1)]
  have inj: "borsh_to_vec E (bval_view v) @ d @ xs = borsh_to_vec E (bval_view w) @ d' @ ys \<longleftrightarrow> v = w \<and> d = d' \<and> xs = ys" for xs ys
    using bval_view_inj [OF assms(1)] assms(2,3) by (auto simp: append_eq_append_conv bval_view_length [OF assms(1)])
  have seals: "signature_bytes seal = signature_bytes seal' \<longleftrightarrow> seal = seal'" by (cases seal; cases seal') simp
  show ?thesis
    using assms inj [of "[]" "[]"] inj [of "signature_bytes seal" "signature_bytes seal'"] seals
    by (auto simp add: pre bval_view_length [OF assms(1)] PROPOSAL_SIZE_def PREPARE_SIZE_def COMMIT_SIZE_def SIGNATURE_SIZE_def)
qed

theorem digest_preimages_exact_witness:
  "snd (commit_preimage sample_externals (view_new 3 1) (replicate 32 5) (Signature (replicate 65 0))) \<and>
   fst (commit_preimage sample_externals (view_new 3 1) (replicate 32 5) (Signature (replicate 65 0))) \<noteq>
     fst (commit_preimage sample_externals (view_new 3 2) (replicate 32 5) (Signature (replicate 65 0))) \<and>
   fst (prepare_preimage sample_externals (view_new 3 1) (replicate 32 5)) \<noteq>
     fst (commit_preimage sample_externals (view_new 3 1) (replicate 32 5) (Signature (replicate 65 0)))"
proof -
  have "length (replicate 32 (5::byte)) = 32" by simp
  moreover have "length (signature_bytes (Signature (replicate 65 (0::byte)))) = SIGNATURE_SIZE"
    by (simp add: SIGNATURE_SIZE_def)
  moreover have "view_new 3 1 \<noteq> view_new 3 2" by (simp add: view_new_def)
  ultimately show ?thesis
    using digest_preimages_exact [OF sample_borsh_ok] by blast
qed

lemma digest_block_eq:
  assumes "borsh_ok E" and "digest_block E a r = digest_block E b q"
  shows "(a = b \<and> r = q) \<or>
     sha256_collision E (codec_serialize E (BTuple [BBytes a, BU8 r])) (codec_serialize E (BTuple [BBytes b, BU8 q]))"
proof (cases "codec_serialize E (BTuple [BBytes a, BU8 r]) = codec_serialize E (BTuple [BBytes b, BU8 q])")
  case True
  then have "borsh_to_vec E (BBytes a) = borsh_to_vec E (BBytes b)" and "r = q"
    using assms(1) by (simp_all add: codec_serialize_def borsh_ok_def)
  then show ?thesis using assms(1) by (auto simp: borsh_ok_def dest: injD)
next
  case False
  then show ?thesis using assms(2) by (simp add: digest_block_def sha256_collision_def)
qed

text \<open>C35: The block digest commits to the raw block and the round: equal digests come from equal
  blocks and rounds, unless they exhibit a SHA-256 collision.\<close>

theorem digest_block_binding:
  assumes "borsh_ok E" and "digest_block E a r = digest_block E b q"
  shows "(a = b \<and> r = q) \<or>
     sha256_collision E (codec_serialize E (BTuple [BBytes a, BU8 r])) (codec_serialize E (BTuple [BBytes b, BU8 q]))"
  by (rule digest_block_eq [OF assms])

theorem digest_block_binding_witness:
  "digest_block sample_externals [1, 2, 3] 0 = digest_block sample_externals [1, 2, 3] 0 \<and>
   \<not> sha256_collision sample_externals (codec_serialize sample_externals (BTuple [BBytes [1, 2, 3], BU8 0]))
       (codec_serialize sample_externals (BTuple [BBytes [1, 2, 3], BU8 0]))"
  using digest_block_binding [OF sample_borsh_ok, of "[1, 2, 3]" 0 "[1, 2, 3]" 0]
  by (auto simp: sha256_collision_def)

end
