(* ===== verification/Backend.thy ===== *)
theory Backend
  imports Poa_Types
begin

text \<open>
  The traits the consensus is generic over (\<open>backend.rs\<close>): the validator manager and the block
  service are records of functions, arguments of everything that calls them. What
  \<open>build_block\<close> returns is an input of the step that calls it, so that two calls may differ.
  \<open>Mock\<close> is the one validator manager of the repository (\<open>sim_tests/mock.rs\<close>). The locale
  \<open>quorum_system\<close> is what the protocol needs of a validator set: two quorums share a validator
  that is not faulty.
\<close>

record validator_manager =
  is_validator :: "address \<Rightarrow> u64 \<Rightarrow> bool"
  is_proposer :: "address \<Rightarrow> view \<Rightarrow> bool"
  quorum :: "u64 \<Rightarrow> nat"

record block_service =
  verify_block :: "bytes \<Rightarrow> string + unit"

definition MAX_ROUND :: u8 where
  "MAX_ROUND = 21"

definition ROUND_ARRAY_SIZE :: nat where
  "ROUND_ARRAY_SIZE = unat (MAX_ROUND + 1)"

subsection \<open>The mock validator manager\<close>

record mock =
  mock_validators :: "address list"

text \<open>\<open>Mock::new\<close> asserts that there is a validator and sorts them by address.\<close>

definition mock_new :: "address list \<Rightarrow> mock option" where
  "mock_new vs = (if vs = [] then None else Some \<lparr>mock_validators = sort vs\<rparr>)"

text \<open>The \<open>usize\<close> sum wraps at 64 bits, as in a release build.\<close>

definition mock_is_proposer :: "mock \<Rightarrow> address \<Rightarrow> view \<Rightarrow> bool" where
  "mock_is_proposer m a v \<longleftrightarrow>
     (let idx = unat (view_height v + ucast (view_round v)) mod length (mock_validators m)
      in mock_validators m ! idx = a)"

definition mock_is_validator :: "mock \<Rightarrow> address \<Rightarrow> u64 \<Rightarrow> bool" where
  "mock_is_validator m a h \<longleftrightarrow> find (\<lambda>x. x = a) (mock_validators m) \<noteq> None"

definition mock_quorum :: "mock \<Rightarrow> u64 \<Rightarrow> nat" where
  "mock_quorum m h = length (mock_validators m) * 2 div 3 + 1"

definition mock_manager :: "mock \<Rightarrow> validator_manager" where
  "mock_manager m = \<lparr>is_validator = mock_is_validator m, is_proposer = mock_is_proposer m,
                     quorum = mock_quorum m\<rparr>"

text \<open>
  \<open>buggify_with_prob\<close> is the simulator's coin; the outcomes of the two coins are arguments.
\<close>

definition mock_build_block :: "bool \<Rightarrow> bool \<Rightarrow> u64 \<Rightarrow> string + bytes" where
  "mock_build_block coin1 coin2 h =
     (if coin1 then (if coin2 then Inl ''Could not build a block'' else Inr [1, 2]) else Inr [1, 2, 3])"

definition mock_verify_block :: "bytes \<Rightarrow> string + unit" where
  "mock_verify_block raw = (if raw = [1, 2, 3] then Inr () else Inl ''Invalid block'')"

definition mock_block_service :: block_service where
  "mock_block_service = \<lparr>verify_block = mock_verify_block\<rparr>"

text \<open>
  The addresses a message of \<open>sender\<close> is sent to, in the order of the validators; \<open>skips\<close> are
  the validators the coin leaves out.
\<close>

definition mock_broadcast_message :: "mock \<Rightarrow> address set \<Rightarrow> address \<Rightarrow> address list" where
  "mock_broadcast_message m skips sender =
     filter (\<lambda>a. a \<noteq> sender \<and> a \<notin> skips) (mock_validators m)"

lemma round_array_size [simp]: "ROUND_ARRAY_SIZE = 22"
  by (simp add: ROUND_ARRAY_SIZE_def MAX_ROUND_def)

lemma mock_is_validator_iff: "mock_is_validator m a h \<longleftrightarrow> a \<in> set (mock_validators m)"
  by (auto simp: mock_is_validator_def find_None_iff)

subsection \<open>Quorum intersection\<close>

locale quorum_system =
  fixes members :: "'m set" and faulty :: "'m set" and threshold :: nat
  assumes finite_members: "finite members"
    and intersect: "card members + card (members \<inter> faulty) < 2 * threshold"
begin

text \<open>Two sets of \<open>threshold\<close> members each share a member that is not faulty.\<close>

lemma common_honest:
  assumes "Q \<subseteq> members" and "R \<subseteq> members" and "threshold \<le> card Q" and "threshold \<le> card R"
  shows "\<exists>a \<in> Q \<inter> R. a \<notin> faulty"
proof (rule ccontr)
  assume "\<not> ?thesis"
  then have "Q \<inter> R \<subseteq> members \<inter> faulty" using assms(1) by auto
  then have small: "card (Q \<inter> R) \<le> card (members \<inter> faulty)"
    by (rule card_mono [OF finite_Int [OF disjI1 [OF finite_members]]])
  have fin: "finite Q" "finite R" using assms finite_members finite_subset by blast+
  have "card Q + card R = card (Q \<union> R) + card (Q \<inter> R)"
    by (rule card_Un_Int [OF fin])
  moreover have "card (Q \<union> R) \<le> card members"
    using assms(1,2) finite_members by (simp add: card_mono)
  ultimately show False using assms(3,4) small intersect by linarith
qed

text \<open>Hence votes of two quorums agree when every member that is not faulty votes once.\<close>

lemma votes_agree:
  assumes "Q \<subseteq> members" and "R \<subseteq> members" and "threshold \<le> card Q" and "threshold \<le> card R"
    and "\<And>a. a \<in> Q \<Longrightarrow> votes a x" and "\<And>a. a \<in> R \<Longrightarrow> votes a y"
    and "\<And>a. a \<notin> faulty \<Longrightarrow> votes a x \<Longrightarrow> votes a y \<Longrightarrow> x = y"
  shows "x = y"
  using common_honest [OF assms(1-4)] assms(5-7) by blast

end

lemma mock_quorum_intersects:
  assumes "3 * f < n"
  shows "n + f < 2 * (n * 2 div 3 + (1::nat))"
proof -
  define k where "k = n * 2 div 3"
  have "n * 2 < 3 * k + 3" unfolding k_def by linarith
  then have "n + f < 2 * (k + 1)" using assms by presburger
  then show ?thesis by (simp add: k_def)
qed

text \<open>
  The mock's threshold is a quorum system as soon as fewer than a third of its validators are
  faulty. The interpretation is on the mock over a list of distinct addresses with no faulty one;
  \<open>mock_quorum_system\<close> is the general fact.
\<close>

lemma mock_quorum_system:
  assumes "distinct (mock_validators m)"
    and "3 * card (set (mock_validators m) \<inter> faulty) < length (mock_validators m)"
  shows "quorum_system (set (mock_validators m)) faulty (mock_quorum m h)"
proof
  show "finite (set (mock_validators m))" by simp
  have "card (set (mock_validators m)) = length (mock_validators m)"
    using assms(1) by (rule distinct_card)
  then show "card (set (mock_validators m)) + card (set (mock_validators m) \<inter> faulty) <
        2 * mock_quorum m h"
    using mock_quorum_intersects [OF assms(2)] by (simp add: mock_quorum_def)
qed

text \<open>Without faulty validators the mock is always a quorum system, whatever its list.\<close>

interpretation mock_quorums: quorum_system "set (mock_validators m)" "{}" "mock_quorum m h" for m h
proof
  show "card (set (mock_validators m)) + card (set (mock_validators m) \<inter> {}) < 2 * mock_quorum m h"
    using card_length [of "mock_validators m"] by (simp add: mock_quorum_def)
qed simp

subsection \<open>A concrete validator set\<close>

text \<open>Four validators over the sample externals; only witnesses use them.\<close>

definition sample_mock :: mock where
  "sample_mock = \<lparr>mock_validators = map (\<lambda>n. signer_address (sample_signer n)) [1, 2, 3, 4]\<rparr>"

abbreviation sample_manager :: validator_manager where
  "sample_manager \<equiv> mock_manager sample_mock"

lemma sample_address: "signer_address (sample_signer n) = Address (replicate 24 n)"
  by (simp add: sample_signer_def signer_from_secret_key_def address_from_public_key_def sha256_def
      sample_externals_def sample_hash_def)

lemma sample_manager_simps [simp]:
  "is_validator sample_manager a h \<longleftrightarrow> a \<in> (\<lambda>n. Address (replicate 24 n)) ` {1, 2, 3, 4}"
  "is_proposer sample_manager a v \<longleftrightarrow>
     map (\<lambda>n. Address (replicate 24 n)) [1, 2, 3, 4] ! (unat (view_height v + ucast (view_round v)) mod 4) = a"
  "quorum sample_manager h = 3"
  by (auto simp: mock_manager_def mock_is_validator_iff mock_is_proposer_def mock_quorum_def sample_mock_def
      sample_address)

text \<open>Messages signed by the sample validators.\<close>

definition sample_proposal :: "u8 \<Rightarrow> proposal_message \<Rightarrow> proposal_signed" where
  "sample_proposal n m = the (proposal_into_signed sample_externals m (sample_signer n))"

definition sample_prepare :: "u8 \<Rightarrow> view \<Rightarrow> bytes \<Rightarrow> prepare_signed" where
  "sample_prepare n v d = the (prepare_into_signed sample_externals (prepare_new v d) (sample_signer n))"

definition sample_round_change :: "u8 \<Rightarrow> view \<Rightarrow> prepared_proposed option \<Rightarrow> round_change_signed" where
  "sample_round_change n v pp = the (rc_into_signed sample_externals (rc_new v pp) (sample_signer n))"

lemma sample_proposal_simps [simp]:
  "proposal_message (sample_proposal n m) = m"
  "proposal_recover_signer sample_externals (sample_proposal n m) = Inr (Address (replicate 24 n))"
  using proposal_into_signed_recovers [OF sample_externals_ok sample_signer_wf, of m n]
  by (metis option.sel sample_proposal_def, metis option.sel sample_proposal_def sample_address)

lemma sample_prepare_simps [simp]:
  "prepare_message (sample_prepare n v d) = prepare_new v d"
  "prepare_recover_signer sample_externals (sample_prepare n v d) = Inr (Address (replicate 24 n))"
  using prepare_into_signed_recovers [OF sample_externals_ok sample_signer_wf, of "prepare_new v d" n]
  by (metis option.sel sample_prepare_def, metis option.sel sample_prepare_def sample_address)

lemma sample_round_change_simps [simp]:
  "rc_message (sample_round_change n v pp) = rc_new v pp"
  "rc_recover_signer sample_externals (sample_round_change n v pp) = Inr (Address (replicate 24 n))"
  using rc_into_signed_recovers [OF sample_externals_ok sample_signer_wf, of "rc_new v pp" n]
  by (metis option.sel sample_round_change_def, metis option.sel sample_round_change_def sample_address)

end
