(* ===== verification/Collections.thy ===== *)
theory Collections
  imports Prelude
begin

text \<open>
  The two map types of the Rust standard library that the sources use. A \<open>HashMap\<close> is an
  association list with distinct keys, whose list order stands for the (unspecified) iteration
  order; a \<open>BTreeMap\<close> is an association list with strictly ascending keys, so that iteration
  is in key order. The interface both provide is the locale \<open>rust_map\<close>; a map of maps, reached
  through \<open>entry(k).or_default()\<close>, is again such a map on pairs of keys (\<open>nested_map\<close>).
\<close>

type_synonym ('k, 'v) hash_map = "('k \<times> 'v) list"
type_synonym ('k, 'v) btree_map = "('k \<times> 'v) list"

fun hm_insert :: "'k \<Rightarrow> 'v \<Rightarrow> ('k, 'v) hash_map \<Rightarrow> ('k, 'v) hash_map" where
  "hm_insert k v [] = [(k, v)]"
| "hm_insert k v ((k', v') # m) = (if k = k' then (k, v) # m else (k', v') # hm_insert k v m)"

definition hm_remove :: "'k \<Rightarrow> ('k, 'v) hash_map \<Rightarrow> ('k, 'v) hash_map" where
  "hm_remove k m = filter (\<lambda>p. fst p \<noteq> k) m"

definition hm_retain :: "('k \<Rightarrow> 'v \<Rightarrow> bool) \<Rightarrow> ('k, 'v) hash_map \<Rightarrow> ('k, 'v) hash_map" where
  "hm_retain P m = filter (\<lambda>(k, v). P k v) m"

definition hm_wf :: "('k, 'v) hash_map \<Rightarrow> bool" where
  "hm_wf m \<longleftrightarrow> distinct (map fst m)"

fun bt_insert :: "'k::linorder \<Rightarrow> 'v \<Rightarrow> ('k, 'v) btree_map \<Rightarrow> ('k, 'v) btree_map" where
  "bt_insert k v [] = [(k, v)]"
| "bt_insert k v ((k', v') # m) =
     (if k < k' then (k, v) # (k', v') # m
      else if k = k' then (k, v) # m
      else (k', v') # bt_insert k v m)"

definition bt_remove :: "'k \<Rightarrow> ('k, 'v) btree_map \<Rightarrow> ('k, 'v) btree_map" where
  "bt_remove k m = filter (\<lambda>p. fst p \<noteq> k) m"

text \<open>\<open>split_off(&k)\<close> keeps the keys below \<open>k\<close> in place and returns those from \<open>k\<close> on.\<close>

definition bt_split_off :: "'k::linorder \<Rightarrow> ('k, 'v) btree_map \<Rightarrow> ('k, 'v) btree_map" where
  "bt_split_off k m = filter (\<lambda>p. k \<le> fst p) m"

definition bt_wf :: "('k::linorder, 'v) btree_map \<Rightarrow> bool" where
  "bt_wf m \<longleftrightarrow> sorted_wrt (<) (map fst m)"

subsection \<open>The interface of a map\<close>

locale rust_map =
  fixes empty :: "'m"
    and lookup :: "'m \<Rightarrow> 'k \<Rightarrow> 'v option"
    and insert :: "'k \<Rightarrow> 'v \<Rightarrow> 'm \<Rightarrow> 'm"
    and remove :: "'k \<Rightarrow> 'm \<Rightarrow> 'm"
    and entries :: "'m \<Rightarrow> ('k \<times> 'v) list"
    and invar :: "'m \<Rightarrow> bool"
  assumes lookup_empty: "lookup empty k = None"
    and lookup_insert: "invar m \<Longrightarrow> lookup (insert k v m) k' = (if k' = k then Some v else lookup m k')"
    and lookup_remove: "invar m \<Longrightarrow> lookup (remove k m) k' = (if k' = k then None else lookup m k')"
    and entries_lookup: "invar m \<Longrightarrow> lookup m k = map_of (entries m) k"
    and entries_distinct: "invar m \<Longrightarrow> distinct (map fst (entries m))"
    and invar_empty: "invar empty"
    and invar_insert: "invar m \<Longrightarrow> invar (insert k v m)"
    and invar_remove: "invar m \<Longrightarrow> invar (remove k m)"
begin

lemma entries_iff: "invar m \<Longrightarrow> (k, v) \<in> set (entries m) \<longleftrightarrow> lookup m k = Some v"
  using entries_distinct [of m] by (simp add: entries_lookup)

lemma dom_lookup: "invar m \<Longrightarrow> dom (lookup m) = fst ` set (entries m)"
  using entries_lookup [of m] by (metis dom_map_of_conv_image_fst ext)

lemma length_entries: "invar m \<Longrightarrow> length (entries m) = card (dom (lookup m))"
  using entries_distinct [of m] by (metis dom_lookup distinct_card length_map set_map)

text \<open>\<open>entry(k)\<close> followed by an insertion when vacant: the first value stored under a key stays.\<close>

lemma lookup_insert_vacant:
  assumes "invar m" and "lookup m k = None"
  shows "lookup (insert k v m) k' = (case lookup m k' of Some w \<Rightarrow> Some w
           | None \<Rightarrow> if k' = k then Some v else None)"
  using assms by (auto simp: lookup_insert split: option.splits)

lemma invar_or_default: "invar m \<Longrightarrow> invar (case lookup m k of None \<Rightarrow> insert k d m | Some w \<Rightarrow> m)"
  by (simp add: invar_insert split: option.split)

end

subsection \<open>Maps of maps\<close>

locale nested_map =
  outer: rust_map oempty olookup oinsert oremove oentries oinvar +
  inner: rust_map iempty ilookup iinsert iremove ientries iinvar
  for oempty :: "'m" and olookup :: "'m \<Rightarrow> 'k1 \<Rightarrow> 'i option" and oinsert and oremove and oentries
    and oinvar
    and iempty :: "'i" and ilookup :: "'i \<Rightarrow> 'k2 \<Rightarrow> 'v option" and iinsert and iremove and ientries
    and iinvar
begin

text \<open>The inner map that \<open>entry(k).or_default()\<close> gives access to.\<close>

definition the_inner :: "'m \<Rightarrow> 'k1 \<Rightarrow> 'i" where
  "the_inner m k = (case olookup m k of None \<Rightarrow> iempty | Some i \<Rightarrow> i)"

definition nlookup :: "'m \<Rightarrow> 'k1 \<times> 'k2 \<Rightarrow> 'v option" where
  "nlookup m k = ilookup (the_inner m (fst k)) (snd k)"

definition ninsert :: "'k1 \<times> 'k2 \<Rightarrow> 'v \<Rightarrow> 'm \<Rightarrow> 'm" where
  "ninsert k v m = oinsert (fst k) (iinsert (snd k) v (the_inner m (fst k))) m"

definition nremove :: "'k1 \<times> 'k2 \<Rightarrow> 'm \<Rightarrow> 'm" where
  "nremove k m = oinsert (fst k) (iremove (snd k) (the_inner m (fst k))) m"

definition nentries :: "'m \<Rightarrow> (('k1 \<times> 'k2) \<times> 'v) list" where
  "nentries m = concat (map (\<lambda>e. map (\<lambda>p. ((fst e, fst p), snd p)) (ientries (snd e))) (oentries m))"

definition ninvar :: "'m \<Rightarrow> bool" where
  "ninvar m \<longleftrightarrow> oinvar m \<and> (\<forall>k i. olookup m k = Some i \<longrightarrow> iinvar i)"

lemma ninvar_inner: "ninvar m \<Longrightarrow> iinvar (the_inner m k)"
  by (auto simp: ninvar_def the_inner_def inner.invar_empty split: option.split)

lemma the_inner_oinsert:
  "oinvar m \<Longrightarrow> the_inner (oinsert k i m) k' = (if k' = k then i else the_inner m k')"
  by (simp add: the_inner_def outer.lookup_insert)

lemma ninvar_oinsert: "ninvar m \<Longrightarrow> iinvar i \<Longrightarrow> ninvar (oinsert k i m)"
  by (auto simp: ninvar_def outer.lookup_insert outer.invar_insert)

lemma nlookup_oinsert:
  "ninvar m \<Longrightarrow> nlookup (oinsert k i m) k' = (if fst k' = k then ilookup i (snd k') else nlookup m k')"
  by (simp add: nlookup_def the_inner_oinsert ninvar_def)

lemma nentries_set:
  assumes "ninvar m"
  shows "((k1, k2), v) \<in> set (nentries m) \<longleftrightarrow> nlookup m (k1, k2) = Some v"
proof -
  have oi: "oinvar m" using assms by (simp add: ninvar_def)
  have ii: "\<And>k i. olookup m k = Some i \<Longrightarrow> iinvar i" using assms by (simp add: ninvar_def)
  have "((k1, k2), v) \<in> set (nentries m) \<longleftrightarrow>
        (\<exists>i. (k1, i) \<in> set (oentries m) \<and> (k2, v) \<in> set (ientries i))"
    by (force simp: nentries_def)
  also have "\<dots> \<longleftrightarrow> (\<exists>i. olookup m k1 = Some i \<and> (k2, v) \<in> set (ientries i))"
    by (simp add: outer.entries_iff [OF oi])
  also have "\<dots> \<longleftrightarrow> (\<exists>i. olookup m k1 = Some i \<and> ilookup i k2 = Some v)"
    using ii by (auto simp: inner.entries_iff)
  also have "\<dots> \<longleftrightarrow> nlookup m (k1, k2) = Some v"
    by (auto simp: nlookup_def the_inner_def inner.lookup_empty split: option.split)
  finally show ?thesis .
qed

lemma nentries_distinct:
  assumes "ninvar m"
  shows "distinct (map fst (nentries m))"
proof -
  let ?row = "\<lambda>e. map (\<lambda>p. ((fst e, fst p), snd p)) (ientries (snd e))"
  have "distinct (map fst (concat (map ?row es)))"
    if "distinct (map fst es)" and "\<forall>e \<in> set es. distinct (map fst (ientries (snd e)))" for es
    using that
  proof (induction es)
    case (Cons e es)
    have "map fst (?row e) = map (Pair (fst e)) (map fst (ientries (snd e)))"
      by simp
    then have head: "distinct (map fst (?row e))"
      using Cons.prems by (simp only: distinct_map) (auto simp: inj_on_def)
    have notin: "fst e \<notin> fst ` set es" using Cons.prems by simp
    have left: "fst x = fst e" if "x \<in> fst ` set (?row e)" for x
      using that by auto
    have right: "fst x \<in> fst ` set es" if "x \<in> fst ` set (concat (map ?row es))" for x
      using that by force
    have disj: "fst ` set (?row e) \<inter> fst ` set (concat (map ?row es)) = {}"
    proof (rule ccontr)
      assume "\<not> ?thesis"
      then obtain x where "x \<in> fst ` set (?row e)" and "x \<in> fst ` set (concat (map ?row es))"
        by blast
      then show False using notin left [of x] right [of x] by simp
    qed
    have "distinct (map fst (concat (map ?row es)))"
      using Cons by simp
    with head disj show ?case
      by (simp only: map_append concat.simps list.map distinct_append set_map simp_thms)
  qed simp
  moreover have "\<forall>e \<in> set (oentries m). distinct (map fst (ientries (snd e)))"
    using assms by (auto simp: ninvar_def outer.entries_iff inner.entries_distinct)
  ultimately show ?thesis
    using assms outer.entries_distinct [of m] by (simp add: nentries_def ninvar_def)
qed

sublocale pair: rust_map oempty nlookup ninsert nremove nentries ninvar
proof (unfold_locales, goal_cases)
  case (1 k)
  show ?case by (simp add: nlookup_def the_inner_def outer.lookup_empty inner.lookup_empty)
next
  case (2 m k v k')
  then show ?case
    by (cases k; cases k')
      (auto simp: ninsert_def nlookup_def the_inner_oinsert ninvar_def inner.lookup_insert ninvar_inner)
next
  case (3 m k k')
  then show ?case
    by (cases k; cases k')
      (auto simp: nremove_def nlookup_def the_inner_oinsert ninvar_def inner.lookup_remove ninvar_inner)
next
  case (4 m k)
  obtain k1 k2 where k: "k = (k1, k2)" by (cases k)
  show ?case
  proof (cases "nlookup m k")
    case None
    have "k \<notin> fst ` set (nentries m)"
    proof
      assume "k \<in> fst ` set (nentries m)"
      then obtain v where "((k1, k2), v) \<in> set (nentries m)" using k by auto
      then show False using nentries_set [OF 4] None k by simp
    qed
    then have "map_of (nentries m) k = None" by (simp add: map_of_eq_None_iff)
    then show ?thesis using None by simp
  next
    case (Some v)
    then have "(k, v) \<in> set (nentries m)" using nentries_set [OF 4] k by simp
    then show ?thesis using Some nentries_distinct [OF 4] by simp
  qed
next
  case (5 m)
  then show ?case by (rule nentries_distinct)
next
  case 6
  show ?case by (simp add: ninvar_def outer.invar_empty outer.lookup_empty)
next
  case (7 m k v)
  then show ?case by (simp add: ninsert_def ninvar_oinsert ninvar_inner inner.invar_insert)
next
  case (8 m k)
  then show ?case by (simp add: nremove_def ninvar_oinsert ninvar_inner inner.invar_remove)
qed

end

subsection \<open>The standard library's maps provide the interface\<close>

lemma map_of_hm_insert [map_laws]: "map_of (hm_insert k v m) = (map_of m)(k \<mapsto> v)"
  by (induction m) auto

lemma keys_hm_insert: "fst ` set (hm_insert k v m) = insert k (fst ` set m)"
  by (induction k v m rule: hm_insert.induct) (simp_all add: insert_commute)

lemma hm_wf_insert [wf_intros]: "hm_wf m \<Longrightarrow> hm_wf (hm_insert k v m)"
  unfolding hm_wf_def by (induction m) (auto simp: keys_hm_insert)

lemma hm_insert_fresh: "map_of m k = None \<Longrightarrow> hm_insert k v m = m @ [(k, v)]"
  by (induction m) (auto split: if_splits)

lemma map_of_hm_retain [map_laws]:
  "hm_wf m \<Longrightarrow> map_of (hm_retain P m) k =
     (case map_of m k of None \<Rightarrow> None | Some v \<Rightarrow> if P k v then Some v else None)"
  by (simp add: hm_wf_def hm_retain_def map_of_filter_distinct)

lemma hm_wf_retain [wf_intros]: "hm_wf m \<Longrightarrow> hm_wf (hm_retain P m)"
  by (simp add: hm_wf_def hm_retain_def distinct_map_fst_filter)

lemma hm_wf_Nil [simp, wf_intros]: "hm_wf []"
  by (simp add: hm_wf_def)

interpretation hm: rust_map "[]" map_of hm_insert hm_remove "\<lambda>m. m" hm_wf
  by unfold_locales
    (auto simp: map_laws hm_remove_def map_of_filter_key [of "\<lambda>x. x \<noteq> _"] hm_wf_def
       distinct_map_fst_filter hm_wf_insert [unfolded hm_wf_def])

lemma map_of_bt_insert [map_laws]: "bt_wf m \<Longrightarrow> map_of (bt_insert k v m) = (map_of m)(k \<mapsto> v)"
proof (induction m)
  case (Cons p m)
  obtain k' v' where p: "p = (k', v')" by (cases p)
  have "bt_wf m" using Cons.prems by (simp add: bt_wf_def)
  then show ?case using Cons p by (auto simp: fun_eq_iff)
qed simp

lemma keys_bt_insert: "fst ` set (bt_insert k v m) = insert k (fst ` set m)"
  by (induction k v m rule: bt_insert.induct) (simp_all add: insert_commute)

lemma bt_wf_insert [wf_intros]: "bt_wf m \<Longrightarrow> bt_wf (bt_insert k v m)"
proof (induction m)
  case (Cons p m)
  obtain k' v' where p: "p = (k', v')" by (cases p)
  have wf: "bt_wf m" and below: "\<forall>x \<in> fst ` set m. k' < x"
    using Cons.prems p by (auto simp: bt_wf_def)
  show ?case
  proof (cases "k < k'")
    case True
    then show ?thesis using Cons.prems p below by (auto simp: bt_wf_def dest: order.strict_trans)
  next
    case False
    show ?thesis
    proof (cases "k = k'")
      case True
      then show ?thesis using Cons.prems p by (simp add: bt_wf_def)
    next
      case neq: False
      have "\<forall>x \<in> fst ` set (bt_insert k v m). k' < x"
        using below False neq by (simp add: keys_bt_insert)
      then show ?thesis using Cons.IH [OF wf] False neq p by (simp add: bt_wf_def)
    qed
  qed
qed (simp add: bt_wf_def)

lemma bt_wf_filter [wf_intros]: "bt_wf m \<Longrightarrow> bt_wf (filter P m)"
  unfolding bt_wf_def by (induction m) auto

lemma bt_wf_distinct: "bt_wf m \<Longrightarrow> distinct (map fst m)"
  unfolding bt_wf_def using strict_sorted_iff by blast

lemma bt_wf_Nil [simp, wf_intros]: "bt_wf []"
  by (simp add: bt_wf_def)

lemma map_of_bt_split_off [map_laws]:
  "map_of (bt_split_off k m) k' = (if k \<le> k' then map_of m k' else None)"
  by (simp add: bt_split_off_def map_of_filter_key [of "\<lambda>x. k \<le> x"])

lemma bt_wf_split_off [wf_intros]: "bt_wf m \<Longrightarrow> bt_wf (bt_split_off k m)"
  by (simp add: bt_split_off_def bt_wf_filter)

interpretation bt: rust_map "[]" map_of bt_insert bt_remove "\<lambda>m. m" bt_wf
  by unfold_locales
    (auto simp: map_laws bt_remove_def map_of_filter_key [of "\<lambda>x. x \<noteq> _"] bt_wf_insert
       bt_wf_filter bt_wf_distinct)

end
