(* ===== verification/Consensus_Messages.thy ===== *)
theory Consensus_Messages
  imports Backend Collections
begin

text \<open>
  The message store of the consensus (\<open>ConsensusMessages\<close> in \<open>messages.rs\<close>) and the maps it is
  built from: \<open>HeightMap\<close>, \<open>ViewMap\<close>, \<open>ViewSenderMap\<close>. Each operation locks one mutex, so each is
  one atomic step; it returns its result and the new store. A broadcast channel is the list of
  the views sent on it. The maps are association lists as in \<open>Collections\<close>; that lookups behave
  as a map from views and senders to messages comes from the locale \<open>nested_map\<close>.
\<close>

subsection \<open>HeightMap, ViewMap, ViewSenderMap\<close>

type_synonym 't height_map = "(u64, 't) btree_map"
type_synonym 't view_map = "(u8, 't) btree_map height_map"
type_synonym 't view_sender_map = "(address, 't) hash_map view_map"

definition height_map_prune :: "u64 \<Rightarrow> 't height_map \<Rightarrow> 't height_map" where
  "height_map_prune h m = bt_split_off h m"

text \<open>\<open>height_entry(h).or_default()\<close>: the map with an entry for \<open>h\<close>, and that entry.\<close>

definition height_or_default :: "u64 \<Rightarrow> 'a list height_map \<Rightarrow> 'a list height_map \<times> 'a list" where
  "height_or_default h m = (case map_of m h of None \<Rightarrow> (bt_insert h [] m, []) | Some i \<Rightarrow> (m, i))"

text \<open>\<open>view_entry(view)\<close>: the map after \<open>or_default\<close> at the height, and what the entry holds.\<close>

definition view_entry :: "view \<Rightarrow> 't view_map \<Rightarrow> 't view_map \<times> 't option" where
  "view_entry v m =
     (let (m', i) = height_or_default (view_height v) m in (m', map_of i (view_round v)))"

definition view_insert :: "view \<Rightarrow> 't \<Rightarrow> 't view_map \<Rightarrow> 't view_map" where
  "view_insert v x m =
     (let (m', i) = height_or_default (view_height v) m
      in bt_insert (view_height v) (bt_insert (view_round v) x i) m')"

definition view_remove :: "view \<Rightarrow> 't view_map \<Rightarrow> 't view_map" where
  "view_remove v m =
     (let (m', i) = height_or_default (view_height v) m
      in bt_insert (view_height v) (bt_remove (view_round v) i) m')"

text \<open>\<open>view_entry(view).or_default()\<close> on a map of sender maps.\<close>

definition view_or_default :: "view \<Rightarrow> 'a list view_map \<Rightarrow> 'a list view_map \<times> 'a list" where
  "view_or_default v m =
     (case view_entry v m of (m', None) \<Rightarrow> (view_insert v [] m', []) | (m', Some x) \<Rightarrow> (m', x))"

definition sender_entry :: "view \<Rightarrow> address \<Rightarrow> 't view_sender_map \<Rightarrow> 't view_sender_map \<times> 't option" where
  "sender_entry v a m = (let (m', senders) = view_or_default v m in (m', map_of senders a))"

definition sender_insert :: "view \<Rightarrow> address \<Rightarrow> 't \<Rightarrow> 't view_sender_map \<Rightarrow> 't view_sender_map" where
  "sender_insert v a x m =
     (let (m', senders) = view_or_default v m in view_insert v (hm_insert a x senders) m')"

subsection \<open>The store\<close>

type_synonym verification = "(ibft_error + unit) option"

record consensus_messages =
  self_address :: address
  proposal_0_messages :: "proposal_signed height_map"
  proposal_1_messages :: "(proposal_signed \<times> verification) view_map"
  prepare_messages :: "prepare_signed view_sender_map"
  commit_messages :: "commit_signed view_sender_map"
  round_change_messages :: "(round_change_signed \<times> bool) view_sender_map"
  proposal_tx :: "view list"
  prepare_tx :: "view list"
  commit_tx :: "view list"
  round_change_tx :: "view list"

definition messages_new :: "address \<Rightarrow> consensus_messages" where
  "messages_new a =
     \<lparr>self_address = a, proposal_0_messages = [], proposal_1_messages = [], prepare_messages = [],
      commit_messages = [], round_change_messages = [], proposal_tx = [], prepare_tx = [],
      commit_tx = [], round_change_tx = []\<rparr>"

definition messages_prune :: "u64 \<Rightarrow> consensus_messages \<Rightarrow> consensus_messages" where
  "messages_prune h s =
     s\<lparr>proposal_0_messages := height_map_prune h (proposal_0_messages s),
       proposal_1_messages := height_map_prune h (proposal_1_messages s),
       prepare_messages := height_map_prune h (prepare_messages s),
       commit_messages := height_map_prune h (commit_messages s),
       round_change_messages := height_map_prune h (round_change_messages s)\<rparr>"

subsection \<open>Adding messages\<close>

definition add_proposal_message :: "proposal_signed \<Rightarrow> address \<Rightarrow> consensus_messages \<Rightarrow> consensus_messages" where
  "add_proposal_message p sender s =
     (let v = ps_view p in
      if view_round v = 0 then
        (case map_of (proposal_0_messages s) (view_height v) of
           None \<Rightarrow> s\<lparr>proposal_0_messages := bt_insert (view_height v) p (proposal_0_messages s),
                      proposal_tx := proposal_tx s @ [v]\<rparr>
         | Some q \<Rightarrow> s)
      else
        (case view_entry v (proposal_1_messages s) of
           (m, None) \<Rightarrow> s\<lparr>proposal_1_messages := view_insert v
                               (p, if self_address s = sender then Some (Inr ()) else None) m,
                          proposal_tx := proposal_tx s @ [v]\<rparr>
         | (m, Some q) \<Rightarrow> s\<lparr>proposal_1_messages := m\<rparr>))"

definition add_prepare_message :: "prepare_signed \<Rightarrow> address \<Rightarrow> consensus_messages \<Rightarrow> consensus_messages" where
  "add_prepare_message p sender s =
     (let v = pr_view p in
      case sender_entry v sender (prepare_messages s) of
        (m, None) \<Rightarrow> s\<lparr>prepare_messages := sender_insert v sender p m, prepare_tx := prepare_tx s @ [v]\<rparr>
      | (m, Some q) \<Rightarrow> s\<lparr>prepare_messages := m\<rparr>)"

definition add_commit_message :: "commit_signed \<Rightarrow> address \<Rightarrow> consensus_messages \<Rightarrow> consensus_messages" where
  "add_commit_message c sender s =
     (let v = cm_view c in
      case sender_entry v sender (commit_messages s) of
        (m, None) \<Rightarrow> s\<lparr>commit_messages := sender_insert v sender c m, commit_tx := commit_tx s @ [v]\<rparr>
      | (m, Some q) \<Rightarrow> s\<lparr>commit_messages := m\<rparr>)"

definition add_round_change_message ::
    "round_change_signed \<Rightarrow> address \<Rightarrow> consensus_messages \<Rightarrow> consensus_messages" where
  "add_round_change_message rc sender s =
     (let v = rcs_view rc in
      case sender_entry v sender (round_change_messages s) of
        (m, None) \<Rightarrow> s\<lparr>round_change_messages := sender_insert v sender (rc, sender = self_address s) m,
                       round_change_tx := round_change_tx s @ [v]\<rparr>
      | (m, Some q) \<Rightarrow> s\<lparr>round_change_messages := m\<rparr>)"

subsection \<open>Queries that verify\<close>

definition get_valid_proposal_digest ::
    "view \<Rightarrow> (proposal_signed \<Rightarrow> ibft_error + unit) \<Rightarrow> consensus_messages \<Rightarrow>
     (ibft_error + bytes) option \<times> consensus_messages" where
  "get_valid_proposal_digest v verify_fn s =
     (if view_round v = 0 then
        (case map_of (proposal_0_messages s) (view_height v) of
           None \<Rightarrow> (None, s)
         | Some p \<Rightarrow> (Some (case verify_fn p of Inl e \<Rightarrow> Inl e | Inr _ \<Rightarrow> Inr (ps_digest p)), s))
      else
        (case view_entry v (proposal_1_messages s) of
           (m, None) \<Rightarrow> (None, s\<lparr>proposal_1_messages := m\<rparr>)
         | (m, Some (p, Some (Inr _))) \<Rightarrow> (Some (Inr (ps_digest p)), s\<lparr>proposal_1_messages := m\<rparr>)
         | (m, Some (p, Some (Inl e))) \<Rightarrow> (Some (Inl e), s\<lparr>proposal_1_messages := m\<rparr>)
         | (m, Some (p, None)) \<Rightarrow>
             (case verify_fn p of
                Inr _ \<Rightarrow> (Some (Inr (ps_digest p)), s\<lparr>proposal_1_messages := view_insert v (p, Some (Inr ())) m\<rparr>)
              | Inl e \<Rightarrow> (Some (Inl e), s\<lparr>proposal_1_messages := view_insert v (p, Some (Inl e)) m\<rparr>))))"

definition get_valid_prepare_count ::
    "view \<Rightarrow> (prepare_signed \<Rightarrow> bool) \<Rightarrow> consensus_messages \<Rightarrow> nat \<times> consensus_messages" where
  "get_valid_prepare_count v verify_fn s =
     (let (m, messages) = view_or_default v (prepare_messages s);
          messages = hm_retain (\<lambda>_ p. verify_fn p) messages
      in (length messages, s\<lparr>prepare_messages := view_insert v messages m\<rparr>))"

definition take_valid_commit_seals ::
    "view \<Rightarrow> (commit_signed \<Rightarrow> bool) \<Rightarrow> nat \<Rightarrow> consensus_messages \<Rightarrow>
     (commit_seals option \<times> nat) \<times> consensus_messages" where
  "take_valid_commit_seals v verify_fn q s =
     (let (m, messages) = view_or_default v (commit_messages s);
          messages = hm_retain (\<lambda>_ c. verify_fn c) messages;
          count = length messages
      in if q \<le> count
         then ((Some (map (\<lambda>(_, c). cm_seal c) messages), count), s\<lparr>commit_messages := view_insert v [] m\<rparr>)
         else ((None, count), s\<lparr>commit_messages := view_insert v messages m\<rparr>))"

definition take_proposal_message :: "view \<Rightarrow> consensus_messages \<Rightarrow> proposal_signed option \<times> consensus_messages" where
  "take_proposal_message v s =
     (if view_round v = 0 then
        (case map_of (proposal_0_messages s) (view_height v) of
           None \<Rightarrow> (None, s)
         | Some p \<Rightarrow> (Some p, s\<lparr>proposal_0_messages := bt_remove (view_height v) (proposal_0_messages s)\<rparr>))
      else
        (case view_entry v (proposal_1_messages s) of
           (m, None) \<Rightarrow> (None, s\<lparr>proposal_1_messages := m\<rparr>)
         | (m, Some (p, _)) \<Rightarrow> (Some p, s\<lparr>proposal_1_messages := view_remove v m\<rparr>)))"

definition take_valid_prepare_messages ::
    "view \<Rightarrow> (prepare_signed \<Rightarrow> bool) \<Rightarrow> consensus_messages \<Rightarrow> prepare_signed list \<times> consensus_messages" where
  "take_valid_prepare_messages v verify_fn s =
     (case view_entry v (prepare_messages s) of
        (m, None) \<Rightarrow> ([], s\<lparr>prepare_messages := m\<rparr>)
      | (m, Some messages) \<Rightarrow>
          (map snd (hm_retain (\<lambda>_ p. verify_fn p) messages), s\<lparr>prepare_messages := view_remove v m\<rparr>))"

text \<open>The closure passed to \<open>retain\<close>: verified messages stay, others are verified and marked.\<close>

fun retain_round_changes ::
    "(round_change_signed \<Rightarrow> bool) \<Rightarrow> (address, round_change_signed \<times> bool) hash_map \<Rightarrow>
     (address, round_change_signed \<times> bool) hash_map" where
  "retain_round_changes verify_fn [] = []"
| "retain_round_changes verify_fn ((a, (rc, verified)) # m) =
     (if verified then (a, (rc, verified)) # retain_round_changes verify_fn m
      else if \<not> verify_fn rc then retain_round_changes verify_fn m
      else (a, (rc, True)) # retain_round_changes verify_fn m)"

definition take_valid_round_change_messages ::
    "view \<Rightarrow> (round_change_signed \<Rightarrow> bool) \<Rightarrow> nat \<Rightarrow> consensus_messages \<Rightarrow>
     (round_change_signed list option \<times> nat) \<times> consensus_messages" where
  "take_valid_round_change_messages v verify_fn q s =
     (let (m, messages) = view_or_default v (round_change_messages s);
          messages = retain_round_changes verify_fn messages;
          count = length messages
      in if q \<le> count
         then ((Some (map (\<lambda>(_, rc, _). rc) messages), count), s\<lparr>round_change_messages := view_insert v [] m\<rparr>)
         else ((None, count), s\<lparr>round_change_messages := view_insert v messages m\<rparr>))"

definition get_valid_round_change_count ::
    "view \<Rightarrow> (round_change_signed \<Rightarrow> bool) \<Rightarrow> consensus_messages \<Rightarrow> nat \<times> consensus_messages" where
  "get_valid_round_change_count v verify_fn s =
     (let (m, messages) = view_or_default v (round_change_messages s);
          messages = retain_round_changes verify_fn messages
      in (length messages, s\<lparr>round_change_messages := view_insert v messages m\<rparr>))"

subsection \<open>Queries by round\<close>

text \<open>\<open>arr[i] = x\<close> on a fixed array; out of range is a panic.\<close>

definition array_set :: "nat \<Rightarrow> 'a \<Rightarrow> 'a list \<Rightarrow> 'a list option" where
  "array_set i x xs = (if i < length xs then Some (xs[i := x]) else None)"

fun mark_proposal_rounds ::
    "(u8 \<times> proposal_signed \<times> verification) list \<Rightarrow> bool list \<Rightarrow> bool list option" where
  "mark_proposal_rounds [] arr = Some arr"
| "mark_proposal_rounds ((r, (_, Some (Inl _))) # es) arr = mark_proposal_rounds es arr"
| "mark_proposal_rounds ((r, (_, _)) # es) arr =
     Option.bind (array_set (unat r) True arr) (mark_proposal_rounds es)"

definition has_proposal_by_round :: "u64 \<Rightarrow> consensus_messages \<Rightarrow> bool list option \<times> consensus_messages" where
  "has_proposal_by_round h s =
     (let (m, by_round) = height_or_default h (proposal_1_messages s)
      in (mark_proposal_rounds by_round (replicate ROUND_ARRAY_SIZE False), s\<lparr>proposal_1_messages := m\<rparr>))"

fun count_rounds :: "(u8 \<times> 'a list) list \<Rightarrow> nat list \<Rightarrow> nat list option" where
  "count_rounds [] arr = Some arr"
| "count_rounds ((r, messages) # es) arr = Option.bind (array_set (unat r) (length messages) arr) (count_rounds es)"

definition round_change_count_by_round :: "u64 \<Rightarrow> consensus_messages \<Rightarrow> nat list option \<times> consensus_messages" where
  "round_change_count_by_round h s =
     (let (m, by_round) = height_or_default h (round_change_messages s)
      in (count_rounds by_round (replicate ROUND_ARRAY_SIZE 0), s\<lparr>round_change_messages := m\<rparr>))"

end
