(* ===== verification/Message_Store.thy ===== *)
theory Message_Store
  imports Consensus_Messages
begin

text \<open>
  The laws of the message store. \<open>proposal_at\<close>, \<open>prepares_at\<close>, \<open>commits_at\<close> and \<open>round_changes_at\<close>
  read the store as a map from views (and senders); every operation is characterised by what it
  changes in those readings. The nested maps are instances of the locale \<open>nested_map\<close>, first for
  \<open>ViewMap\<close> and, on top of it, for \<open>ViewSenderMap\<close>. \<open>store_wf\<close> is the invariant: the maps are well
  formed and every message is filed under its own view.
\<close>

definition view_key :: "view \<Rightarrow> u64 \<times> u8" where
  "view_key v = (view_height v, view_round v)"

definition view_get :: "'t view_map \<Rightarrow> view \<Rightarrow> 't option" where
  "view_get m v = (case map_of m (view_height v) of None \<Rightarrow> None | Some i \<Rightarrow> map_of i (view_round v))"

definition senders :: "'t view_sender_map \<Rightarrow> view \<Rightarrow> (address, 't) hash_map" where
  "senders m v = (case view_get m v of None \<Rightarrow> [] | Some s \<Rightarrow> s)"

definition proposal_at :: "consensus_messages \<Rightarrow> view \<Rightarrow> proposal_signed option" where
  "proposal_at s v =
     (if view_round v = 0 then map_of (proposal_0_messages s) (view_height v)
      else map_option fst (view_get (proposal_1_messages s) v))"

definition verification_at :: "consensus_messages \<Rightarrow> view \<Rightarrow> verification" where
  "verification_at s v =
     (if view_round v = 0 then None
      else case view_get (proposal_1_messages s) v of None \<Rightarrow> None | Some (_, r) \<Rightarrow> r)"

definition prepares_at :: "consensus_messages \<Rightarrow> view \<Rightarrow> (address, prepare_signed) hash_map" where
  "prepares_at s v = senders (prepare_messages s) v"

definition commits_at :: "consensus_messages \<Rightarrow> view \<Rightarrow> (address, commit_signed) hash_map" where
  "commits_at s v = senders (commit_messages s) v"

definition round_changes_at ::
    "consensus_messages \<Rightarrow> view \<Rightarrow> (address, round_change_signed \<times> bool) hash_map" where
  "round_changes_at s v = senders (round_change_messages s) v"

lemmas store_readings = proposal_at_def verification_at_def prepares_at_def commits_at_def round_changes_at_def

definition view_map_wf :: "'t view_map \<Rightarrow> bool" where
  "view_map_wf m \<longleftrightarrow> bt_wf m \<and> (\<forall>h i. map_of m h = Some i \<longrightarrow> bt_wf i)"

definition sender_map_wf :: "'t view_sender_map \<Rightarrow> bool" where
  "sender_map_wf m \<longleftrightarrow> view_map_wf m \<and> (\<forall>v s. view_get m v = Some s \<longrightarrow> hm_wf s)"

definition store_wf :: "consensus_messages \<Rightarrow> bool" where
  "store_wf s \<longleftrightarrow>
     bt_wf (proposal_0_messages s) \<and> view_map_wf (proposal_1_messages s) \<and>
     sender_map_wf (prepare_messages s) \<and> sender_map_wf (commit_messages s) \<and>
     sender_map_wf (round_change_messages s) \<and>
     (\<forall>v p. proposal_at s v = Some p \<longrightarrow> ps_view p = v) \<and>
     (\<forall>v a p. (a, p) \<in> set (prepares_at s v) \<longrightarrow> pr_view p = v) \<and>
     (\<forall>v a c. (a, c) \<in> set (commits_at s v) \<longrightarrow> cm_view c = v) \<and>
     (\<forall>v a rc b. (a, (rc, b)) \<in> set (round_changes_at s v) \<longrightarrow> rcs_view rc = v)"

subsection \<open>The maps as instances of the map interface\<close>

lemma view_key_eq [simp]: "view_key v = view_key w \<longleftrightarrow> v = w"
  by (auto simp: view_key_def intro: view.equality)

lemma view_key_surj: "\<exists>v. view_key v = k"
  by (rule exI [of _ "view_new (fst k) (snd k)"]) (simp add: view_key_def view_new_def)

interpretation vm: nested_map "[]" map_of bt_insert bt_remove "\<lambda>m. m" bt_wf
    "[]" map_of bt_insert bt_remove "\<lambda>m. m" bt_wf
  by unfold_locales

lemma view_get_nlookup: "view_get m v = vm.nlookup m (view_key v)"
  by (simp add: view_get_def vm.nlookup_def vm.the_inner_def view_key_def split: option.split)

lemma view_map_wf_ninvar: "view_map_wf m \<longleftrightarrow> vm.ninvar m"
  by (simp add: view_map_wf_def vm.ninvar_def)

lemma bt_insert_twice: "bt_insert k v (bt_insert k w m) = bt_insert k v m"
  by (induction m) auto

lemma view_insert_ninsert: "view_insert v x m = vm.ninsert (view_key v) x m"
  by (simp add: view_insert_def height_or_default_def vm.ninsert_def vm.the_inner_def view_key_def
      bt_insert_twice split: option.split)

lemma view_remove_nremove: "view_remove v m = vm.nremove (view_key v) m"
  by (simp add: view_remove_def height_or_default_def vm.nremove_def vm.the_inner_def view_key_def
      bt_insert_twice split: option.split)

lemma view_get_empty [simp]: "view_get [] v = None"
  by (simp add: view_get_def)

lemma view_get_insert [map_laws]:
  "view_map_wf m \<Longrightarrow> view_get (view_insert v x m) w = (if w = v then Some x else view_get m w)"
  by (simp add: view_get_nlookup view_insert_ninsert view_map_wf_ninvar vm.pair.lookup_insert)

lemma view_get_remove [map_laws]:
  "view_map_wf m \<Longrightarrow> view_get (view_remove v m) w = (if w = v then None else view_get m w)"
  by (simp add: view_get_nlookup view_remove_nremove view_map_wf_ninvar vm.pair.lookup_remove)

lemma view_map_wf_insert [wf_intros]: "view_map_wf m \<Longrightarrow> view_map_wf (view_insert v x m)"
  by (simp add: view_map_wf_ninvar view_insert_ninsert vm.pair.invar_insert)

lemma view_map_wf_remove [wf_intros]: "view_map_wf m \<Longrightarrow> view_map_wf (view_remove v m)"
  by (simp add: view_map_wf_ninvar view_remove_nremove vm.pair.invar_remove)

lemma height_or_default_laws:
  assumes "view_map_wf m"
  shows "view_map_wf (fst (height_or_default h m))"
    and "view_get (fst (height_or_default h m)) v = view_get m v"
  using assms
  by (auto simp: height_or_default_def view_map_wf_def view_get_def map_laws bt_wf_insert split: option.splits if_splits)

lemma view_entry_laws [map_laws]:
  assumes "view_map_wf m"
  shows "view_map_wf (fst (view_entry v m))" and "view_get (fst (view_entry v m)) w = view_get m w"
  using height_or_default_laws [OF assms]
  by (simp_all add: view_entry_def case_prod_unfold Let_def)

lemma view_entry_snd [map_laws]: "snd (view_entry v m) = view_get m v"
  by (simp add: view_entry_def height_or_default_def view_get_def split: option.split)

lemma view_or_default_snd [map_laws]: "snd (view_or_default v m) = senders m v"
  using view_entry_snd [of v m]
  by (cases "view_entry v m") (auto simp: view_or_default_def senders_def split: option.split)

lemma view_or_default_laws [map_laws]:
  assumes "view_map_wf m"
  shows "view_map_wf (fst (view_or_default v m))"
    and "view_get (fst (view_or_default v m)) w = (if w = v then Some (senders m v) else view_get m w)"
  using view_entry_laws [OF assms, of v] view_entry_snd [of v m]
  by (cases "view_entry v m";
      auto simp: view_or_default_def senders_def view_map_wf_insert view_get_insert split: option.split)+

interpretation vs: nested_map "[]" vm.nlookup vm.ninsert vm.nremove vm.nentries vm.ninvar
    "[]" map_of hm_insert hm_remove "\<lambda>m. m" hm_wf
  by unfold_locales

lemma senders_inner: "senders m v = vs.the_inner m (view_key v)"
  by (simp add: senders_def vs.the_inner_def view_get_nlookup)

lemma sender_map_wf_ninvar: "sender_map_wf m \<longleftrightarrow> vs.ninvar m"
proof -
  have "(\<forall>v s. view_get m v = Some s \<longrightarrow> hm_wf s) \<longleftrightarrow> (\<forall>k s. vm.nlookup m k = Some s \<longrightarrow> hm_wf s)"
    by (metis view_get_nlookup view_key_surj)
  then show ?thesis by (simp add: sender_map_wf_def vs.ninvar_def view_map_wf_ninvar)
qed

lemma senders_wf: "sender_map_wf m \<Longrightarrow> hm_wf (senders m v)"
  by (simp add: senders_inner sender_map_wf_ninvar vs.ninvar_inner)

lemma senders_view_insert [map_laws]:
  "view_map_wf m \<Longrightarrow> senders (view_insert v x m) w = (if w = v then x else senders m w)"
  by (simp add: senders_def view_get_insert)

lemma senders_view_remove [map_laws]:
  "view_map_wf m \<Longrightarrow> senders (view_remove v m) w = (if w = v then [] else senders m w)"
  by (simp add: senders_def view_get_remove)

lemma senders_or_default [map_laws]:
  "view_map_wf m \<Longrightarrow> senders (fst (view_or_default v m)) w = senders m w"
  by (auto simp: senders_def view_or_default_laws(2))

lemma senders_view_entry [map_laws]:
  "view_map_wf m \<Longrightarrow> senders (fst (view_entry v m)) w = senders m w"
  by (simp add: senders_def view_entry_laws)

lemma sender_map_wf_D: "sender_map_wf m \<Longrightarrow> view_map_wf m"
  by (simp add: sender_map_wf_def)

lemma sender_map_wf_insert [wf_intros]:
  "sender_map_wf m \<Longrightarrow> hm_wf x \<Longrightarrow> sender_map_wf (view_insert v x m)"
  by (auto simp: sender_map_wf_def view_map_wf_insert view_get_insert)

lemma sender_map_wf_remove [wf_intros]: "sender_map_wf m \<Longrightarrow> sender_map_wf (view_remove v m)"
  by (auto simp: sender_map_wf_def view_map_wf_remove view_get_remove)

lemma sender_map_wf_or_default [wf_intros]:
  "sender_map_wf m \<Longrightarrow> sender_map_wf (fst (view_or_default v m))"
  using senders_wf [of m v] by (auto simp: sender_map_wf_def view_or_default_laws)

lemma sender_map_wf_view_entry [wf_intros]:
  "sender_map_wf m \<Longrightarrow> sender_map_wf (fst (view_entry v m))"
  by (auto simp: sender_map_wf_def view_entry_laws)

lemma sender_map_wf_height_or_default [wf_intros]:
  "sender_map_wf m \<Longrightarrow> sender_map_wf (fst (height_or_default h m))"
  by (auto simp: sender_map_wf_def height_or_default_laws)

lemma sender_entry_simp:
  "sender_entry v a m = (fst (view_or_default v m), map_of (senders m v) a)"
  by (simp add: sender_entry_def case_prod_unfold Let_def view_or_default_snd)

lemma sender_insert_simp:
  "sender_insert v a x m = view_insert v (hm_insert a x (senders m v)) (fst (view_or_default v m))"
  by (simp add: sender_insert_def case_prod_unfold Let_def view_or_default_snd)

lemma senders_sender_insert [map_laws]:
  "view_map_wf m \<Longrightarrow>
     senders (sender_insert v a x m) w = (if w = v then hm_insert a x (senders m v) else senders m w)"
  by (simp add: sender_insert_simp view_or_default_laws map_laws)

lemma sender_map_wf_sender_insert [wf_intros]:
  "sender_map_wf m \<Longrightarrow> sender_map_wf (sender_insert v a x m)"
  by (simp add: sender_insert_simp sender_map_wf_insert sender_map_wf_or_default hm_wf_insert senders_wf)

text \<open>Pruning keeps exactly the heights from the given one on.\<close>

lemma view_get_prune [map_laws]:
  "view_get (height_map_prune h m) v = (if h \<le> view_height v then view_get m v else None)"
  by (simp add: view_get_def height_map_prune_def map_of_bt_split_off)

lemma senders_prune [map_laws]:
  "senders (height_map_prune h m) v = (if h \<le> view_height v then senders m v else [])"
  by (simp add: senders_def view_get_prune)

lemma view_map_wf_prune [wf_intros]: "view_map_wf m \<Longrightarrow> view_map_wf (height_map_prune h m)"
  by (auto simp: view_map_wf_def height_map_prune_def bt_wf_split_off map_of_bt_split_off split: if_splits)

lemma sender_map_wf_prune [wf_intros]: "sender_map_wf m \<Longrightarrow> sender_map_wf (height_map_prune h m)"
  by (auto simp: sender_map_wf_def view_map_wf_prune view_get_prune split: if_splits)

subsection \<open>What each operation changes\<close>

lemma store_wfD:
  assumes "store_wf s"
  shows "bt_wf (proposal_0_messages s)" and "view_map_wf (proposal_1_messages s)"
    and "view_map_wf (prepare_messages s)" and "view_map_wf (commit_messages s)"
    and "view_map_wf (round_change_messages s)"
    and "sender_map_wf (prepare_messages s)" and "sender_map_wf (commit_messages s)"
    and "sender_map_wf (round_change_messages s)"
    and "hm_wf (prepares_at s v)" and "hm_wf (commits_at s v)" and "hm_wf (round_changes_at s v)"
  using assms by (auto simp: store_wf_def store_readings sender_map_wf_D senders_wf)

lemma store_wf_filed:
  assumes "store_wf s"
  shows "proposal_at s v = Some p \<Longrightarrow> ps_view p = v"
    and "(a, q) \<in> set (prepares_at s v) \<Longrightarrow> pr_view q = v"
    and "(a, c) \<in> set (commits_at s v) \<Longrightarrow> cm_view c = v"
    and "(a, (rc, b)) \<in> set (round_changes_at s v) \<Longrightarrow> rcs_view rc = v"
  using assms unfolding store_wf_def by blast+

lemma view_eqI: "view_height v = view_height w \<Longrightarrow> view_round v = view_round w \<Longrightarrow> v = (w::view)"
  by (rule view.equality) simp_all

lemma add_proposal_laws [store_laws]:
  assumes "store_wf s"
  shows "proposal_at (add_proposal_message p a s) v =
           (if v = ps_view p \<and> proposal_at s v = None then Some p else proposal_at s v)"
    and "verification_at (add_proposal_message p a s) v =
           (if v = ps_view p \<and> proposal_at s v = None
            then (if view_round v \<noteq> 0 \<and> self_address s = a then Some (Inr ()) else None)
            else verification_at s v)"
    and "prepares_at (add_proposal_message p a s) = prepares_at s"
    and "commits_at (add_proposal_message p a s) = commits_at s"
    and "round_changes_at (add_proposal_message p a s) = round_changes_at s"
    and "self_address (add_proposal_message p a s) = self_address s"
proof -
  note wf = store_wfD [OF assms]
  obtain m e where me: "view_entry (ps_view p) (proposal_1_messages s) = (m, e)"
    by (cases "view_entry (ps_view p) (proposal_1_messages s)")
  have m: "view_map_wf m" "\<And>w. view_get m w = view_get (proposal_1_messages s) w"
    and e: "e = view_get (proposal_1_messages s) (ps_view p)"
    using view_entry_laws [OF wf(2), of "ps_view p"] view_entry_snd [of "ps_view p" "proposal_1_messages s"] me
    by simp_all
  show "proposal_at (add_proposal_message p a s) v =
           (if v = ps_view p \<and> proposal_at s v = None then Some p else proposal_at s v)"
    by (auto simp: add_proposal_message_def Let_def proposal_at_def me m e map_of_bt_insert [OF wf(1)]
        view_get_insert intro: view_eqI split: option.split)
  show "verification_at (add_proposal_message p a s) v =
           (if v = ps_view p \<and> proposal_at s v = None
            then (if view_round v \<noteq> 0 \<and> self_address s = a then Some (Inr ()) else None)
            else verification_at s v)"
    by (auto simp: add_proposal_message_def Let_def proposal_at_def verification_at_def me m e
        view_get_insert split: option.split)
qed (auto simp: add_proposal_message_def Let_def store_readings split: option.split prod.split)

lemma add_prepare_laws [store_laws]:
  assumes "store_wf s"
  shows "prepares_at (add_prepare_message p a s) v =
           (if v = pr_view p \<and> map_of (prepares_at s v) a = None then prepares_at s v @ [(a, p)]
            else prepares_at s v)"
    and "proposal_at (add_prepare_message p a s) = proposal_at s"
    and "verification_at (add_prepare_message p a s) = verification_at s"
    and "commits_at (add_prepare_message p a s) = commits_at s"
    and "round_changes_at (add_prepare_message p a s) = round_changes_at s"
    and "self_address (add_prepare_message p a s) = self_address s"
  using store_wfD(3) [OF assms]
  by (auto simp: add_prepare_message_def Let_def fun_eq_iff store_readings sender_entry_simp map_laws
      view_or_default_laws hm_insert_fresh split: option.split)

lemma add_commit_laws [store_laws]:
  assumes "store_wf s"
  shows "commits_at (add_commit_message c a s) v =
           (if v = cm_view c \<and> map_of (commits_at s v) a = None then commits_at s v @ [(a, c)]
            else commits_at s v)"
    and "proposal_at (add_commit_message c a s) = proposal_at s"
    and "verification_at (add_commit_message c a s) = verification_at s"
    and "prepares_at (add_commit_message c a s) = prepares_at s"
    and "round_changes_at (add_commit_message c a s) = round_changes_at s"
    and "self_address (add_commit_message c a s) = self_address s"
  using store_wfD(4) [OF assms]
  by (auto simp: add_commit_message_def Let_def fun_eq_iff store_readings sender_entry_simp map_laws
      view_or_default_laws hm_insert_fresh split: option.split)

lemma add_round_change_laws [store_laws]:
  assumes "store_wf s"
  shows "round_changes_at (add_round_change_message rc a s) v =
           (if v = rcs_view rc \<and> map_of (round_changes_at s v) a = None
            then round_changes_at s v @ [(a, (rc, a = self_address s))] else round_changes_at s v)"
    and "proposal_at (add_round_change_message rc a s) = proposal_at s"
    and "verification_at (add_round_change_message rc a s) = verification_at s"
    and "prepares_at (add_round_change_message rc a s) = prepares_at s"
    and "commits_at (add_round_change_message rc a s) = commits_at s"
    and "self_address (add_round_change_message rc a s) = self_address s"
  using store_wfD(5) [OF assms]
  by (auto simp: add_round_change_message_def Let_def fun_eq_iff store_readings sender_entry_simp map_laws
      view_or_default_laws hm_insert_fresh split: option.split)

lemma get_valid_proposal_digest_result:
  "fst (get_valid_proposal_digest v f s) =
     (case proposal_at s v of
        None \<Rightarrow> None
      | Some p \<Rightarrow> Some (case (case verification_at s v of None \<Rightarrow> f p | Some r \<Rightarrow> r) of
                          Inl e \<Rightarrow> Inl e | Inr _ \<Rightarrow> Inr (ps_digest p)))"
proof (cases "view_round v = 0")
  case True
  then show ?thesis
    by (auto simp: get_valid_proposal_digest_def proposal_at_def verification_at_def split: option.split)
next
  case False
  obtain m e where me: "view_entry v (proposal_1_messages s) = (m, e)"
    by (cases "view_entry v (proposal_1_messages s)")
  then have "e = view_get (proposal_1_messages s) v"
    using view_entry_snd [of v "proposal_1_messages s"] by simp
  then show ?thesis
    using False me
    by (auto simp: get_valid_proposal_digest_def proposal_at_def verification_at_def
        split: option.splits sum.splits)
qed

lemma get_valid_proposal_digest_laws [store_laws]:
  assumes "store_wf s"
  shows "proposal_at (snd (get_valid_proposal_digest v f s)) w = proposal_at s w"
    and "verification_at (snd (get_valid_proposal_digest v f s)) w =
           (if w = v \<and> view_round v \<noteq> 0 \<and> verification_at s v = None
            then map_option f (proposal_at s v) else verification_at s w)"
    and "prepares_at (snd (get_valid_proposal_digest v f s)) = prepares_at s"
    and "commits_at (snd (get_valid_proposal_digest v f s)) = commits_at s"
    and "round_changes_at (snd (get_valid_proposal_digest v f s)) = round_changes_at s"
    and "self_address (snd (get_valid_proposal_digest v f s)) = self_address s"
proof -
  obtain m e where me: "view_entry v (proposal_1_messages s) = (m, e)"
    by (cases "view_entry v (proposal_1_messages s)")
  have m: "view_map_wf m" "\<And>w. view_get m w = view_get (proposal_1_messages s) w"
    and e: "e = view_get (proposal_1_messages s) v"
    using view_entry_laws [OF store_wfD(2) [OF assms], of v] view_entry_snd [of v "proposal_1_messages s"] me
    by simp_all
  show "proposal_at (snd (get_valid_proposal_digest v f s)) w = proposal_at s w"
    by (auto simp: get_valid_proposal_digest_def proposal_at_def me m e view_get_insert
        split: option.splits sum.splits)
  show "verification_at (snd (get_valid_proposal_digest v f s)) w =
           (if w = v \<and> view_round v \<noteq> 0 \<and> verification_at s v = None
            then map_option f (proposal_at s v) else verification_at s w)"
    by (auto simp: get_valid_proposal_digest_def proposal_at_def verification_at_def me m e view_get_insert
        split: option.splits sum.splits)
qed (auto simp: get_valid_proposal_digest_def store_readings split: option.split sum.split prod.split)

lemma take_proposal_laws [store_laws]:
  assumes "store_wf s"
  shows "fst (take_proposal_message v s) = proposal_at s v"
    and "proposal_at (snd (take_proposal_message v s)) w = (if w = v then None else proposal_at s w)"
    and "prepares_at (snd (take_proposal_message v s)) = prepares_at s"
    and "commits_at (snd (take_proposal_message v s)) = commits_at s"
    and "round_changes_at (snd (take_proposal_message v s)) = round_changes_at s"
    and "self_address (snd (take_proposal_message v s)) = self_address s"
proof -
  obtain m e where me: "view_entry v (proposal_1_messages s) = (m, e)"
    by (cases "view_entry v (proposal_1_messages s)")
  have m: "view_map_wf m" "\<And>w. view_get m w = view_get (proposal_1_messages s) w"
    and e: "e = view_get (proposal_1_messages s) v"
    using view_entry_laws [OF store_wfD(2) [OF assms], of v] view_entry_snd [of v "proposal_1_messages s"] me
    by simp_all
  show "fst (take_proposal_message v s) = proposal_at s v"
    by (auto simp: take_proposal_message_def proposal_at_def me e split: option.split)
  show "proposal_at (snd (take_proposal_message v s)) w = (if w = v then None else proposal_at s w)"
    by (auto simp: take_proposal_message_def proposal_at_def me m e view_get_remove
        bt.lookup_remove [OF store_wfD(1) [OF assms]] intro: view_eqI split: option.splits)
qed (auto simp: take_proposal_message_def store_readings split: option.split prod.split)

lemma take_proposal_verification:
  assumes "store_wf s" and "w \<noteq> v"
  shows "verification_at (snd (take_proposal_message v s)) w = verification_at s w"
proof -
  obtain m e where me: "view_entry v (proposal_1_messages s) = (m, e)"
    by (cases "view_entry v (proposal_1_messages s)")
  then have "view_map_wf m" "\<And>w. view_get m w = view_get (proposal_1_messages s) w"
    using view_entry_laws [OF store_wfD(2) [OF assms(1)], of v] by simp_all
  then show ?thesis
    using assms(2) me
    by (auto simp: take_proposal_message_def verification_at_def view_get_remove split: option.splits)
qed

lemma get_valid_prepare_count_laws [store_laws]:
  assumes "store_wf s"
  shows "fst (get_valid_prepare_count v f s) = length (hm_retain (\<lambda>_. f) (prepares_at s v))"
    and "prepares_at (snd (get_valid_prepare_count v f s)) w =
           (if w = v then hm_retain (\<lambda>_. f) (prepares_at s v) else prepares_at s w)"
    and "proposal_at (snd (get_valid_prepare_count v f s)) = proposal_at s"
    and "verification_at (snd (get_valid_prepare_count v f s)) = verification_at s"
    and "commits_at (snd (get_valid_prepare_count v f s)) = commits_at s"
    and "round_changes_at (snd (get_valid_prepare_count v f s)) = round_changes_at s"
    and "self_address (snd (get_valid_prepare_count v f s)) = self_address s"
  using store_wfD(3) [OF assms]
  by (auto simp: get_valid_prepare_count_def fun_eq_iff case_prod_unfold Let_def store_readings map_laws
      view_or_default_laws)

lemma take_valid_prepare_laws [store_laws]:
  assumes "store_wf s"
  shows "fst (take_valid_prepare_messages v f s) = map snd (hm_retain (\<lambda>_. f) (prepares_at s v))"
    and "prepares_at (snd (take_valid_prepare_messages v f s)) w = (if w = v then [] else prepares_at s w)"
    and "proposal_at (snd (take_valid_prepare_messages v f s)) = proposal_at s"
    and "verification_at (snd (take_valid_prepare_messages v f s)) = verification_at s"
    and "commits_at (snd (take_valid_prepare_messages v f s)) = commits_at s"
    and "round_changes_at (snd (take_valid_prepare_messages v f s)) = round_changes_at s"
    and "self_address (snd (take_valid_prepare_messages v f s)) = self_address s"
proof -
  note wf = store_wfD(3) [OF assms]
  obtain m e where me: "view_entry v (prepare_messages s) = (m, e)"
    by (cases "view_entry v (prepare_messages s)")
  have m: "view_map_wf m" "\<And>w. senders m w = senders (prepare_messages s) w"
    and e: "e = view_get (prepare_messages s) v"
    using view_entry_laws(1) [OF wf, of v] senders_view_entry [OF wf, of v] view_entry_snd [of v "prepare_messages s"] me
    by simp_all
  show "fst (take_valid_prepare_messages v f s) = map snd (hm_retain (\<lambda>_. f) (prepares_at s v))"
    by (auto simp: take_valid_prepare_messages_def prepares_at_def senders_def me e hm_retain_def split: option.split)
  show "prepares_at (snd (take_valid_prepare_messages v f s)) w = (if w = v then [] else prepares_at s w)"
    using e by (auto simp: take_valid_prepare_messages_def prepares_at_def me m senders_view_remove
        senders_def [of "prepare_messages s" v] split: option.split)
qed (auto simp: take_valid_prepare_messages_def store_readings split: option.split prod.split)

lemma take_valid_commit_seals_laws [store_laws]:
  assumes "store_wf s"
  shows "fst (take_valid_commit_seals v f q s) =
           (let valid = hm_retain (\<lambda>_. f) (commits_at s v)
            in (if q \<le> length valid then Some (map (\<lambda>(_, c). cm_seal c) valid) else None, length valid))"
    and "commits_at (snd (take_valid_commit_seals v f q s)) w =
           (if w = v then (let valid = hm_retain (\<lambda>_. f) (commits_at s v)
                           in if q \<le> length valid then [] else valid)
            else commits_at s w)"
    and "proposal_at (snd (take_valid_commit_seals v f q s)) = proposal_at s"
    and "verification_at (snd (take_valid_commit_seals v f q s)) = verification_at s"
    and "prepares_at (snd (take_valid_commit_seals v f q s)) = prepares_at s"
    and "round_changes_at (snd (take_valid_commit_seals v f q s)) = round_changes_at s"
    and "self_address (snd (take_valid_commit_seals v f q s)) = self_address s"
  using store_wfD(4) [OF assms]
  by (auto simp: take_valid_commit_seals_def fun_eq_iff case_prod_unfold Let_def store_readings map_laws
      view_or_default_laws)

lemma take_valid_round_change_laws [store_laws]:
  assumes "store_wf s"
  shows "fst (take_valid_round_change_messages v f q s) =
           (let valid = retain_round_changes f (round_changes_at s v)
            in (if q \<le> length valid then Some (map (\<lambda>(_, rc, _). rc) valid) else None, length valid))"
    and "round_changes_at (snd (take_valid_round_change_messages v f q s)) w =
           (if w = v then (let valid = retain_round_changes f (round_changes_at s v)
                           in if q \<le> length valid then [] else valid)
            else round_changes_at s w)"
    and "proposal_at (snd (take_valid_round_change_messages v f q s)) = proposal_at s"
    and "verification_at (snd (take_valid_round_change_messages v f q s)) = verification_at s"
    and "prepares_at (snd (take_valid_round_change_messages v f q s)) = prepares_at s"
    and "commits_at (snd (take_valid_round_change_messages v f q s)) = commits_at s"
    and "self_address (snd (take_valid_round_change_messages v f q s)) = self_address s"
  using store_wfD(5) [OF assms]
  by (auto simp: take_valid_round_change_messages_def fun_eq_iff case_prod_unfold Let_def store_readings
      map_laws view_or_default_laws)

lemma get_valid_round_change_count_laws [store_laws]:
  assumes "store_wf s"
  shows "fst (get_valid_round_change_count v f s) = length (retain_round_changes f (round_changes_at s v))"
    and "round_changes_at (snd (get_valid_round_change_count v f s)) w =
           (if w = v then retain_round_changes f (round_changes_at s v) else round_changes_at s w)"
    and "proposal_at (snd (get_valid_round_change_count v f s)) = proposal_at s"
    and "verification_at (snd (get_valid_round_change_count v f s)) = verification_at s"
    and "prepares_at (snd (get_valid_round_change_count v f s)) = prepares_at s"
    and "commits_at (snd (get_valid_round_change_count v f s)) = commits_at s"
    and "self_address (snd (get_valid_round_change_count v f s)) = self_address s"
  using store_wfD(5) [OF assms]
  by (auto simp: get_valid_round_change_count_def fun_eq_iff case_prod_unfold Let_def store_readings
      map_laws view_or_default_laws)

lemma has_proposal_by_round_laws [store_laws]:
  assumes "store_wf s"
  shows "proposal_at (snd (has_proposal_by_round h s)) = proposal_at s"
    and "verification_at (snd (has_proposal_by_round h s)) = verification_at s"
    and "prepares_at (snd (has_proposal_by_round h s)) = prepares_at s"
    and "commits_at (snd (has_proposal_by_round h s)) = commits_at s"
    and "round_changes_at (snd (has_proposal_by_round h s)) = round_changes_at s"
    and "self_address (snd (has_proposal_by_round h s)) = self_address s"
  using height_or_default_laws [OF store_wfD(2) [OF assms], of h]
  by (auto simp: has_proposal_by_round_def fun_eq_iff case_prod_unfold Let_def store_readings)

lemma round_change_count_by_round_laws [store_laws]:
  assumes "store_wf s"
  shows "proposal_at (snd (round_change_count_by_round h s)) = proposal_at s"
    and "verification_at (snd (round_change_count_by_round h s)) = verification_at s"
    and "prepares_at (snd (round_change_count_by_round h s)) = prepares_at s"
    and "commits_at (snd (round_change_count_by_round h s)) = commits_at s"
    and "round_changes_at (snd (round_change_count_by_round h s)) = round_changes_at s"
    and "self_address (snd (round_change_count_by_round h s)) = self_address s"
  using height_or_default_laws [OF store_wfD(5) [OF assms], of h]
  by (auto simp: round_change_count_by_round_def fun_eq_iff case_prod_unfold Let_def store_readings senders_def)

lemma prune_laws [store_laws]:
  shows "proposal_at (messages_prune h s) v = (if h \<le> view_height v then proposal_at s v else None)"
    and "verification_at (messages_prune h s) v = (if h \<le> view_height v then verification_at s v else None)"
    and "prepares_at (messages_prune h s) v = (if h \<le> view_height v then prepares_at s v else [])"
    and "commits_at (messages_prune h s) v = (if h \<le> view_height v then commits_at s v else [])"
    and "round_changes_at (messages_prune h s) v = (if h \<le> view_height v then round_changes_at s v else [])"
    and "self_address (messages_prune h s) = self_address s"
  by (auto simp: messages_prune_def store_readings map_laws height_map_prune_def [of _ "proposal_0_messages s"]
      map_of_bt_split_off)

lemma new_laws [store_laws]:
  shows "proposal_at (messages_new a) v = None" and "verification_at (messages_new a) v = None"
    and "prepares_at (messages_new a) v = []" and "commits_at (messages_new a) v = []"
    and "round_changes_at (messages_new a) v = []" and "self_address (messages_new a) = a"
  by (simp_all add: messages_new_def store_readings senders_def)

subsection \<open>The invariant is kept\<close>

definition maps_wf :: "consensus_messages \<Rightarrow> bool" where
  "maps_wf s \<longleftrightarrow>
     bt_wf (proposal_0_messages s) \<and> view_map_wf (proposal_1_messages s) \<and>
     sender_map_wf (prepare_messages s) \<and> sender_map_wf (commit_messages s) \<and>
     sender_map_wf (round_change_messages s)"

lemma store_wfI:
  assumes "maps_wf s"
    and "\<And>v p. proposal_at s v = Some p \<Longrightarrow> ps_view p = v"
    and "\<And>v a p. (a, p) \<in> set (prepares_at s v) \<Longrightarrow> pr_view p = v"
    and "\<And>v a c. (a, c) \<in> set (commits_at s v) \<Longrightarrow> cm_view c = v"
    and "\<And>v a rc b. (a, (rc, b)) \<in> set (round_changes_at s v) \<Longrightarrow> rcs_view rc = v"
  shows "store_wf s"
  using assms unfolding store_wf_def maps_wf_def by blast

lemma store_wf_maps: "store_wf s \<Longrightarrow> maps_wf s"
  by (simp add: store_wf_def maps_wf_def)

lemma retain_round_changes_mem:
  assumes "(a, (rc, b)) \<in> set (retain_round_changes f m)"
  shows "b \<and> (\<exists>b'. (a, (rc, b')) \<in> set m \<and> (b' \<or> f rc))"
  using assms by (induction f m rule: retain_round_changes.induct) (auto split: if_splits)

lemma keys_retain_round_changes: "fst ` set (retain_round_changes f m) \<subseteq> fst ` set m"
  by (force dest: retain_round_changes_mem)

lemma hm_wf_retain_round_changes [wf_intros]: "hm_wf m \<Longrightarrow> hm_wf (retain_round_changes f m)"
proof (induction f m rule: retain_round_changes.induct)
  case (2 f a rc b m)
  then show ?case using keys_retain_round_changes [of f m] by (auto simp: hm_wf_def)
qed (simp add: hm_wf_def)

lemma set_hm_retain [simp]: "(k, v) \<in> set (hm_retain P m) \<longleftrightarrow> (k, v) \<in> set m \<and> P k v"
  by (auto simp: hm_retain_def)

lemma messages_new_wf [wf_intros]: "store_wf (messages_new a)"
  by (rule store_wfI)
    (auto simp: store_laws, simp add: messages_new_def maps_wf_def view_map_wf_def sender_map_wf_def)

lemmas maps_wf_simps = maps_wf_def Let_def sender_entry_simp case_prod_unfold sender_map_wf_D wf_intros
  view_entry_laws(1)

lemma maps_wf_adds [wf_intros]:
  assumes "maps_wf s"
  shows "maps_wf (add_proposal_message p a s)" and "maps_wf (add_prepare_message q a s)"
    and "maps_wf (add_commit_message c a s)" and "maps_wf (add_round_change_message rc a s)"
  using assms
  by (auto simp: add_proposal_message_def add_prepare_message_def add_commit_message_def
      add_round_change_message_def maps_wf_simps split: option.split)

lemma maps_wf_prune [wf_intros]: "maps_wf s \<Longrightarrow> maps_wf (messages_prune h s)"
  by (simp add: messages_prune_def maps_wf_simps height_map_prune_def [of _ "proposal_0_messages s"])

lemma maps_wf_proposals [wf_intros]:
  assumes "maps_wf s"
  shows "maps_wf (snd (take_proposal_message v s))" and "maps_wf (snd (get_valid_proposal_digest v f s))"
  using assms
  by (auto simp: take_proposal_message_def get_valid_proposal_digest_def maps_wf_simps bt_remove_def
      split: option.split sum.split)

lemma maps_wf_senders [wf_intros]:
  assumes "maps_wf s"
  shows "maps_wf (snd (get_valid_prepare_count v f s))" and "maps_wf (snd (take_valid_prepare_messages v f s))"
    and "maps_wf (snd (take_valid_commit_seals v g q s))"
    and "maps_wf (snd (take_valid_round_change_messages v k q s))"
    and "maps_wf (snd (get_valid_round_change_count v k s))"
  using assms
  by (auto simp: get_valid_prepare_count_def take_valid_prepare_messages_def take_valid_commit_seals_def
      take_valid_round_change_messages_def get_valid_round_change_count_def maps_wf_simps view_or_default_snd
      senders_wf split: option.split)

lemma maps_wf_by_round [wf_intros]:
  assumes "maps_wf s"
  shows "maps_wf (snd (has_proposal_by_round h s))" and "maps_wf (snd (round_change_count_by_round h s))"
  using assms
  by (auto simp: has_proposal_by_round_def round_change_count_by_round_def maps_wf_simps
      height_or_default_laws(1))

lemma store_wf_adds [wf_intros]:
  assumes "store_wf s"
  shows "store_wf (add_proposal_message p a s)" and "store_wf (add_prepare_message q a s)"
    and "store_wf (add_commit_message c a s)" and "store_wf (add_round_change_message rc a s)"
  by (rule store_wfI; use store_wf_maps [OF assms] store_wf_filed [OF assms] in
      \<open>auto simp: store_laws assms wf_intros split: if_splits\<close>)+

lemma store_wf_prune [wf_intros]: "store_wf s \<Longrightarrow> store_wf (messages_prune h s)"
  by (rule store_wfI)
    (auto simp: prune_laws wf_intros store_wf_maps dest: store_wf_filed split: if_splits)

lemma store_wf_proposals [wf_intros]:
  assumes "store_wf s"
  shows "store_wf (snd (take_proposal_message v s))" and "store_wf (snd (get_valid_proposal_digest v f s))"
  by (rule store_wfI; use store_wf_maps [OF assms] store_wf_filed [OF assms] in
      \<open>auto simp: store_laws assms wf_intros split: if_splits\<close>)+

lemma store_wf_senders [wf_intros]:
  assumes "store_wf s"
  shows "store_wf (snd (get_valid_prepare_count v f s))" and "store_wf (snd (take_valid_prepare_messages v f s))"
    and "store_wf (snd (take_valid_commit_seals v g q s))"
    and "store_wf (snd (take_valid_round_change_messages v k q s))"
    and "store_wf (snd (get_valid_round_change_count v k s))"
  by (rule store_wfI; use store_wf_maps [OF assms] store_wf_filed [OF assms] in
      \<open>auto simp: store_laws assms wf_intros Let_def split: if_splits dest!: retain_round_changes_mem\<close>)+

lemma store_wf_by_round [wf_intros]:
  assumes "store_wf s"
  shows "store_wf (snd (has_proposal_by_round h s))" and "store_wf (snd (round_change_count_by_round h s))"
  by (rule store_wfI; use store_wf_maps [OF assms] store_wf_filed [OF assms] in
      \<open>auto simp: store_laws assms wf_intros split: if_splits\<close>)+

end
