(* ===== verification/Message_Handler.thy ===== *)
theory Message_Handler
  imports Message_Store
begin

text \<open>
  The peer-to-peer message handler (\<open>MessageHandler\<close> in \<open>messages.rs\<close>): which incoming messages
  reach the store. \<open>store_auth\<close> is what it establishes: every stored message is filed under the
  address recovered from its signature, that address is a validator (the proposer, for a
  proposal), commits carry a seal of the same signer, and rounds are in range.
\<close>

record message_handler =
  handler_height :: u64
  handler_address :: address

definition handler_new :: "u64 \<Rightarrow> address \<Rightarrow> message_handler" where
  "handler_new h a = \<lparr>handler_height = h, handler_address = a\<rparr>"

fun handle_consensus_message ::
    "externals \<Rightarrow> validator_manager \<Rightarrow> message_handler \<Rightarrow> ibft_message \<Rightarrow> consensus_messages \<Rightarrow>
     unit anyhow \<times> consensus_messages" where
  "handle_consensus_message E V mh (Proposal p) s =
     (let v = ps_view p in
      if view_height v \<le> handler_height mh then (Inr (), s)
      else if view_round v > MAX_ROUND then (Inl ''Received proposal with too high round'', s)
      else (case proposal_recover_signer E p of
        Inl e \<Rightarrow> (Inl e, s)
      | Inr sender \<Rightarrow>
          if sender = handler_address mh then (Inl ''Received self signed proposal'', s)
          else if \<not> is_proposer V sender v then (Inl ''Received proposal from non-proposer'', s)
          else (Inr (), add_proposal_message p sender s)))"
| "handle_consensus_message E V mh (Prepare p) s =
     (let v = pr_view p in
      if view_height v \<le> handler_height mh then (Inr (), s)
      else if view_round v > MAX_ROUND then (Inl ''Received prepare with too high round'', s)
      else (case prepare_recover_signer E p of
        Inl e \<Rightarrow> (Inl e, s)
      | Inr sender \<Rightarrow>
          if sender = handler_address mh then (Inl ''Received self signed prepare'', s)
          else if \<not> is_validator V sender (view_height v) then (Inl ''Prepare sender is not validator'', s)
          else if is_proposer V sender v then (Inl ''Proposer should not send prepare messages'', s)
          else (Inr (), add_prepare_message p sender s)))"
| "handle_consensus_message E V mh (Commit c) s =
     (let v = cm_view c in
      if view_height v \<le> handler_height mh then (Inr (), s)
      else if view_round v > MAX_ROUND then (Inl ''Received commit with too high round'', s)
      else (case commit_recover_signer E c of
        Inl e \<Rightarrow> (Inl e, s)
      | Inr sender \<Rightarrow>
          if sender = handler_address mh then (Inl ''Received self signed commit'', s)
          else if \<not> is_validator V sender (view_height v) then (Inl ''Commit sender is not validator'', s)
          else (case commit_recover_seal_signer E c of
            Inl e \<Rightarrow> (Inl e, s)
          | Inr seal_sender \<Rightarrow>
              if sender \<noteq> seal_sender then (Inl ''Commit seal signer is different from message signer'', s)
              else (Inr (), add_commit_message c sender s))))"
| "handle_consensus_message E V mh (RoundChange rc) s =
     (let v = rcs_view rc in
      if view_height v \<le> handler_height mh then (Inr (), s)
      else if view_round v = 0 then (Inl ''Received round change with round 0'', s)
      else if view_round v > MAX_ROUND then (Inl ''Received round change with too high round'', s)
      else (case rc_recover_signer E rc of
        Inl e \<Rightarrow> (Inl e, s)
      | Inr sender \<Rightarrow>
          if sender = handler_address mh then (Inl ''Received self signed round change'', s)
          else if \<not> is_validator V sender (view_height v) then (Inl ''Round change sender is not validator'', s)
          else (Inr (), add_round_change_message rc sender s)))"

text \<open>\<open>start\<close> handles the messages of the channel one after the other; an error is only logged.\<close>

fun handler_start ::
    "externals \<Rightarrow> validator_manager \<Rightarrow> message_handler \<Rightarrow> ibft_message list \<Rightarrow> consensus_messages \<Rightarrow>
     consensus_messages" where
  "handler_start E V mh [] s = s"
| "handler_start E V mh (m # ms) s = handler_start E V mh ms (snd (handle_consensus_message E V mh m s))"

text \<open>\<open>None\<close> is the failed assertion.\<close>

definition handler_update_height :: "u64 \<Rightarrow> message_handler \<Rightarrow> message_handler option" where
  "handler_update_height h mh = (if h > handler_height mh then Some (mh\<lparr>handler_height := h\<rparr>) else None)"

text \<open>\<open>height() + 1\<close> wraps at the top of \<open>u64\<close>, as in a release build.\<close>

definition handler_prune :: "message_handler \<Rightarrow> consensus_messages \<Rightarrow> consensus_messages" where
  "handler_prune mh s = messages_prune (handler_height mh + 1) s"

subsection \<open>What the handler establishes\<close>

text \<open>The authenticity of each kind of stored message.\<close>

definition proposal_auth :: "externals \<Rightarrow> validator_manager \<Rightarrow> view \<Rightarrow> proposal_signed \<Rightarrow> bool" where
  "proposal_auth E V v p \<longleftrightarrow>
     (\<exists>a. proposal_recover_signer E p = Inr a \<and> is_proposer V a v) \<and> view_round v \<le> MAX_ROUND"

definition prepare_auth :: "externals \<Rightarrow> validator_manager \<Rightarrow> view \<Rightarrow> address \<Rightarrow> prepare_signed \<Rightarrow> bool" where
  "prepare_auth E V v a p \<longleftrightarrow>
     prepare_recover_signer E p = Inr a \<and> is_validator V a (view_height v) \<and> \<not> is_proposer V a v \<and>
     view_round v \<le> MAX_ROUND"

definition commit_auth :: "externals \<Rightarrow> validator_manager \<Rightarrow> view \<Rightarrow> address \<Rightarrow> commit_signed \<Rightarrow> bool" where
  "commit_auth E V v a c \<longleftrightarrow>
     commit_recover_signer E c = Inr a \<and> commit_recover_seal_signer E c = Inr a \<and>
     is_validator V a (view_height v) \<and> view_round v \<le> MAX_ROUND"

definition round_change_auth ::
    "externals \<Rightarrow> validator_manager \<Rightarrow> view \<Rightarrow> address \<Rightarrow> round_change_signed \<Rightarrow> bool" where
  "round_change_auth E V v a rc \<longleftrightarrow>
     rc_recover_signer E rc = Inr a \<and> is_validator V a (view_height v) \<and>
     view_round v \<noteq> 0 \<and> view_round v \<le> MAX_ROUND"

lemmas auth_defs = proposal_auth_def prepare_auth_def commit_auth_def round_change_auth_def

definition store_auth :: "externals \<Rightarrow> validator_manager \<Rightarrow> consensus_messages \<Rightarrow> bool" where
  "store_auth E V s \<longleftrightarrow>
     (\<forall>v p. proposal_at s v = Some p \<longrightarrow> proposal_auth E V v p) \<and>
     (\<forall>v a p. (a, p) \<in> set (prepares_at s v) \<longrightarrow> prepare_auth E V v a p) \<and>
     (\<forall>v a c. (a, c) \<in> set (commits_at s v) \<longrightarrow> commit_auth E V v a c) \<and>
     (\<forall>v a rc b. (a, (rc, b)) \<in> set (round_changes_at s v) \<longrightarrow> round_change_auth E V v a rc)"

text \<open>Nothing stored is for the finalized height or below.\<close>

definition store_above :: "u64 \<Rightarrow> consensus_messages \<Rightarrow> bool" where
  "store_above h s \<longleftrightarrow>
     (\<forall>v. view_height v \<le> h \<longrightarrow>
        proposal_at s v = None \<and> prepares_at s v = [] \<and> commits_at s v = [] \<and> round_changes_at s v = [])"

lemma store_authI:
  assumes "\<And>v p. proposal_at s v = Some p \<Longrightarrow> proposal_auth E V v p"
    and "\<And>v a p. (a, p) \<in> set (prepares_at s v) \<Longrightarrow> prepare_auth E V v a p"
    and "\<And>v a c. (a, c) \<in> set (commits_at s v) \<Longrightarrow> commit_auth E V v a c"
    and "\<And>v a rc b. (a, (rc, b)) \<in> set (round_changes_at s v) \<Longrightarrow> round_change_auth E V v a rc"
  shows "store_auth E V s"
  using assms unfolding store_auth_def by blast

lemma store_authD:
  assumes "store_auth E V s"
  shows "proposal_at s v = Some p \<Longrightarrow> proposal_auth E V v p"
    and "(a, q) \<in> set (prepares_at s v) \<Longrightarrow> prepare_auth E V v a q"
    and "(a, c) \<in> set (commits_at s v) \<Longrightarrow> commit_auth E V v a c"
    and "(a, (rc, b)) \<in> set (round_changes_at s v) \<Longrightarrow> round_change_auth E V v a rc"
  using assms unfolding store_auth_def by blast+

lemma store_auth_new [wf_intros]: "store_auth E V (messages_new a)"
  by (rule store_authI) (simp_all add: store_laws)

text \<open>Adding an authentic message keeps the store authentic, and so does every query.\<close>

lemma store_auth_adds:
  assumes "store_wf s" and "store_auth E V s"
  shows "proposal_auth E V (ps_view p) p \<Longrightarrow> store_auth E V (add_proposal_message p a s)"
    and "prepare_auth E V (pr_view q) a q \<Longrightarrow> store_auth E V (add_prepare_message q a s)"
    and "commit_auth E V (cm_view c) a c \<Longrightarrow> store_auth E V (add_commit_message c a s)"
    and "round_change_auth E V (rcs_view rc) a rc \<Longrightarrow> store_auth E V (add_round_change_message rc a s)"
  by (rule store_authI; use store_authD [OF assms(2)] in
      \<open>auto simp: store_laws assms(1) split: if_splits\<close>)+

lemma store_auth_queries [wf_intros]:
  assumes "store_wf s" and "store_auth E V s"
  shows "store_auth E V (snd (get_valid_proposal_digest v f s))"
    and "store_auth E V (snd (take_proposal_message v s))"
    and "store_auth E V (snd (get_valid_prepare_count v g s))"
    and "store_auth E V (snd (take_valid_prepare_messages v g s))"
    and "store_auth E V (snd (take_valid_commit_seals v k q s))"
    and "store_auth E V (snd (take_valid_round_change_messages v l q s))"
    and "store_auth E V (snd (get_valid_round_change_count v l s))"
    and "store_auth E V (snd (has_proposal_by_round h s))"
    and "store_auth E V (snd (round_change_count_by_round h s))"
    and "store_auth E V (messages_prune h s)"
  by (rule store_authI; use store_authD [OF assms(2)] in
      \<open>auto simp: store_laws assms(1) Let_def split: if_splits dest!: retain_round_changes_mem\<close>)+

lemma handle_wf [wf_intros]:
  "store_wf s \<Longrightarrow> store_wf (snd (handle_consensus_message E V mh m s))"
  by (cases m) (auto simp: Let_def wf_intros split: sum.split)

lemma handle_auth:
  assumes "store_wf s" and "store_auth E V s"
  shows "store_auth E V (snd (handle_consensus_message E V mh m s))"
  using store_auth_adds [OF assms] assms
  by (cases m) (auto simp: Let_def auth_defs not_less split: sum.split)

lemma handle_self_address:
  "store_wf s \<Longrightarrow> self_address (snd (handle_consensus_message E V mh m s)) = self_address s"
  by (cases m) (auto simp: Let_def store_laws split: sum.split)

lemma handle_above:
  assumes "store_wf s" and "store_above (handler_height mh) s"
  shows "store_above (handler_height mh) (snd (handle_consensus_message E V mh m s))"
  using assms
  by (cases m) (auto simp: store_above_def Let_def store_laws not_le split: sum.split)

lemma handle_error_unchanged:
  "fst (handle_consensus_message E V mh m s) = Inl e \<Longrightarrow> snd (handle_consensus_message E V mh m s) = s"
  by (cases m) (auto simp: Let_def split: sum.splits if_splits)

text \<open>The view a message is for, and the readings a message handled cannot overwrite.\<close>

fun message_view :: "ibft_message \<Rightarrow> view" where
  "message_view (Proposal p) = ps_view p"
| "message_view (Prepare p) = pr_view p"
| "message_view (Commit c) = cm_view c"
| "message_view (RoundChange rc) = rcs_view rc"

definition stored_in :: "consensus_messages \<Rightarrow> view \<Rightarrow> address \<Rightarrow> ibft_message \<Rightarrow> bool" where
  "stored_in s v a m =
     (case m of
        Proposal p \<Rightarrow> proposal_at s v = Some p
      | Prepare p \<Rightarrow> map_of (prepares_at s v) a = Some p
      | Commit c \<Rightarrow> map_of (commits_at s v) a = Some c
      | RoundChange rc \<Rightarrow> map_option fst (map_of (round_changes_at s v) a) = Some rc)"

lemma handle_keeps_stored:
  "store_wf s \<Longrightarrow> stored_in s v a m \<Longrightarrow> stored_in (snd (handle_consensus_message E V mh x s)) v a m"
  by (cases x) (auto simp: stored_in_def Let_def store_laws map_of_append split: sum.split ibft_message.splits option.splits)

lemma handler_start_induct:
  assumes "P s" and "\<And>s m. P s \<Longrightarrow> P (snd (handle_consensus_message E V mh m s))"
  shows "P (handler_start E V mh ms s)"
  using assms(1) by (induction ms arbitrary: s) (auto intro: assms(2))

subsection \<open>Properties\<close>

text \<open>C20: Whatever messages arrive, the handler keeps the store well formed, authentic (every
  stored message is filed under the validator, or proposer, that signed it, commits with a seal of
  the same signer, rounds at most \<open>MAX_ROUND\<close>) and free of messages for finalized heights.\<close>

theorem handler_keeps_invariants:
  assumes "store_wf s" and "store_auth E V s" and "store_above (handler_height mh) s"
  shows "store_wf (handler_start E V mh ms s) \<and> store_auth E V (handler_start E V mh ms s) \<and>
     store_above (handler_height mh) (handler_start E V mh ms s)"
  by (rule handler_start_induct [where P = "\<lambda>s. store_wf s \<and> store_auth E V s \<and> store_above (handler_height mh) s"])
    (use assms in \<open>auto simp: handle_auth handle_wf handle_above\<close>)

lemma store_above_new: "store_above h (messages_new a)"
  by (simp add: store_above_def store_laws)

theorem handler_keeps_invariants_witness:
  "store_auth sample_externals sample_manager
     (handler_start sample_externals sample_manager (handler_new 3 (Address []))
        [Prepare \<lparr>prepare_message = prepare_new (view_new 4 0) [], prepare_signature = Signature []\<rparr>]
        (messages_new (Address [])))"
  using handler_keeps_invariants [OF messages_new_wf store_auth_new store_above_new] by blast

text \<open>C38: The first message of a sender for a view stays: no later message, of that sender or
  another, replaces a stored proposal, prepare, commit or round change.\<close>

theorem first_message_stays:
  assumes "store_wf s" and "stored_in s v a m"
  shows "stored_in (handler_start E V mh ms s) v a m"
proof -
  have "store_wf (handler_start E V mh ms s) \<and> stored_in (handler_start E V mh ms s) v a m"
    by (rule handler_start_induct [where P = "\<lambda>s. store_wf s \<and> stored_in s v a m"])
      (use assms in \<open>auto simp: handle_wf handle_keeps_stored\<close>)
  then show ?thesis ..
qed

theorem first_message_stays_witness:
  "stored_in (handler_start sample_externals sample_manager (handler_new 3 (Address []))
      [Prepare \<lparr>prepare_message = prepare_new (view_new 4 0) [9], prepare_signature = Signature [1]\<rparr>]
      (add_prepare_message \<lparr>prepare_message = prepare_new (view_new 4 0) [], prepare_signature = Signature []\<rparr>
         (Address [7]) (messages_new (Address []))))
    (view_new 4 0) (Address [7])
    (Prepare \<lparr>prepare_message = prepare_new (view_new 4 0) [], prepare_signature = Signature []\<rparr>)"
  by (rule first_message_stays)
    (simp_all add: wf_intros stored_in_def store_laws prepare_new_def)

text \<open>A message the handler reports as invalid, and one for a finalized height, leave the
  store exactly as it was.\<close>

theorem rejected_message_ignored:
  "(fst (handle_consensus_message E V mh m s) = Inl e \<longrightarrow> snd (handle_consensus_message E V mh m s) = s) \<and>
   (view_height (message_view m) \<le> handler_height mh \<longrightarrow>
      handle_consensus_message E V mh m s = (Inr (), s))"
  by (simp add: handle_error_unchanged) (cases m; simp)

text \<open>A correct commit is accepted: what a validator other than the node itself signs for an
  open height and a round in range is stored under its address, if it had none there.\<close>

theorem honest_commit_accepted:
  assumes "externals_ok E" and "signer_wf E sg" and "length d = 32" and "store_wf s"
    and "signer_address sg \<noteq> handler_address mh"
    and "is_validator V (signer_address sg) (view_height v)"
    and "handler_height mh < view_height v" and "view_round v \<le> MAX_ROUND"
    and "map_of (commits_at s v) (signer_address sg) = None"
  shows "\<exists>m c. commit_new E v d sg = Some m \<and> commit_into_signed E m sg = Some c \<and>
     fst (handle_consensus_message E V mh (Commit c) s) = Inr () \<and>
     stored_in (snd (handle_consensus_message E V mh (Commit c) s)) v (signer_address sg) (Commit c)"
proof -
  obtain m where m: "commit_new E v d sg = Some m" "commit_view m = v" "commit_digest m = d"
    "signature_recover_from_prehash E (commit_seal m) d = Inr (signer_address sg)"
    by (rule commit_new_seals [OF assms(1-3)])
  obtain c where c: "commit_into_signed E m sg = Some c" "commit_message c = m"
    "commit_recover_signer E c = Inr (signer_address sg)"
    by (rule commit_into_signed_recovers [OF assms(1,2)])
  have seal: "commit_recover_seal_signer E c = Inr (signer_address sg)"
    by (simp add: commit_recover_seal_signer_def c m)
  have "handle_consensus_message E V mh (Commit c) s = (Inr (), add_commit_message c (signer_address sg) s)"
    using assms(5-8) by (simp add: c m seal not_le not_less)
  then have "fst (handle_consensus_message E V mh (Commit c) s) = Inr ()"
    and "snd (handle_consensus_message E V mh (Commit c) s) = add_commit_message c (signer_address sg) s"
    by simp_all
  then show ?thesis
    using assms(4,9) m c by (auto simp: stored_in_def store_laws map_add_Some_iff)
qed

theorem honest_commit_accepted_witness:
  "\<exists>c. fst (handle_consensus_message sample_externals sample_manager (handler_new 3 (signer_address (sample_signer 2)))
              (Commit c) (messages_new (signer_address (sample_signer 2)))) = Inr ()"
proof -
  have "length (replicate 32 (0::byte)) = 32" by simp
  note accepted = honest_commit_accepted [OF sample_externals_ok sample_signer_wf [of 1] this messages_new_wf,
      where v = "view_new 4 0" and V = sample_manager and mh = "handler_new 3 (signer_address (sample_signer 2))"]
  show ?thesis
    using accepted [of "signer_address (sample_signer 2)"]
    by (simp add: sample_address handler_new_def view_new_def MAX_ROUND_def store_laws del: handle_consensus_message.simps)
      blast
qed

text \<open>Pruning after a height is finalized removes every message up to that height and no
  other.\<close>

theorem prune_exact:
  assumes "handler_height mh \<noteq> - 1"
  shows "store_above (handler_height mh) (handler_prune mh s) \<and>
     (handler_height mh < view_height v \<longrightarrow>
        stored_in (handler_prune mh s) v a m = stored_in s v a m)"
proof -
  have lt: "handler_height mh + 1 \<le> h \<longleftrightarrow> handler_height mh < h" for h
    using assms by (rule word_succ_le)
  show ?thesis
    by (auto simp: store_above_def handler_prune_def prune_laws lt stored_in_def split: ibft_message.split)
qed

theorem prune_exact_witness:
  "store_above 3 (handler_prune (handler_new 3 (Address [])) (messages_new (Address [])))"
  using prune_exact [of "handler_new 3 (Address [])"] by (simp add: handler_new_def)

theorem rejected_message_ignored_witness:
  "handle_consensus_message sample_externals sample_manager (handler_new 4 (Address []))
     (Prepare \<lparr>prepare_message = prepare_new (view_new 4 0) [], prepare_signature = Signature []\<rparr>)
     (messages_new (Address [])) = (Inr (), messages_new (Address []))"
  using rejected_message_ignored [of sample_externals sample_manager "handler_new 4 (Address [])"
      "Prepare \<lparr>prepare_message = prepare_new (view_new 4 0) [], prepare_signature = Signature []\<rparr>"]
  by (simp add: handler_new_def prepare_new_def view_new_def)

text \<open>C40: A sender's second message for a view can be accepted: once a count of the prepares
  for the digest \<open>d\<close> has dropped its first one, which voted for another digest, the next prepare of
  that sender for the same view is stored.\<close>

theorem second_prepare_accepted:
  assumes "store_wf s" and "map_of (prepares_at s v) a = Some p" and "pr_digest p \<noteq> d" and "pr_view q = v"
  shows "map_of (prepares_at (add_prepare_message q a
           (snd (get_valid_prepare_count v (\<lambda>x. pr_digest x = d) s))) v) a = Some q"
proof -
  let ?s = "snd (get_valid_prepare_count v (\<lambda>x. pr_digest x = d) s)"
  have "map_of (prepares_at ?s v) a = None"
    using assms store_wfD(9) [OF assms(1), of v]
    by (simp add: store_laws hm_retain_def hm_wf_def map_of_filter_distinct)
  then show ?thesis
    using assms by (simp add: store_laws wf_intros map_add_Some_iff)
qed

theorem second_prepare_accepted_witness:
  "map_of (prepares_at (add_prepare_message
       \<lparr>prepare_message = prepare_new (view_new 4 0) [2], prepare_signature = Signature []\<rparr> (Address [7])
       (snd (get_valid_prepare_count (view_new 4 0) (\<lambda>x. pr_digest x = [2])
          (add_prepare_message \<lparr>prepare_message = prepare_new (view_new 4 0) [1], prepare_signature = Signature []\<rparr>
             (Address [7]) (messages_new (Address [])))))) (view_new 4 0)) (Address [7]) =
     Some \<lparr>prepare_message = prepare_new (view_new 4 0) [2], prepare_signature = Signature []\<rparr>"
  by (rule second_prepare_accepted [where
        p = "\<lparr>prepare_message = prepare_new (view_new 4 0) [1], prepare_signature = Signature []\<rparr>"])
    (simp_all add: wf_intros store_laws prepare_new_def)

end
