(* ===== verification/Ibft_Verify.thy ===== *)
theory Ibft_Verify
  imports Message_Handler "HOL-Library.Multiset"
begin

text \<open>
  The verification closures of \<open>ibft.rs\<close> (proposals of round 0 and of later rounds, round changes,
  prepared certificates), the assembly of a round change certificate in \<open>wait_rcc\<close>, and the round
  timeouts. Each checking loop is shown equivalent to a declarative description of what it accepts.
\<close>

text \<open>The fields of \<open>IBFT\<close> other than the message store and the broadcast handle.\<close>

record ibft =
  ibft_externals :: externals
  ibft_validators :: validator_manager
  ibft_blocks :: block_service
  ibft_signer :: signer
  base_round_time :: nat

subsection \<open>Prepared certificates\<close>

text \<open>The loop over the prepares; \<open>seen\<close> is the \<open>HashSet\<close> of validators inserted so far.\<close>

fun verify_prepares ::
    "externals \<Rightarrow> validator_manager \<Rightarrow> view \<Rightarrow> bytes \<Rightarrow> address \<Rightarrow> prepare_signed list \<Rightarrow> address list \<Rightarrow> bool" where
  "verify_prepares E V v d proposer [] seen = True"
| "verify_prepares E V v d proposer (p # ps) seen =
     (if v \<noteq> pr_view p then False
      else if pr_digest p \<noteq> d then False
      else (case prepare_recover_signer E p of
              Inl e \<Rightarrow> False
            | Inr validator \<Rightarrow>
                if validator = proposer \<or> \<not> is_validator V validator (view_height v) then False
                else if validator \<in> set seen then False
                else verify_prepares E V v d proposer ps (validator # seen)))"

definition verify_prepared_certificate ::
    "externals \<Rightarrow> validator_manager \<Rightarrow> prepared_certificate \<Rightarrow> u64 \<Rightarrow> u8 \<Rightarrow> bool" where
  "verify_prepared_certificate E V pc height round_limit =
     (let proposal = pc_proposal pc; v = meta_view proposal in
      if view_height v \<noteq> height \<or> view_round v \<ge> round_limit then False
      else (case meta_recover_signer E proposal of
              Inl e \<Rightarrow> False
            | Inr proposer \<Rightarrow>
                if \<not> is_proposer V proposer v then False
                else if length (pc_prepares pc) < usize_pred (quorum V height) then False
                else verify_prepares E V v (meta_digest proposal) proposer (pc_prepares pc) []))"

definition round_change_verify_fn ::
    "externals \<Rightarrow> validator_manager \<Rightarrow> u64 \<Rightarrow> round_change_signed \<Rightarrow> bool" where
  "round_change_verify_fn E V height rc =
     (case rcs_prepared rc of
        None \<Rightarrow> True
      | Some pp \<Rightarrow>
          if meta_digest (pc_proposal (pp_certificate pp)) \<noteq> proposed_block_digest E (pp_block pp) then False
          else verify_prepared_certificate E V (pp_certificate pp) height (view_round (rcs_view rc)))"

subsection \<open>Proposals\<close>

definition proposal_0_verify_fn ::
    "externals \<Rightarrow> block_service \<Rightarrow> proposal_signed \<Rightarrow> ibft_error + unit" where
  "proposal_0_verify_fn E B p =
     (if \<not> proposal_verify_block_digest E p then Inl IncorrectProposalDigest
      else (case verify_block B (raw_block (ps_block p)) of
              Inl e \<Rightarrow> Inl (InvalidProposalBlock e)
            | Inr _ \<Rightarrow> Inr ()))"

text \<open>The loop over the round changes of the certificate; the result is the highest round and its certificate.\<close>

fun verify_round_changes ::
    "externals \<Rightarrow> validator_manager \<Rightarrow> view \<Rightarrow> round_change_metadata list \<Rightarrow> address list \<Rightarrow>
     u8 \<Rightarrow> prepared_certificate option \<Rightarrow> ibft_error + (u8 \<times> prepared_certificate option)" where
  "verify_round_changes E V v [] seen highest_round highest_round_pc = Inr (highest_round, highest_round_pc)"
| "verify_round_changes E V v (rc # rcs) seen highest_round highest_round_pc =
     (if rcm_view rc \<noteq> v then Inl InvalidRoundChangeInCertificate
      else (case rcm_recover_signer E rc of
              Inl e \<Rightarrow> Inl InvalidRoundChangeInCertificate
            | Inr validator \<Rightarrow>
                if \<not> is_validator V validator (view_height v) then Inl InvalidRoundChangeInCertificate
                else if validator \<in> set seen then Inl DuplicateRoundChangeInCertificate
                else (case rcm_certificate rc of
                        None \<Rightarrow> verify_round_changes E V v rcs (validator # seen) highest_round highest_round_pc
                      | Some pc \<Rightarrow>
                          (let pc_round = view_round (meta_view (pc_proposal pc)) in
                           if pc_round > highest_round
                           then verify_round_changes E V v rcs (validator # seen) pc_round (Some pc)
                           else verify_round_changes E V v rcs (validator # seen) highest_round highest_round_pc))))"

definition proposal_1_verify_fn ::
    "externals \<Rightarrow> validator_manager \<Rightarrow> block_service \<Rightarrow> nat \<Rightarrow> proposal_signed \<Rightarrow> ibft_error + unit" where
  "proposal_1_verify_fn E V B q p =
     (if \<not> proposal_verify_block_digest E p then Inl IncorrectProposalDigest
      else (case proposal_rcc (proposal_message p) of
        None \<Rightarrow> Inl MissingRoundChangeCertificate
      | Some rcc \<Rightarrow>
          if length (rcc_messages rcc) < q then Inl RoundChangeCertificateQuorumNotReached
          else (case verify_round_changes E V (ps_view p) (rcc_messages rcc) [] 0 None of
            Inl e \<Rightarrow> Inl e
          | Inr (highest_round, Some pc) \<Rightarrow>
              if digest_block E (raw_block (ps_block p)) highest_round \<noteq> meta_digest (pc_proposal pc)
              then Inl InvalidRoundChangeInCertificate
              else if \<not> verify_prepared_certificate E V pc (view_height (ps_view p)) (view_round (ps_view p))
              then Inl InvalidRoundChangeInCertificate
              else Inr ()
          | Inr (highest_round, None) \<Rightarrow>
              (case verify_block B (raw_block (ps_block p)) of
                 Inl e \<Rightarrow> Inl (InvalidProposalBlock e)
               | Inr _ \<Rightarrow> Inr ()))))"

subsection \<open>Assembling a round change certificate (the end of wait\_rcc)\<close>

text \<open>\<open>Vec::swap_remove\<close>: the last element takes the place of the removed one.\<close>

definition swap_remove :: "nat \<Rightarrow> 'a list \<Rightarrow> 'a \<times> 'a list" where
  "swap_remove i xs = (xs ! i, butlast (xs[i := last xs]))"

fun position :: "('a \<Rightarrow> bool) \<Rightarrow> 'a list \<Rightarrow> nat option" where
  "position P [] = None"
| "position P (x # xs) = (if P x then Some 0 else map_option Suc (position P xs))"

text \<open>\<open>None\<close> is the panic of the \<open>let else\<close>.\<close>

definition assemble_rcc ::
    "round_change_signed list \<Rightarrow> (round_change_certificate \<times> bytes option) option" where
  "assemble_rcc round_changes =
     (case position (\<lambda>rc. rcs_prepared rc \<noteq> None) round_changes of
        Some pos \<Rightarrow>
          (let (round_change, rest) = swap_remove pos round_changes in
           case rc_into_metadata round_change of
             (None, metadata) \<Rightarrow> None
           | (Some block, metadata) \<Rightarrow>
               Some (\<lparr>rcc_messages = map (\<lambda>rc. snd (rc_into_metadata rc)) rest @ [metadata]\<rparr>,
                     Some (raw_block block)))
      | None \<Rightarrow> Some (\<lparr>rcc_messages = map (\<lambda>rc. snd (rc_into_metadata rc)) round_changes\<rparr>, None))"

subsection \<open>Round timeouts\<close>

text \<open>
  A \<open>Duration\<close> is its number of nanoseconds, at most \<open>DURATION_MAX\<close>; \<open>saturating_mul\<close> stops there.
  \<open>None\<close> is the panic of an index out of range.
\<close>

definition DURATION_MAX :: nat where
  "DURATION_MAX = (2 ^ 64 - 1) * 10 ^ 9 + 999999999"

definition duration_saturating_mul :: "nat \<Rightarrow> u32 \<Rightarrow> nat" where
  "duration_saturating_mul d k = min DURATION_MAX (d * unat k)"

definition TIMEOUT_MULTIPLIER :: "u32 list" where
  "TIMEOUT_MULTIPLIER = map (\<lambda>i. push_bit i 1) [0..<ROUND_ARRAY_SIZE]"

definition get_round_timeout :: "nat \<Rightarrow> u8 \<Rightarrow> nat option" where
  "get_round_timeout base round =
     (if unat round < length TIMEOUT_MULTIPLIER
      then Some (duration_saturating_mul base (TIMEOUT_MULTIPLIER ! unat round)) else None)"

subsection \<open>What the checks accept\<close>

text \<open>Every message of the list has a recoverable signer; \<open>as\<close> are the signers in order.\<close>

definition signed_by :: "('m \<Rightarrow> address anyhow) \<Rightarrow> 'm list \<Rightarrow> address list \<Rightarrow> bool" where
  "signed_by recover ms as \<longleftrightarrow> map recover ms = map Inr as"

definition prepared_certificate_valid ::
    "externals \<Rightarrow> validator_manager \<Rightarrow> prepared_certificate \<Rightarrow> u64 \<Rightarrow> u8 \<Rightarrow> bool" where
  "prepared_certificate_valid E V pc h limit \<longleftrightarrow>
     (let meta = pc_proposal pc; v = meta_view meta in
      view_height v = h \<and> view_round v < limit \<and>
      (\<exists>proposer as. meta_recover_signer E meta = Inr proposer \<and> is_proposer V proposer v \<and>
         signed_by (prepare_recover_signer E) (pc_prepares pc) as \<and> distinct as \<and>
         usize_pred (quorum V h) \<le> length (pc_prepares pc) \<and> proposer \<notin> set as \<and> (\<forall>a \<in> set as. is_validator V a h) \<and>
         (\<forall>p \<in> set (pc_prepares pc). pr_view p = v \<and> pr_digest p = meta_digest meta)))"

definition round_changes_valid ::
    "externals \<Rightarrow> validator_manager \<Rightarrow> view \<Rightarrow> round_change_metadata list \<Rightarrow> address list \<Rightarrow> bool" where
  "round_changes_valid E V v rcs as \<longleftrightarrow>
     signed_by (rcm_recover_signer E) rcs as \<and> distinct as \<and> (\<forall>a \<in> set as. is_validator V a (view_height v)) \<and>
     (\<forall>rc \<in> set rcs. rcm_view rc = v)"

definition certificate_round :: "prepared_certificate \<Rightarrow> u8" where
  "certificate_round pc = view_round (meta_view (pc_proposal pc))"

text \<open>The first certificate of the highest round, if that round is not 0.\<close>

definition highest_certificate :: "round_change_metadata list \<Rightarrow> prepared_certificate \<Rightarrow> bool" where
  "highest_certificate rcs pc \<longleftrightarrow>
     (\<exists>ys rc zs. rcs = ys @ rc # zs \<and> rcm_certificate rc = Some pc \<and> certificate_round pc \<noteq> 0 \<and>
        (\<forall>x \<in> set ys. \<forall>c. rcm_certificate x = Some c \<longrightarrow> certificate_round c < certificate_round pc) \<and>
        (\<forall>x \<in> set zs. \<forall>c. rcm_certificate x = Some c \<longrightarrow> certificate_round c \<le> certificate_round pc))"

definition only_round_0_certificates :: "round_change_metadata list \<Rightarrow> bool" where
  "only_round_0_certificates rcs \<longleftrightarrow>
     (\<forall>rc \<in> set rcs. \<forall>pc. rcm_certificate rc = Some pc \<longrightarrow> certificate_round pc = 0)"

lemma signed_by_Nil [simp]: "signed_by f [] as \<longleftrightarrow> as = []"
  by (auto simp: signed_by_def)

lemma signed_by_Cons [simp]:
  "(\<exists>as. signed_by f (m # ms) as \<and> P as) \<longleftrightarrow> (\<exists>a bs. f m = Inr a \<and> signed_by f ms bs \<and> P (a # bs))"
proof -
  have eq: "signed_by f (m # ms) as \<longleftrightarrow> (\<exists>a bs. as = a # bs \<and> f m = Inr a \<and> signed_by f ms bs)" for as
    by (cases as) (auto simp: signed_by_def)
  show ?thesis unfolding eq by blast
qed

lemma signed_by_length: "signed_by f ms as \<Longrightarrow> length as = length ms"
  unfolding signed_by_def by (metis length_map)

lemma verify_prepares_iff:
  "verify_prepares E V v d proposer ps seen \<longleftrightarrow>
     (\<exists>as. signed_by (prepare_recover_signer E) ps as \<and> distinct as \<and> set as \<inter> set seen = {} \<and>
        proposer \<notin> set as \<and> (\<forall>a \<in> set as. is_validator V a (view_height v)) \<and>
        (\<forall>p \<in> set ps. pr_view p = v \<and> pr_digest p = d))"
proof (induction ps arbitrary: v d seen)
  case (Cons p ps)
  show ?case by (auto simp: Cons.IH split: sum.split)
qed simp

lemma verify_prepared_certificate_iff:
  "verify_prepared_certificate E V pc h limit \<longleftrightarrow> prepared_certificate_valid E V pc h limit"
  by (auto simp: verify_prepared_certificate_def prepared_certificate_valid_def verify_prepares_iff Let_def
      not_le not_less dest: signed_by_length split: sum.split)

lemma round_change_verifyD:
  assumes "round_change_verify_fn E V h rc" and "rcs_prepared rc = Some pp"
  shows "meta_digest (pc_proposal (pp_certificate pp)) = proposed_block_digest E (pp_block pp)"
    and "prepared_certificate_valid E V (pp_certificate pp) h (view_round (rcs_view rc))"
  using assms by (auto simp: round_change_verify_fn_def verify_prepared_certificate_iff split: if_splits)

text \<open>What the loop over the round changes has computed when it ends without an error.\<close>

fun highest_prepared ::
    "round_change_metadata list \<Rightarrow> u8 \<times> prepared_certificate option \<Rightarrow> u8 \<times> prepared_certificate option" where
  "highest_prepared [] acc = acc"
| "highest_prepared (rc # rcs) acc =
     highest_prepared rcs
       (case rcm_certificate rc of
          Some pc \<Rightarrow> if certificate_round pc > fst acc then (certificate_round pc, Some pc) else acc
        | None \<Rightarrow> acc)"

lemma verify_round_changes_iff:
  "verify_round_changes E V v rcs seen r pc = Inr res \<longleftrightarrow>
     (\<exists>as. round_changes_valid E V v rcs as \<and> set as \<inter> set seen = {}) \<and> res = highest_prepared rcs (r, pc)"
  unfolding round_changes_valid_def conj_assoc
proof (induction rcs arbitrary: v seen r pc)
  case (Cons rc rcs)
  show ?case
    by (auto simp: Cons.IH certificate_round_def Let_def split: sum.split option.split)
qed auto

lemma highest_prepared_append:
  "highest_prepared (xs @ ys) acc = highest_prepared ys (highest_prepared xs acc)"
  by (induction xs arbitrary: acc) auto

lemma highest_prepared_below:
  assumes "fst acc < r" and "\<forall>x \<in> set rcs. \<forall>c. rcm_certificate x = Some c \<longrightarrow> certificate_round c < r"
  shows "fst (highest_prepared rcs acc) < r"
  using assms by (induction rcs arbitrary: acc) (auto split: option.split)

lemma highest_prepared_same:
  assumes "\<forall>x \<in> set rcs. \<forall>c. rcm_certificate x = Some c \<longrightarrow> certificate_round c \<le> fst acc"
  shows "highest_prepared rcs acc = acc"
  using assms by (induction rcs) (auto split: option.split)

lemma highest_prepared_cases:
  "highest_prepared rcs acc = acc \<and>
     (\<forall>x \<in> set rcs. \<forall>c. rcm_certificate x = Some c \<longrightarrow> certificate_round c \<le> fst acc) \<or>
   (\<exists>pc ys rc zs. highest_prepared rcs acc = (certificate_round pc, Some pc) \<and> fst acc < certificate_round pc \<and>
      rcs = ys @ rc # zs \<and> rcm_certificate rc = Some pc \<and>
      (\<forall>x \<in> set ys. \<forall>c. rcm_certificate x = Some c \<longrightarrow> certificate_round c < certificate_round pc) \<and>
      (\<forall>x \<in> set zs. \<forall>c. rcm_certificate x = Some c \<longrightarrow> certificate_round c \<le> certificate_round pc))"
  (is "?same rcs \<or> ?new rcs")
proof (induction rcs rule: rev_induct)
  case (snoc x xs)
  let ?r = "highest_prepared xs acc"
  show ?case
  proof (cases "\<exists>c. rcm_certificate x = Some c \<and> fst ?r < certificate_round c")
    case True
    then obtain c where c: "rcm_certificate x = Some c" "fst ?r < certificate_round c" by blast
    have "\<forall>y \<in> set xs. \<forall>d. rcm_certificate y = Some d \<longrightarrow> certificate_round d < certificate_round c"
      and "fst acc < certificate_round c"
      using snoc.IH c(2) by (elim disjE exE conjE; auto dest: le_less_trans less_trans)+
    then have "?new (xs @ [x])"
      using c by (intro exI [of _ c] exI [of _ xs] exI [of _ x] exI [of _ "[]"]) (simp add: highest_prepared_append)
    then show ?thesis ..
  next
    case False
    then have eq: "highest_prepared (xs @ [x]) acc = ?r"
      and le: "\<forall>d. rcm_certificate x = Some d \<longrightarrow> certificate_round d \<le> fst ?r"
      by (auto simp: highest_prepared_append not_less split: option.split)
    show ?thesis
      using snoc.IH
    proof (elim disjE)
      assume "?same xs"
      then show ?thesis using eq le by auto
    next
      assume "?new xs"
      then obtain pc ys rc zs where "highest_prepared xs acc = (certificate_round pc, Some pc)"
        "fst acc < certificate_round pc" "xs = ys @ rc # zs" "rcm_certificate rc = Some pc"
        "\<forall>x \<in> set ys. \<forall>c. rcm_certificate x = Some c \<longrightarrow> certificate_round c < certificate_round pc"
        "\<forall>x \<in> set zs. \<forall>c. rcm_certificate x = Some c \<longrightarrow> certificate_round c \<le> certificate_round pc" by blast
      then have "?new (xs @ [x])"
        using eq le by (intro exI [of _ pc] exI [of _ ys] exI [of _ rc] exI [of _ "zs @ [x]"]) auto
      then show ?thesis ..
    qed
  qed
qed simp

lemma highest_prepared_Some_iff:
  "highest_prepared rcs (0, None) = (r, Some pc) \<longleftrightarrow> highest_certificate rcs pc \<and> r = certificate_round pc"
proof
  assume "highest_prepared rcs (0, None) = (r, Some pc)"
  then show "highest_certificate rcs pc \<and> r = certificate_round pc"
    using highest_prepared_cases [of rcs "(0, None)"] unfolding highest_certificate_def
    by (auto simp: word_neq_0_conv)
next
  assume h: "highest_certificate rcs pc \<and> r = certificate_round pc"
  then obtain ys rc zs where dec: "rcs = ys @ rc # zs" "rcm_certificate rc = Some pc" "certificate_round pc \<noteq> 0"
    "\<forall>x \<in> set ys. \<forall>c. rcm_certificate x = Some c \<longrightarrow> certificate_round c < certificate_round pc"
    "\<forall>x \<in> set zs. \<forall>c. rcm_certificate x = Some c \<longrightarrow> certificate_round c \<le> certificate_round pc"
    unfolding highest_certificate_def by blast
  have "fst (highest_prepared ys (0, None)) < certificate_round pc"
    by (rule highest_prepared_below [OF _ dec(4)]) (use dec(3) in \<open>simp add: word_neq_0_conv\<close>)
  then show "highest_prepared rcs (0, None) = (r, Some pc)"
    using dec(1,2) h highest_prepared_same [of zs "(certificate_round pc, Some pc)"] dec(5)
    by (simp add: highest_prepared_append)
qed

lemma highest_prepared_None_iff:
  "(\<exists>r. highest_prepared rcs (0, None) = (r, None)) \<longleftrightarrow> only_round_0_certificates rcs"
  using highest_prepared_cases [of rcs "(0, None)"] highest_prepared_same [of rcs "(0, None)"]
  by (auto simp: only_round_0_certificates_def)

lemma highest_exists: "\<not> only_round_0_certificates rcs \<Longrightarrow> \<exists>pc. highest_certificate rcs pc"
  using highest_prepared_None_iff [of rcs] highest_prepared_Some_iff [of rcs]
  by (cases "highest_prepared rcs (0, None)") (metis option.exhaust)

lemma highest_certificateD:
  assumes "highest_certificate rcs pc"
  shows "\<exists>rc \<in> set rcs. rcm_certificate rc = Some pc"
    and "rc \<in> set rcs \<Longrightarrow> rcm_certificate rc = Some c \<Longrightarrow> certificate_round c \<le> certificate_round pc"
  using assms unfolding highest_certificate_def by (auto simp: less_imp_le)

lemma proposal_0_accepts_iff:
  "proposal_0_verify_fn E B p = Inr () \<longleftrightarrow>
     proposal_verify_block_digest E p \<and> verify_block B (raw_block (ps_block p)) = Inr ()"
  by (simp add: proposal_0_verify_fn_def split: sum.split)

lemma proposal_1_accepts_iff:
  "proposal_1_verify_fn E V B q p = Inr () \<longleftrightarrow>
     proposal_verify_block_digest E p \<and>
     (\<exists>rcc as. proposal_rcc (proposal_message p) = Some rcc \<and> q \<le> length (rcc_messages rcc) \<and>
        round_changes_valid E V (ps_view p) (rcc_messages rcc) as \<and>
        ((\<exists>pc. highest_certificate (rcc_messages rcc) pc \<and>
            digest_block E (raw_block (ps_block p)) (certificate_round pc) = meta_digest (pc_proposal pc) \<and>
            prepared_certificate_valid E V pc (view_height (ps_view p)) (view_round (ps_view p))) \<or>
         only_round_0_certificates (rcc_messages rcc) \<and> verify_block B (raw_block (ps_block p)) = Inr ()))"
proof (cases "proposal_rcc (proposal_message p)")
  case (Some rcc)
  obtain r c where hp: "highest_prepared (rcc_messages rcc) (0, None) = (r, c)"
    by (cases "highest_prepared (rcc_messages rcc) (0, None)")
  have hc: "highest_certificate (rcc_messages rcc) pc \<longleftrightarrow> r = certificate_round pc \<and> c = Some pc" for pc
    using highest_prepared_Some_iff [of "rcc_messages rcc" "certificate_round pc" pc] hp by simp
  have cr: "r = certificate_round pc" if "c = Some pc" for pc
    using highest_prepared_Some_iff [of "rcc_messages rcc" r pc] hp that by simp
  have r0: "only_round_0_certificates (rcc_messages rcc) \<longleftrightarrow> c = None"
    using highest_prepared_None_iff [of "rcc_messages rcc"] hp by simp
  show ?thesis
  proof (cases "\<exists>as. round_changes_valid E V (ps_view p) (rcc_messages rcc) as")
    case True
    then have "verify_round_changes E V (ps_view p) (rcc_messages rcc) [] 0 None = Inr (r, c)"
      by (simp add: verify_round_changes_iff hp)
    then show ?thesis
      using Some True cr
      by (cases c) (auto simp: proposal_1_verify_fn_def verify_prepared_certificate_iff not_less hc r0 split: sum.split)
  next
    case False
    then have "verify_round_changes E V (ps_view p) (rcc_messages rcc) [] 0 None \<noteq> Inr x" for x
      by (simp add: verify_round_changes_iff)
    then show ?thesis
      using Some False by (auto simp: proposal_1_verify_fn_def split: sum.split)
  qed
qed (simp add: proposal_1_verify_fn_def)

subsection \<open>The assembled certificate\<close>

lemma position_Some:
  assumes "position P xs = Some i"
  shows "i < length xs" and "P (xs ! i)" and "find P xs = Some (xs ! i)"
  using assms by (induction xs arbitrary: i) (auto split: if_splits)

lemma position_None: "position P xs = None \<longleftrightarrow> (\<forall>x \<in> set xs. \<not> P x)"
  by (induction xs) auto

lemma mset_swap_remove:
  assumes "i < length xs"
  shows "add_mset (xs ! i) (mset (snd (swap_remove i xs))) = mset xs"
proof -
  let ?l = "xs[i := last xs]"
  have ne: "?l \<noteq> []" using assms by auto
  have "mset (butlast ?l) + {#last ?l#} = mset ?l"
    using ne by (metis append_butlast_last_id mset_append mset_single_iff_right mset.simps)
  moreover have "last ?l = last xs"
    using assms ne by (simp add: last_conv_nth nth_list_update)
  moreover have "mset ?l = add_mset (last xs) (mset xs - {#xs ! i#})"
    using assms by (simp add: mset_update)
  ultimately have "mset (butlast ?l) = mset xs - {#xs ! i#}" by simp
  then show ?thesis
    using assms by (simp add: swap_remove_def)
qed

lemma assemble_rcc_total:
  obtains rcc raw where "assemble_rcc rcs = Some (rcc, raw)"
    and "mset (rcc_messages rcc) = image_mset (\<lambda>rc. snd (rc_into_metadata rc)) (mset rcs)"
    and "raw = map_option (\<lambda>rc. raw_block (pp_block (the (rcs_prepared rc)))) (find (\<lambda>rc. rcs_prepared rc \<noteq> None) rcs)"
proof (cases "position (\<lambda>rc. rcs_prepared rc \<noteq> None) rcs")
  case None
  then have "find (\<lambda>rc. rcs_prepared rc \<noteq> None) rcs = None"
    by (simp add: position_None find_None_iff)
  then show thesis
    using None that by (simp add: assemble_rcc_def)
next
  case (Some i)
  note pos = position_Some [OF Some]
  then obtain pp where pp: "rcs_prepared (rcs ! i) = Some pp" by auto
  let ?rest = "snd (swap_remove i rcs)"
  have fst: "fst (swap_remove i rcs) = rcs ! i" by (simp add: swap_remove_def)
  have "assemble_rcc rcs =
      Some (\<lparr>rcc_messages = map (\<lambda>rc. snd (rc_into_metadata rc)) ?rest @ [snd (rc_into_metadata (rcs ! i))]\<rparr>,
            Some (raw_block (pp_block pp)))"
    using into_metadata_block [of "rcs ! i"] fst pp unfolding assemble_rcc_def Some option.case
    by (cases "rc_into_metadata (rcs ! i)") (simp add: case_prod_unfold Let_def)
  moreover have "image_mset (\<lambda>rc. snd (rc_into_metadata rc)) (mset rcs) =
      mset (map (\<lambda>rc. snd (rc_into_metadata rc)) ?rest @ [snd (rc_into_metadata (rcs ! i))])"
    unfolding mset_swap_remove [OF pos(1), symmetric] by simp
  ultimately show thesis
    using that pos(3) pp by (simp del: not_None_eq)
qed

lemma signed_by_projr:
  assumes "signed_by f ms as"
  shows "as = map (\<lambda>m. projr (f m)) ms" and "\<forall>m \<in> set ms. f m = Inr (projr (f m))"
proof -
  have *: "map f ms = map Inr as" using assms by (simp add: signed_by_def)
  then have "map projr (map f ms) = map projr (map Inr as)" by simp
  then show as: "as = map (\<lambda>m. projr (f m)) ms" by (simp add: comp_def)
  show "\<forall>m \<in> set ms. f m = Inr (projr (f m))"
    using * by (auto simp: in_set_conv_nth list_eq_iff_nth_eq)
qed

text \<open>Validity of the round changes does not depend on the order in which the certificate lists them.\<close>

lemma round_changes_permute:
  assumes "signed_by (rc_recover_signer E) rcs as" and "distinct as"
    and "\<forall>a \<in> set as. is_validator V a (view_height v)" and "\<forall>rc \<in> set rcs. rcs_view rc = v"
    and perm: "mset ms = image_mset (\<lambda>rc. snd (rc_into_metadata rc)) (mset rcs)"
  shows "\<exists>bs. round_changes_valid E V v ms bs"
proof -
  let ?g = "\<lambda>m. projr (rcm_recover_signer E m)"
  have set: "set ms = (\<lambda>rc. snd (rc_into_metadata rc)) ` set rcs"
    using perm by (metis set_image_mset set_mset_mset)
  note signers = signed_by_projr [OF assms(1)]
  have "mset (map ?g ms) = mset as"
    using perm signers(1) by (simp add: image_mset.compositionality comp_def)
  then have "distinct (map ?g ms)" and "set (map ?g ms) = set as"
    using assms(2) mset_eq_imp_distinct_iff mset_eq_setD by blast+
  moreover have "signed_by (rcm_recover_signer E) ms (map ?g ms)"
    using signers(2) unfolding signed_by_def set by (auto simp: set)
  ultimately show ?thesis
    using assms(3,4) by (intro exI [of _ "map ?g ms"]) (auto simp: round_changes_valid_def set)
qed

lemma highest_mismatch_rejected:
  assumes "round_changes_valid E V v (rcc_messages rcc) as" and "q \<le> length (rcc_messages rcc)" and "highest_certificate (rcc_messages rcc) pc"
    and "digest_block E raw (certificate_round pc) \<noteq> meta_digest (pc_proposal pc)"
    and "proposal_message p = proposal_new E v raw (Some rcc)"
  shows "proposal_1_verify_fn E V B q p = Inl InvalidRoundChangeInCertificate"
proof -
  have "highest_prepared (rcc_messages rcc) (0, None) = (certificate_round pc, Some pc)"
    using assms(3) by (simp add: highest_prepared_Some_iff)
  then have "verify_round_changes E V v (rcc_messages rcc) [] 0 None = Inr (certificate_round pc, Some pc)"
    using assms(1) by (auto simp: verify_round_changes_iff)
  then show ?thesis
    using assms by (simp add: proposal_1_verify_fn_def proposal_new_def proposal_verify_block_digest_def Let_def)
qed

definition first_prepared :: "round_change_signed list \<Rightarrow> round_change_signed option" where
  "first_prepared rcs = find (\<lambda>rc. rcs_prepared rc \<noteq> None) rcs"

lemma first_prepared_None: "first_prepared rcs = None \<longleftrightarrow> (\<forall>rc \<in> set rcs. rcs_prepared rc = None)"
  by (auto simp: first_prepared_def find_None_iff)

lemma first_prepared_mem: "first_prepared rcs = Some rc \<Longrightarrow> rc \<in> set rcs"
  by (auto simp: first_prepared_def find_Some_iff)

lemma assembled:
  assumes "signed_by (rc_recover_signer E) rcs as" and "distinct as"
    and "\<forall>a \<in> set as. is_validator V a (view_height v)" and "\<forall>rc \<in> set rcs. rcs_view rc = v"
  obtains rcc bs where
    "assemble_rcc rcs =
       Some (rcc, map_option (\<lambda>rc. raw_block (pp_block (the (rcs_prepared rc)))) (first_prepared rcs))"
    and "round_changes_valid E V v (rcc_messages rcc) bs"
    and "set (rcc_messages rcc) = (\<lambda>rc. snd (rc_into_metadata rc)) ` set rcs"
    and "length (rcc_messages rcc) = length rcs"
proof -
  obtain rcc raw where rcc: "assemble_rcc rcs = Some (rcc, raw)"
    "mset (rcc_messages rcc) = image_mset (\<lambda>rc. snd (rc_into_metadata rc)) (mset rcs)"
    "raw = map_option (\<lambda>rc. raw_block (pp_block (the (rcs_prepared rc)))) (first_prepared rcs)"
    unfolding first_prepared_def by (rule assemble_rcc_total)
  obtain bs where "round_changes_valid E V v (rcc_messages rcc) bs"
    using round_changes_permute [OF assms rcc(2)] by blast
  moreover have "set (rcc_messages rcc) = (\<lambda>rc. snd (rc_into_metadata rc)) ` set rcs"
    "length (rcc_messages rcc) = length rcs"
    using rcc(2) by (metis set_image_mset set_mset_mset, metis size_image_mset size_mset)
  ultimately show thesis using that rcc(1,3) by blast
qed

text \<open>The certificate chosen by the verifier comes from one of the round changes, and is maximal.\<close>

lemma highest_assembled:
  assumes "set ms = (\<lambda>rc. snd (rc_into_metadata rc)) ` set rcs"
    and "rc1 \<in> set rcs" and "rcs_prepared rc1 = Some pp1" and "certificate_round (pp_certificate pp1) \<noteq> 0"
  obtains rc pp where "highest_certificate ms (pp_certificate pp)" and "rc \<in> set rcs" and "rcs_prepared rc = Some pp"
    and "certificate_round (pp_certificate pp1) \<le> certificate_round (pp_certificate pp)"
proof -
  let ?m = "snd (rc_into_metadata rc1)"
  have m: "?m \<in> set ms" "rcm_certificate ?m = Some (pp_certificate pp1)" using assms by simp_all
  then have "\<not> only_round_0_certificates ms"
    using assms(4) unfolding only_round_0_certificates_def by blast
  then obtain pc where pc: "highest_certificate ms pc" using highest_exists by blast
  then obtain rc pp where "rc \<in> set rcs" "rcs_prepared rc = Some pp" "pp_certificate pp = pc"
    using highest_certificateD(1) [OF pc] assms(1) by auto
  then show thesis using that pc highest_certificateD(2) [OF pc m] by blast
qed

subsection \<open>Properties\<close>

text \<open>C18: The check of a prepared certificate accepts exactly the certificates of the given height
  and a lower round whose proposal is signed by the proposer of its view and whose prepares, at
  least quorum minus one of them, are signed by pairwise distinct validators other than the
  proposer, all for the view and the digest of that proposal.\<close>

theorem prepared_certificate_check:
  "verify_prepared_certificate E V pc h limit = prepared_certificate_valid E V pc h limit"
  by (rule verify_prepared_certificate_iff)

text \<open>C19: A proposal of a later round is accepted exactly when its digest is right, it carries a
  quorum of round changes for its view by distinct validators, and either its block is the one of
  the first certificate of the highest round above 0 and that certificate is valid, or no round
  change carries a certificate of a round above 0 and the block service accepts the block.\<close>

theorem proposal_1_check:
  "proposal_1_verify_fn E V B q p = Inr () \<longleftrightarrow>
     proposal_verify_block_digest E p \<and>
     (\<exists>rcc as. proposal_rcc (proposal_message p) = Some rcc \<and> q \<le> length (rcc_messages rcc) \<and>
        round_changes_valid E V (ps_view p) (rcc_messages rcc) as \<and>
        ((\<exists>pc. highest_certificate (rcc_messages rcc) pc \<and>
            digest_block E (raw_block (ps_block p)) (certificate_round pc) = meta_digest (pc_proposal pc) \<and>
            prepared_certificate_valid E V pc (view_height (ps_view p)) (view_round (ps_view p))) \<or>
         only_round_0_certificates (rcc_messages rcc) \<and> verify_block B (raw_block (ps_block p)) = Inr ()))"
  by (rule proposal_1_accepts_iff)

lemma proposal_new_simps [simp]:
  "proposal_view (proposal_new E v raw rcc) = v" "proposal_rcc (proposal_new E v raw rcc) = rcc"
  "proposal_block (proposal_new E v raw rcc) = \<lparr>raw_block = raw, block_round = view_round v\<rparr>"
  by (simp_all add: proposal_new_def Let_def)

lemma proposal_new_digest:
  "proposal_message p = proposal_new E v raw rcc \<Longrightarrow> proposal_verify_block_digest E p"
  by (simp add: proposal_verify_block_digest_def proposal_new_def Let_def)

text \<open>C28: Prepared certificates of round 0 do not bind the next proposer: with a quorum of round
  changes that all carry certificates of round 0, whatever block these are for, a proposal of any
  other block that the block service accepts is valid.\<close>

theorem round_0_certificates_ignored:
  assumes "round_changes_valid E V v rcs as" and "q \<le> length rcs" and "only_round_0_certificates rcs"
    and "verify_block B raw = Inr ()" and "proposal_message p = proposal_new E v raw (Some \<lparr>rcc_messages = rcs\<rparr>)"
  shows "proposal_1_verify_fn E V B q p = Inr ()"
  unfolding proposal_1_accepts_iff using assms proposal_new_digest [OF assms(5)] by auto

text \<open>A certificate of view \<open>v\<close> for the block \<open>raw\<close>: proposed by validator \<open>n\<close>, prepared by \<open>k\<close> and \<open>l\<close>.\<close>

definition sample_prepared :: "u8 \<Rightarrow> view \<Rightarrow> bytes \<Rightarrow> u8 \<Rightarrow> u8 \<Rightarrow> prepared_proposed" where
  "sample_prepared n v raw k l =
     (let p = sample_proposal n (proposal_new sample_externals v raw None)
      in prepared_proposed_new p [sample_prepare k v (ps_digest p), sample_prepare l v (ps_digest p)])"

lemma sample_prepared_simps [simp]:
  "pp_block (sample_prepared n v raw k l) = \<lparr>raw_block = raw, block_round = view_round v\<rparr>"
  "certificate_round (pp_certificate (sample_prepared n v raw k l)) = view_round v"
  "meta_digest (pc_proposal (pp_certificate (sample_prepared n v raw k l))) =
     digest_block sample_externals raw (view_round v)"
  by (simp_all add: sample_prepared_def prepared_proposed_new_def Let_def certificate_round_def)
    (simp add: proposal_new_def proposed_block_digest_def Let_def)

lemma sample_prepared_valid:
  assumes "is_proposer sample_manager (Address (replicate 24 n)) v" and "view_round v < limit"
    and "k \<noteq> n" and "l \<noteq> n" and "k \<noteq> l" and "{k, l} \<subseteq> {1, 2, 3, 4}"
  shows "prepared_certificate_valid sample_externals sample_manager
     (pp_certificate (sample_prepared n v raw k l)) (view_height v) limit"
proof -
  let ?p = "sample_proposal n (proposal_new sample_externals v raw None)"
  have cert: "pc_proposal (pp_certificate (sample_prepared n v raw k l)) =
      \<lparr>meta_view = v, meta_digest = ps_digest ?p, meta_signature = proposal_signature ?p\<rparr>"
    "pc_prepares (pp_certificate (sample_prepared n v raw k l)) =
      [sample_prepare k v (ps_digest ?p), sample_prepare l v (ps_digest ?p)]"
    by (simp_all add: sample_prepared_def prepared_proposed_new_def Let_def)
  have "meta_recover_signer sample_externals (pc_proposal (pp_certificate (sample_prepared n v raw k l))) =
      Inr (Address (replicate 24 n))"
    using prepared_proposed_new_recover [of sample_externals ?p] by (simp add: sample_prepared_def Let_def)
  then show ?thesis
    using assms unfolding prepared_certificate_valid_def Let_def cert
    by (auto simp: prepare_new_def usize_pred_def)
qed

text \<open>Three validators are prepared on block 1 in round 0; the proposal of round 1 is for block 9.\<close>

definition sample_certificate :: prepared_proposed where
  "sample_certificate = sample_prepared 1 (view_new 0 0) [1] 2 3"

definition sample_round_changes :: "round_change_metadata list" where
  "sample_round_changes =
     map (\<lambda>n. snd (rc_into_metadata (sample_round_change n (view_new 0 1) (Some sample_certificate)))) [2, 3, 4]"

lemma sample_certificate_valid:
  "prepared_certificate_valid sample_externals sample_manager (pp_certificate sample_certificate) 0 1"
  using sample_prepared_valid [of 1 "view_new 0 0" 1 2 3 "[1]"] by (simp add: sample_certificate_def view_new_def)

lemma sample_round_changes_valid:
  "round_changes_valid sample_externals sample_manager (view_new 0 1) sample_round_changes
     (map (\<lambda>n. Address (replicate 24 n)) [2, 3, 4])"
  by (simp add: round_changes_valid_def sample_round_changes_def signed_by_def rc_new_def view_new_def)

theorem round_0_certificates_ignored_witness:
  "verify_prepared_certificate sample_externals sample_manager (pp_certificate sample_certificate) 0 1 \<and>
   raw_block (pp_block sample_certificate) = [1] \<and>
   proposal_1_verify_fn sample_externals sample_manager \<lparr>verify_block = \<lambda>_. Inr ()\<rparr> (quorum sample_manager 0)
     (sample_proposal 2 (proposal_new sample_externals (view_new 0 1) [9] (Some \<lparr>rcc_messages = sample_round_changes\<rparr>))) =
     Inr ()"
proof -
  have "only_round_0_certificates sample_round_changes"
    by (simp add: only_round_0_certificates_def sample_round_changes_def rc_new_def sample_certificate_def view_new_def)
  then show ?thesis
    using round_0_certificates_ignored [OF sample_round_changes_valid, of 3 "\<lparr>verify_block = \<lambda>_. Inr ()\<rparr>" "[9]"
        "sample_proposal 2 (proposal_new sample_externals (view_new 0 1) [9] (Some \<lparr>rcc_messages = sample_round_changes\<rparr>))"]
    by (simp add: verify_prepared_certificate_iff sample_certificate_valid)
      (simp add: sample_round_changes_def sample_certificate_def)
qed

text \<open>C33: The round written in a proposed block is not compared with the round of the view: the
  proposer of a view can sign a proposal for an acceptable block under any block round, and the
  verification of round 0 accepts it. A block finalized from it carries that round in its proof.\<close>

theorem block_round_unchecked:
  assumes "externals_ok E" and "signer_wf E sg" and "verify_block B raw = Inr ()"
  shows "\<exists>p. ps_view p = v \<and> proposal_recover_signer E p = Inr (signer_address sg) \<and>
     block_round (ps_block p) = r \<and> proposal_0_verify_fn E B p = Inr () \<and>
     proof_round (final_proof (finalized_block_new (ps_block p) seals)) = r"
proof -
  let ?b = "\<lparr>raw_block = raw, block_round = r\<rparr>"
  let ?m = "\<lparr>proposal_view = v, proposal_block = ?b, proposal_digest = proposed_block_digest E ?b, proposal_rcc = None\<rparr>"
  obtain p where p: "proposal_into_signed E ?m sg = Some p" "proposal_message p = ?m"
    "proposal_recover_signer E p = Inr (signer_address sg)"
    by (rule proposal_into_signed_recovers [OF assms(1,2)])
  then show ?thesis
    using assms(3)
    by (intro exI [of _ p]) (simp add: proposal_0_accepts_iff proposal_verify_block_digest_def
        finalized_block_new_def finalization_proof_new_def)
qed

theorem block_round_unchecked_witness:
  "\<exists>p. ps_view p = view_new 0 0 \<and> proposal_recover_signer sample_externals p = Inr (signer_address (sample_signer 1)) \<and>
     block_round (ps_block p) = 7 \<and> proposal_0_verify_fn sample_externals mock_block_service p = Inr ()"
proof -
  have "verify_block mock_block_service [1, 2, 3] = Inr ()"
    by (simp add: mock_block_service_def mock_verify_block_def)
  from block_round_unchecked [OF sample_externals_ok sample_signer_wf this]
  show ?thesis by blast
qed

text \<open>C29: The block re-proposed after a round change is the one of the first round change that has
  a prepared block, not of the highest round: when another round change has a certificate of a
  higher round and no certificate of a higher round is for that block, validators reject the
  proposal that \<open>wait_rcc\<close> leads to.\<close>

theorem first_prepared_rejected:
  assumes "signed_by (rc_recover_signer E) rcs as" and "distinct as"
    and "\<forall>a \<in> set as. is_validator V a (view_height v)" and "\<forall>rc \<in> set rcs. rcs_view rc = v"
    and "q \<le> length rcs"
    and "first_prepared rcs = Some rc0" and "rcs_prepared rc0 = Some pp0"
    and "rc1 \<in> set rcs" and "rcs_prepared rc1 = Some pp1"
    and "certificate_round (pp_certificate pp0) < certificate_round (pp_certificate pp1)"
    and "\<forall>rc \<in> set rcs. \<forall>pp. rcs_prepared rc = Some pp \<longrightarrow>
           certificate_round (pp_certificate pp0) < certificate_round (pp_certificate pp) \<longrightarrow>
           meta_digest (pc_proposal (pp_certificate pp)) \<noteq>
             digest_block E (raw_block (pp_block pp0)) (certificate_round (pp_certificate pp))"
  shows "\<exists>rcc. assemble_rcc rcs = Some (rcc, Some (raw_block (pp_block pp0))) \<and>
     (\<forall>p. proposal_message p = proposal_new E v (raw_block (pp_block pp0)) (Some rcc) \<longrightarrow>
        proposal_1_verify_fn E V B q p = Inl InvalidRoundChangeInCertificate)"
proof -
  obtain rcc bs where rcc: "assemble_rcc rcs =
       Some (rcc, map_option (\<lambda>rc. raw_block (pp_block (the (rcs_prepared rc)))) (first_prepared rcs))"
    "round_changes_valid E V v (rcc_messages rcc) bs"
    "set (rcc_messages rcc) = (\<lambda>rc. snd (rc_into_metadata rc)) ` set rcs"
    "length (rcc_messages rcc) = length rcs"
    by (rule assembled [OF assms(1-4)])
  have "certificate_round (pp_certificate pp1) \<noteq> 0" using assms(10) by auto
  then obtain rc pp where pp: "highest_certificate (rcc_messages rcc) (pp_certificate pp)"
    "rc \<in> set rcs" "rcs_prepared rc = Some pp"
    "certificate_round (pp_certificate pp1) \<le> certificate_round (pp_certificate pp)"
    by (rule highest_assembled [OF rcc(3) assms(8,9)])
  then have "digest_block E (raw_block (pp_block pp0)) (certificate_round (pp_certificate pp)) \<noteq>
      meta_digest (pc_proposal (pp_certificate pp))"
    using assms(10,11) less_le_trans by metis
  then show ?thesis
    using highest_mismatch_rejected [OF rcc(2) _ pp(1)] rcc(1,4) assms(5-7) by auto
qed

text \<open>Validator 2 is prepared on block 1 in round 0, validator 3 on block 2 in round 1.\<close>

definition sample_later_certificate :: prepared_proposed where
  "sample_later_certificate = sample_prepared 2 (view_new 0 1) [2] 1 3"

theorem first_prepared_rejected_witness:
  "\<exists>rcc. assemble_rcc [sample_round_change 2 (view_new 0 2) (Some sample_certificate),
       sample_round_change 3 (view_new 0 2) (Some sample_later_certificate), sample_round_change 4 (view_new 0 2) None] =
     Some (rcc, Some [1]) \<and>
     proposal_1_verify_fn sample_externals sample_manager mock_block_service 3
       (sample_proposal 3 (proposal_new sample_externals (view_new 0 2) [1] (Some rcc))) =
       Inl InvalidRoundChangeInCertificate"
proof -
  have "certificate_round (pp_certificate sample_certificate) = 0"
    "certificate_round (pp_certificate sample_later_certificate) = 1"
    "raw_block (pp_block sample_certificate) = [1]"
    "meta_digest (pc_proposal (pp_certificate sample_later_certificate)) = digest_block sample_externals [2] 1"
    by (simp_all add: sample_certificate_def sample_later_certificate_def view_new_def)
  moreover have "digest_block sample_externals [2] 1 \<noteq> digest_block sample_externals [1] 1"
    by (simp add: digest_block_def sha256_def sample_externals_def codec_serialize_def sample_hash_def le32_def upt_rec)
  ultimately show ?thesis
    using first_prepared_rejected [of sample_externals
        "[sample_round_change 2 (view_new 0 2) (Some sample_certificate),
          sample_round_change 3 (view_new 0 2) (Some sample_later_certificate), sample_round_change 4 (view_new 0 2) None]"
        "map (\<lambda>n. Address (replicate 24 n)) [2, 3, 4]" sample_manager "view_new 0 2" 3
        "sample_round_change 2 (view_new 0 2) (Some sample_certificate)" sample_certificate
        "sample_round_change 3 (view_new 0 2) (Some sample_later_certificate)" sample_later_certificate
        mock_block_service]
    by (simp add: signed_by_def rc_new_def view_new_def first_prepared_def) (metis sample_proposal_simps(1))
qed

text \<open>C27: Otherwise the proposer's work is accepted: a proposal assembled from a quorum of verified
  round changes by distinct validators is accepted when no round change is prepared and the block
  service accepts the new block, and when the first prepared one has the highest round, above 0,
  the certificates of that round are for one digest and its block states that round.\<close>

theorem assembled_proposal_accepted:
  assumes "signed_by (rc_recover_signer E) rcs as" and "distinct as"
    and "\<forall>a \<in> set as. is_validator V a (view_height v)" and "\<forall>rc \<in> set rcs. rcs_view rc = v"
    and "q \<le> length rcs" and "\<forall>rc \<in> set rcs. round_change_verify_fn E V (view_height v) rc"
    and choice: "case first_prepared rcs of
       None \<Rightarrow> verify_block B raw = Inr ()
     | Some rc0 \<Rightarrow> (\<exists>pp0. rcs_prepared rc0 = Some pp0 \<and> raw = raw_block (pp_block pp0) \<and>
         certificate_round (pp_certificate pp0) = block_round (pp_block pp0) \<and> block_round (pp_block pp0) \<noteq> 0 \<and>
         (\<forall>rc \<in> set rcs. \<forall>pp. rcs_prepared rc = Some pp \<longrightarrow>
            certificate_round (pp_certificate pp) \<le> block_round (pp_block pp0) \<and>
            (certificate_round (pp_certificate pp) = block_round (pp_block pp0) \<longrightarrow>
             meta_digest (pc_proposal (pp_certificate pp)) = meta_digest (pc_proposal (pp_certificate pp0)))))"
  shows "\<exists>rcc found. assemble_rcc rcs = Some (rcc, found) \<and> (\<forall>b. found = Some b \<longrightarrow> b = raw) \<and>
     (\<forall>p. proposal_message p = proposal_new E v raw (Some rcc) \<longrightarrow> proposal_1_verify_fn E V B q p = Inr ())"
proof -
  obtain rcc bs where rcc: "assemble_rcc rcs =
       Some (rcc, map_option (\<lambda>rc. raw_block (pp_block (the (rcs_prepared rc)))) (first_prepared rcs))"
    "round_changes_valid E V v (rcc_messages rcc) bs"
    "set (rcc_messages rcc) = (\<lambda>rc. snd (rc_into_metadata rc)) ` set rcs"
    "length (rcc_messages rcc) = length rcs"
    by (rule assembled [OF assms(1-4)])
  have "(\<exists>pc. highest_certificate (rcc_messages rcc) pc \<and>
            digest_block E raw (certificate_round pc) = meta_digest (pc_proposal pc) \<and>
            prepared_certificate_valid E V pc (view_height v) (view_round v)) \<or>
         only_round_0_certificates (rcc_messages rcc) \<and> verify_block B raw = Inr ()"
  proof (cases "first_prepared rcs")
    case None
    then have "only_round_0_certificates (rcc_messages rcc)"
      by (auto simp: only_round_0_certificates_def rcc(3) first_prepared_None)
    then show ?thesis using None choice by simp
  next
    case (Some rc0)
    then obtain pp0 where pp0: "rcs_prepared rc0 = Some pp0" "raw = raw_block (pp_block pp0)"
      "certificate_round (pp_certificate pp0) = block_round (pp_block pp0)"
      and nz: "certificate_round (pp_certificate pp0) \<noteq> 0"
      and max: "\<And>rc pp. rc \<in> set rcs \<Longrightarrow> rcs_prepared rc = Some pp \<Longrightarrow>
        certificate_round (pp_certificate pp) \<le> block_round (pp_block pp0) \<and>
        (certificate_round (pp_certificate pp) = block_round (pp_block pp0) \<longrightarrow>
         meta_digest (pc_proposal (pp_certificate pp)) = meta_digest (pc_proposal (pp_certificate pp0)))"
      using choice by auto
    note rc0 = first_prepared_mem [OF Some]
    obtain rc pp where pp: "highest_certificate (rcc_messages rcc) (pp_certificate pp)"
      "rc \<in> set rcs" "rcs_prepared rc = Some pp"
      "certificate_round (pp_certificate pp0) \<le> certificate_round (pp_certificate pp)"
      by (rule highest_assembled [OF rcc(3) rc0 pp0(1) nz])
    have "certificate_round (pp_certificate pp) = block_round (pp_block pp0)"
      and "meta_digest (pc_proposal (pp_certificate pp)) = meta_digest (pc_proposal (pp_certificate pp0))"
      using max [OF pp(2,3)] pp(4) pp0(3) by simp_all
    then show ?thesis
      using round_change_verifyD [OF bspec [OF assms(6) rc0] pp0(1)]
        round_change_verifyD [OF bspec [OF assms(6) pp(2)] pp(3)] pp assms(4) pp0(2)
      by (auto simp: proposed_block_digest_def)
  qed
  then have "proposal_1_verify_fn E V B q p = Inr ()"
    if "proposal_message p = proposal_new E v raw (Some rcc)" for p
    unfolding proposal_1_accepts_iff using rcc(2,4) assms(5) that proposal_new_digest [OF that] by auto
  then show ?thesis using rcc(1) choice by (auto split: option.splits)
qed

theorem assembled_proposal_accepted_witness:
  "\<exists>rcc. assemble_rcc [sample_round_change 2 (view_new 0 2) (Some sample_later_certificate),
       sample_round_change 3 (view_new 0 2) (Some sample_certificate), sample_round_change 4 (view_new 0 2) None] =
     Some (rcc, Some [2]) \<and>
     proposal_1_verify_fn sample_externals sample_manager mock_block_service 3
       (sample_proposal 3 (proposal_new sample_externals (view_new 0 2) [2] (Some rcc))) = Inr ()"
proof -
  let ?rcs = "[sample_round_change 2 (view_new 0 2) (Some sample_later_certificate),
       sample_round_change 3 (view_new 0 2) (Some sample_certificate), sample_round_change 4 (view_new 0 2) None]"
  have "round_change_verify_fn sample_externals sample_manager 0 rc" if "rc \<in> set ?rcs" for rc
    using that sample_prepared_valid [of 2 "view_new 0 1" 2 1 3 "[2]"] sample_prepared_valid [of 1 "view_new 0 0" 2 2 3 "[1]"]
    by (auto simp: round_change_verify_fn_def verify_prepared_certificate_iff rc_new_def sample_certificate_def
        sample_later_certificate_def view_new_def proposed_block_digest_def)
  then have "\<exists>rcc found. assemble_rcc ?rcs = Some (rcc, found) \<and> (\<forall>b. found = Some b \<longrightarrow> b = [2]) \<and>
     (\<forall>p. proposal_message p = proposal_new sample_externals (view_new 0 2) [2] (Some rcc) \<longrightarrow>
        proposal_1_verify_fn sample_externals sample_manager mock_block_service 3 p = Inr ())"
    by (intro assembled_proposal_accepted [where as = "map (\<lambda>n. Address (replicate 24 n)) [2, 3, 4]"])
      (simp_all add: signed_by_def rc_new_def view_new_def first_prepared_def sample_certificate_def sample_later_certificate_def)
  moreover have "\<exists>rcc. assemble_rcc ?rcs = Some (rcc, Some [2])"
    by (simp add: assemble_rcc_def swap_remove_def rc_new_def rc_into_metadata_def sample_later_certificate_def)
  ultimately show ?thesis by (metis option.sel prod.sel(1) sample_proposal_simps(1))
qed

lemma unat_pow2_u32:
  assumes "i < 32"
  shows "unat (2 ^ i :: u32) = 2 ^ i"
proof -
  have "(2::nat) ^ i < 2 ^ 32" using assms by (rule power_strict_increasing) simp
  then have "unat (of_nat (2 ^ i) :: u32) = 2 ^ i"
    by (simp only: unsigned_of_nat) (simp add: take_bit_nat_eq_self assms)
  then show ?thesis by simp
qed

lemma get_round_timeout_eq:
  "get_round_timeout base r =
     (if r \<le> MAX_ROUND then Some (min DURATION_MAX (base * 2 ^ unat r)) else None)"
proof -
  have "unat r < 22 \<longleftrightarrow> r \<le> MAX_ROUND" by (simp add: MAX_ROUND_def word_le_nat_alt) arith
  then show ?thesis
    using unat_pow2_u32 [of "unat r"]
    by (auto simp: get_round_timeout_def duration_saturating_mul_def TIMEOUT_MULTIPLIER_def)
qed

text \<open>C39: The timeout of round \<open>r\<close> is the base round time times \<open>2 ^ r\<close>, up to the longest \<open>Duration\<close>, for every round
  up to \<open>MAX_ROUND\<close>, and the table of multipliers has no entry beyond; it doubles from round to round
  until it saturates, and with a base of two seconds the 22 rounds of a height take 97 full days
  and not 98.\<close>

theorem round_timeouts:
  "(\<forall>r. get_round_timeout base r = (if r \<le> MAX_ROUND then Some (min DURATION_MAX (base * 2 ^ unat r)) else None)) \<and>
   (\<forall>r t u. get_round_timeout base r = Some t \<and> get_round_timeout base (r + 1) = Some u \<longrightarrow>
      u = min DURATION_MAX (2 * t)) \<and>
   (let total = (\<Sum>r \<leftarrow> map of_nat [0..<ROUND_ARRAY_SIZE]. the (get_round_timeout (2 * 10 ^ 9) r)); day = 86400 * 10 ^ 9
    in 97 * day \<le> total \<and> total < 98 * day)"
proof (intro conjI allI impI)
  fix r :: u8 and t u :: nat
  assume "get_round_timeout base r = Some t \<and> get_round_timeout base (r + 1) = Some u"
  then have t: "t = min DURATION_MAX (base * 2 ^ unat r)" and u: "u = min DURATION_MAX (base * 2 ^ unat (r + 1))"
    and "r \<le> MAX_ROUND"
    by (auto simp: get_round_timeout_eq split: if_splits)
  then have "unat (r + 1) = Suc (unat r)"
    by (simp add: MAX_ROUND_def word_le_nat_alt unat_word_ariths)
  then show "u = min DURATION_MAX (2 * t)" by (simp add: t u min_def)
next
  show "let total = (\<Sum>r \<leftarrow> map of_nat [0..<ROUND_ARRAY_SIZE]. the (get_round_timeout (2 * 10 ^ 9) r)); day = 86400 * 10 ^ 9
    in 97 * day \<le> total \<and> total < 98 * day"
    by (simp add: get_round_timeout_eq MAX_ROUND_def DURATION_MAX_def upt_rec)
qed (rule get_round_timeout_eq)

theorem round_timeouts_witness:
  "get_round_timeout 500 3 = Some 4000 \<and> get_round_timeout 500 22 = None"
  using round_timeouts [of 500] by (auto simp: MAX_ROUND_def DURATION_MAX_def)

end
