(* ===== verification/Ibft_Round.thy ===== *)
theory Ibft_Round
  imports Ibft_Verify
begin

text \<open>
  The tasks a height of the consensus runs (\<open>ibft.rs\<close>): the round task (\<open>run_ibft_round_0\<close>,
  \<open>run_ibft_round_1\<close> and the functions they await) and the two monitors (\<open>wait_future_proposal\<close>,
  \<open>wait_future_rcc\<close>). An \<open>async\<close> function is a state machine: its program counter says at which
  \<open>await\<close> it is, and one step runs from there to the next \<open>await\<close>. Every locked operation of the
  store is one such step, and so is every broadcast.

  What the environment decides is the event of a step. \<open>Poll b\<close> resumes a task that waits for a
  lock, a broadcast or its start; \<open>b\<close> is what \<open>build_block\<close> returns if the step calls it.
  \<open>Recv w\<close> resumes a task that waits for a notification, with the view \<open>w\<close>; \<open>RecvError\<close> is a closed
  or lagged channel. A step is \<open>None\<close> where the event does not fit the program counter.
\<close>

subsection \<open>RunState and SharedRunState\<close>

datatype run_state = StProposal | StPrepare | StCommit

fun run_state_to_u8 :: "run_state \<Rightarrow> u8" where
  "run_state_to_u8 StProposal = 0"
| "run_state_to_u8 StPrepare = 1"
| "run_state_to_u8 StCommit = 2"

text \<open>\<open>None\<close> is the panic on an invalid value.\<close>

definition run_state_from_u8 :: "u8 \<Rightarrow> run_state option" where
  "run_state_from_u8 v =
     (if v = 0 then Some StProposal else if v = 1 then Some StPrepare
      else if v = 2 then Some StCommit else None)"

record shared_run_state =
  srs_view :: view
  srs_run_state :: u8

definition shared_run_state_new :: "view \<Rightarrow> shared_run_state" where
  "shared_run_state_new v = \<lparr>srs_view = v, srs_run_state = run_state_to_u8 StProposal\<rparr>"

definition shared_run_state_update :: "run_state \<Rightarrow> shared_run_state \<Rightarrow> shared_run_state" where
  "shared_run_state_update r st = st\<lparr>srs_run_state := run_state_to_u8 r\<rparr>"

definition shared_run_state_get :: "shared_run_state \<Rightarrow> run_state option" where
  "shared_run_state_get st = run_state_from_u8 (srs_run_state st)"

subsection \<open>The round task\<close>

datatype event = Poll "string + bytes" | Recv view | RecvError

text \<open>
  Where the round task is: at its start, at the lock of the named store operation, at a
  \<open>recv().await\<close> (with the count so far), or before a broadcast or an insertion of the message it holds.
\<close>

datatype round_pc =
    Start
  | QueryRcc
  | RecvRcc nat
  | BroadcastProposal proposal_signed
  | AddProposal proposal_signed
  | QueryProposal
  | RecvProposal
  | RequeryProposal
  | BroadcastPrepare prepare_signed
  | AddPrepare prepare_signed
  | QueryPrepare bytes
  | RecvPrepare bytes nat
  | BroadcastCommit commit_signed
  | AddCommit commit_signed
  | QueryCommit bytes
  | RecvCommit bytes nat
  | RoundDone commit_seals
  | RoundFailed ibft_error
  | RoundPanicked

record round_task =
  rt_state :: shared_run_state
  rt_pc :: round_pc

abbreviation rt_view :: "round_task \<Rightarrow> view" where
  "rt_view t \<equiv> srs_view (rt_state t)"

abbreviation self_of :: "ibft \<Rightarrow> address" where
  "self_of I \<equiv> signer_address (ibft_signer I)"

abbreviation quorum_of :: "ibft \<Rightarrow> view \<Rightarrow> nat" where
  "quorum_of I v \<equiv> quorum (ibft_validators I) (view_height v)"

text \<open>The verification closure of the round: \<open>proposal_verify_fn\<close> in \<open>run_proposal_0\<close> and \<open>run_proposal_1\<close>.\<close>

definition proposal_verify_fn :: "ibft \<Rightarrow> view \<Rightarrow> proposal_signed \<Rightarrow> ibft_error + unit" where
  "proposal_verify_fn I v =
     (if view_round v = 0 then proposal_0_verify_fn (ibft_externals I) (ibft_blocks I)
      else proposal_1_verify_fn (ibft_externals I) (ibft_validators I) (ibft_blocks I) (quorum_of I v))"

text \<open>Signing a proposal, prepare or commit, up to the broadcast; a failed signature is a panic.\<close>

definition propose :: "ibft \<Rightarrow> view \<Rightarrow> bytes \<Rightarrow> round_change_certificate option \<Rightarrow> round_pc" where
  "propose I v raw rcc =
     (case proposal_into_signed (ibft_externals I) (proposal_new (ibft_externals I) v raw rcc) (ibft_signer I) of
        None \<Rightarrow> RoundPanicked
      | Some p \<Rightarrow> BroadcastProposal p)"

definition build_and_propose :: "ibft \<Rightarrow> view \<Rightarrow> string + bytes \<Rightarrow> round_change_certificate option \<Rightarrow> round_pc" where
  "build_and_propose I v b rcc =
     (case b of Inl e \<Rightarrow> RoundFailed (BlockBuild e) | Inr raw \<Rightarrow> propose I v raw rcc)"

definition vote_prepare :: "ibft \<Rightarrow> view \<Rightarrow> bytes \<Rightarrow> round_pc" where
  "vote_prepare I v d =
     (case prepare_into_signed (ibft_externals I) (prepare_new v d) (ibft_signer I) of
        None \<Rightarrow> RoundPanicked
      | Some p \<Rightarrow> BroadcastPrepare p)"

definition vote_commit :: "ibft \<Rightarrow> view \<Rightarrow> bytes \<Rightarrow> round_pc" where
  "vote_commit I v d =
     (case Option.bind (commit_new (ibft_externals I) v d (ibft_signer I))
             (\<lambda>m. commit_into_signed (ibft_externals I) m (ibft_signer I)) of
        None \<Rightarrow> RoundPanicked
      | Some c \<Rightarrow> BroadcastCommit c)"

text \<open>
  The start of \<open>run_ibft_round_0\<close> and \<open>run_ibft_round_1\<close>: the assertions on the view and the run
  state, then \<open>run_proposal_0\<close> or \<open>run_proposal_1\<close> up to the first \<open>await\<close>. \<open>start_ibft_round\<close> picks
  the function by the round.
\<close>

definition run_proposal_0_start :: "ibft \<Rightarrow> view \<Rightarrow> string + bytes \<Rightarrow> round_pc" where
  "run_proposal_0_start I v b =
     (if is_proposer (ibft_validators I) (self_of I) v then build_and_propose I v b None else QueryProposal)"

definition run_proposal_1_start :: "ibft \<Rightarrow> view \<Rightarrow> round_pc" where
  "run_proposal_1_start I v =
     (if is_proposer (ibft_validators I) (self_of I) v then QueryRcc else QueryProposal)"

definition run_ibft_round_start :: "ibft \<Rightarrow> shared_run_state \<Rightarrow> string + bytes \<Rightarrow> round_pc" where
  "run_ibft_round_start I st b =
     (if shared_run_state_get st \<noteq> Some StProposal then RoundPanicked
      else if view_round (srs_view st) = 0 then run_proposal_0_start I (srs_view st) b
      else run_proposal_1_start I (srs_view st))"

text \<open>After \<open>take_valid_round_change_messages\<close> in \<open>wait_rcc\<close>, and the rest of \<open>run_proposal_1\<close>.\<close>

definition wait_rcc_taken ::
    "ibft \<Rightarrow> view \<Rightarrow> string + bytes \<Rightarrow> round_change_signed list option \<times> nat \<Rightarrow> round_pc" where
  "wait_rcc_taken I v b res =
     (case res of (round_changes, rc_count) \<Rightarrow>
        if rc_count < quorum_of I v then RecvRcc rc_count
        else (case Option.bind round_changes assemble_rcc of
                None \<Rightarrow> RoundPanicked
              | Some (rcc, Some raw) \<Rightarrow> propose I v raw (Some rcc)
              | Some (rcc, None) \<Rightarrow> build_and_propose I v b (Some rcc)))"

text \<open>After \<open>get_valid_proposal_digest\<close>; \<open>missing\<close> is what happens when there is no proposal.\<close>

definition proposal_queried :: "ibft \<Rightarrow> view \<Rightarrow> round_pc \<Rightarrow> (ibft_error + bytes) option \<Rightarrow> round_pc" where
  "proposal_queried I v missing res =
     (case res of
        None \<Rightarrow> missing
      | Some (Inl e) \<Rightarrow> RoundFailed e
      | Some (Inr d) \<Rightarrow> vote_prepare I v d)"

text \<open>After \<open>get_valid_prepare_count\<close> in \<open>run_prepare\<close>, and after \<open>take_valid_commit_seals\<close> in \<open>run_commit\<close>.\<close>

definition prepares_counted :: "ibft \<Rightarrow> view \<Rightarrow> bytes \<Rightarrow> nat \<Rightarrow> round_pc" where
  "prepares_counted I v d prepare_count =
     (if prepare_count < usize_pred (quorum_of I v) then RecvPrepare d prepare_count else vote_commit I v d)"

definition commits_taken :: "ibft \<Rightarrow> view \<Rightarrow> bytes \<Rightarrow> commit_seals option \<times> nat \<Rightarrow> round_pc" where
  "commits_taken I v d res =
     (case res of (commit_seals, commit_count) \<Rightarrow>
        if commit_count < quorum_of I v then RecvCommit d commit_count
        else (case commit_seals of None \<Rightarrow> RoundPanicked | Some seals \<Rightarrow> RoundDone seals))"

text \<open>The body of a counting loop after \<open>recv\<close>: count a notification for the view, query again at the target.\<close>

definition counted_recv :: "view \<Rightarrow> view \<Rightarrow> nat \<Rightarrow> nat \<Rightarrow> round_pc \<Rightarrow> (nat \<Rightarrow> round_pc) \<Rightarrow> round_pc" where
  "counted_recv v w n target requery wait =
     (if w = v then (if n + 1 = target then requery else wait (n + 1)) else wait n)"

text \<open>
  One step of the round task: the new task, the store after it, and the messages it broadcasts.
  \<open>state.update\<close> happens when the task goes on from the proposal to \<open>run_prepare\<close> and from there to
  \<open>run_commit\<close>.
\<close>

definition rt_goto :: "round_pc \<Rightarrow> round_task \<Rightarrow> round_task" where
  "rt_goto pc t = t\<lparr>rt_pc := pc\<rparr>"

definition rt_enter :: "run_state \<Rightarrow> round_pc \<Rightarrow> round_task \<Rightarrow> round_task" where
  "rt_enter r pc t = t\<lparr>rt_state := shared_run_state_update r (rt_state t), rt_pc := pc\<rparr>"

definition round_poll ::
    "ibft \<Rightarrow> string + bytes \<Rightarrow> round_task \<Rightarrow> consensus_messages \<Rightarrow>
     (round_task \<times> consensus_messages \<times> ibft_message list) option" where
  "round_poll I b t s =
     (let v = rt_view t; self = self_of I in
      case rt_pc t of
        Start \<Rightarrow> Some (rt_goto (run_ibft_round_start I (rt_state t) b) t, s, [])
      | QueryRcc \<Rightarrow>
          (let (res, s') = take_valid_round_change_messages v
                 (round_change_verify_fn (ibft_externals I) (ibft_validators I) (view_height v)) (quorum_of I v) s
           in Some (rt_goto (wait_rcc_taken I v b res) t, s', []))
      | BroadcastProposal p \<Rightarrow> Some (rt_goto (AddProposal p) t, s, [Proposal p])
      | AddProposal p \<Rightarrow>
          Some (rt_enter StPrepare (QueryPrepare (ps_digest p)) t, add_proposal_message p self s, [])
      | QueryProposal \<Rightarrow>
          (let (res, s') = get_valid_proposal_digest v (proposal_verify_fn I v) s
           in Some (rt_goto (proposal_queried I v RecvProposal res) t, s', []))
      | RequeryProposal \<Rightarrow>
          (let (res, s') = get_valid_proposal_digest v (proposal_verify_fn I v) s
           in Some (rt_goto (proposal_queried I v RoundPanicked res) t, s', []))
      | BroadcastPrepare p \<Rightarrow> Some (rt_goto (AddPrepare p) t, s, [Prepare p])
      | AddPrepare p \<Rightarrow>
          Some (rt_enter StPrepare (QueryPrepare (pr_digest p)) t, add_prepare_message p self s, [])
      | QueryPrepare d \<Rightarrow>
          (let (n, s') = get_valid_prepare_count v (\<lambda>p. pr_digest p = d) s
           in Some (rt_goto (prepares_counted I v d n) t, s', []))
      | BroadcastCommit c \<Rightarrow> Some (rt_goto (AddCommit c) t, s, [Commit c])
      | AddCommit c \<Rightarrow>
          Some (rt_enter StCommit (QueryCommit (cm_digest c)) t, add_commit_message c self s, [])
      | QueryCommit d \<Rightarrow>
          (let (res, s') = take_valid_commit_seals v (\<lambda>c. cm_digest c = d) (quorum_of I v) s
           in Some (rt_goto (commits_taken I v d res) t, s', []))
      | _ \<Rightarrow> None)"

definition round_recv :: "ibft \<Rightarrow> view \<Rightarrow> round_task \<Rightarrow> round_task option" where
  "round_recv I w t =
     (let v = rt_view t in
      case rt_pc t of
        RecvRcc n \<Rightarrow> Some (rt_goto (counted_recv v w n (quorum_of I v) QueryRcc RecvRcc) t)
      | RecvProposal \<Rightarrow> Some (rt_goto (if w = v then RequeryProposal else RecvProposal) t)
      | RecvPrepare d n \<Rightarrow>
          Some (rt_goto (counted_recv v w n (usize_pred (quorum_of I v)) (QueryPrepare d) (RecvPrepare d)) t)
      | RecvCommit d n \<Rightarrow>
          Some (rt_goto (counted_recv v w n (quorum_of I v) (QueryCommit d) (RecvCommit d)) t)
      | _ \<Rightarrow> None)"

definition round_receiving :: "round_pc \<Rightarrow> bool" where
  "round_receiving pc =
     (case pc of RecvRcc _ \<Rightarrow> True | RecvProposal \<Rightarrow> True | RecvPrepare _ _ \<Rightarrow> True | RecvCommit _ _ \<Rightarrow> True | _ \<Rightarrow> False)"

fun round_step ::
    "ibft \<Rightarrow> event \<Rightarrow> round_task \<Rightarrow> consensus_messages \<Rightarrow>
     (round_task \<times> consensus_messages \<times> ibft_message list) option" where
  "round_step I (Poll b) t s = round_poll I b t s"
| "round_step I (Recv w) t s = map_option (\<lambda>t'. (t', s, [])) (round_recv I w t)"
| "round_step I RecvError t s =
     (if round_receiving (rt_pc t) then Some (rt_goto RoundPanicked t, s, []) else None)"

definition round_task_new :: "shared_run_state \<Rightarrow> round_task" where
  "round_task_new st = \<lparr>rt_state = st, rt_pc = Start\<rparr>"

subsection \<open>The monitor of future proposals (wait\_future\_proposal)\<close>

datatype monitor_pc =
    MonitorStart
  | MonitorScan "u8 list" "nat list"
  | MonitorRecv "nat list"
  | MonitorCheck view "nat list"
  | MonitorDone u8
  | MonitorPanicked

text \<open>
  The indices of the round array from the highest down to the first one above the view's round:
  the loop breaks at the first index that is not above it.
\<close>

definition rounds_above :: "u8 \<Rightarrow> nat \<Rightarrow> u8 list" where
  "rounds_above r n = map of_nat (rev [Suc (unat r)..<n])"

text \<open>The proposal monitor keeps no counts: its list of counts is empty.\<close>

definition proposal_monitor_poll ::
    "ibft \<Rightarrow> view \<Rightarrow> monitor_pc \<Rightarrow> consensus_messages \<Rightarrow> (monitor_pc \<times> consensus_messages) option" where
  "proposal_monitor_poll I v pc s =
     (let verify = proposal_1_verify_fn (ibft_externals I) (ibft_validators I) (ibft_blocks I) (quorum_of I v);
          query = (\<lambda>w. get_valid_proposal_digest w verify s);
          found = (\<lambda>res. case res of Some (Inr _) \<Rightarrow> True | _ \<Rightarrow> False)
      in case pc of
        MonitorStart \<Rightarrow>
          (case has_proposal_by_round (view_height v) s of
             (None, s') \<Rightarrow> Some (MonitorPanicked, s')
           | (Some arr, s') \<Rightarrow>
               Some (MonitorScan (filter (\<lambda>r. arr ! unat r) (rounds_above (view_round v) (length arr))) [], s'))
      | MonitorScan [] ns \<Rightarrow> Some (MonitorRecv ns, s)
      | MonitorScan (r # rs) ns \<Rightarrow>
          (let (res, s') = query (view_new (view_height v) r)
           in Some (if found res then MonitorDone r else MonitorScan rs ns, s'))
      | MonitorCheck w ns \<Rightarrow>
          (let (res, s') = query w in Some (if found res then MonitorDone (view_round w) else MonitorRecv ns, s'))
      | _ \<Rightarrow> None)"

definition proposal_monitor_recv :: "view \<Rightarrow> view \<Rightarrow> monitor_pc \<Rightarrow> monitor_pc option" where
  "proposal_monitor_recv v w pc =
     (case pc of
        MonitorRecv ns \<Rightarrow>
          Some (if view_height w = view_height v \<and> view_round w > view_round v then MonitorCheck w ns else MonitorRecv ns)
      | _ \<Rightarrow> None)"

subsection \<open>The monitor of future round changes (wait\_future\_rcc)\<close>

definition rcc_monitor_poll ::
    "ibft \<Rightarrow> view \<Rightarrow> monitor_pc \<Rightarrow> consensus_messages \<Rightarrow> (monitor_pc \<times> consensus_messages) option" where
  "rcc_monitor_poll I v pc s =
     (let verify = round_change_verify_fn (ibft_externals I) (ibft_validators I) (view_height v);
          query = (\<lambda>w. get_valid_round_change_count w verify s)
      in case pc of
        MonitorStart \<Rightarrow>
          (case round_change_count_by_round (view_height v) s of
             (None, s') \<Rightarrow> Some (MonitorPanicked, s')
           | (Some ns, s') \<Rightarrow>
               Some (MonitorScan (filter (\<lambda>r. ns ! unat r \<ge> quorum_of I v) (rounds_above (view_round v) (length ns))) ns, s'))
      | MonitorScan [] ns \<Rightarrow> Some (MonitorRecv ns, s)
      | MonitorScan (r # rs) ns \<Rightarrow>
          (let (n, s') = query (view_new (view_height v) r)
           in Some (if n \<ge> quorum_of I v then MonitorDone r else MonitorScan rs (ns[unat r := n]), s'))
      | MonitorCheck w ns \<Rightarrow>
          (let (n, s') = query w
           in Some (if n \<ge> quorum_of I v then MonitorDone (view_round w) else MonitorRecv (ns[unat (view_round w) := n]), s'))
      | _ \<Rightarrow> None)"

definition rcc_monitor_recv :: "ibft \<Rightarrow> view \<Rightarrow> view \<Rightarrow> monitor_pc \<Rightarrow> monitor_pc option" where
  "rcc_monitor_recv I v w pc =
     (case pc of
        MonitorRecv ns \<Rightarrow>
          Some (if view_height w = view_height v \<and> view_round w > view_round v
                then (if unat (view_round w) < length ns
                      then (let n = ns ! unat (view_round w) + 1; ns' = ns[unat (view_round w) := n]
                            in if n \<ge> quorum_of I v then MonitorCheck w ns' else MonitorRecv ns')
                      else MonitorPanicked)
                else MonitorRecv ns)
      | _ \<Rightarrow> None)"

datatype monitor_kind = FutureProposal | FutureRcc

record monitor_task =
  mt_kind :: monitor_kind
  mt_view :: view
  mt_pc :: monitor_pc

definition monitor_new :: "monitor_kind \<Rightarrow> view \<Rightarrow> monitor_task" where
  "monitor_new k v = \<lparr>mt_kind = k, mt_view = v, mt_pc = MonitorStart\<rparr>"

fun monitor_step ::
    "ibft \<Rightarrow> event \<Rightarrow> monitor_task \<Rightarrow> consensus_messages \<Rightarrow> (monitor_task \<times> consensus_messages) option" where
  "monitor_step I (Poll b) m s =
     map_option (\<lambda>(pc, s'). (m\<lparr>mt_pc := pc\<rparr>, s'))
       (case mt_kind m of
          FutureProposal \<Rightarrow> proposal_monitor_poll I (mt_view m) (mt_pc m) s
        | FutureRcc \<Rightarrow> rcc_monitor_poll I (mt_view m) (mt_pc m) s)"
| "monitor_step I (Recv w) m s =
     map_option (\<lambda>pc. (m\<lparr>mt_pc := pc\<rparr>, s))
       (case mt_kind m of
          FutureProposal \<Rightarrow> proposal_monitor_recv (mt_view m) w (mt_pc m)
        | FutureRcc \<Rightarrow> rcc_monitor_recv I (mt_view m) w (mt_pc m))"
| "monitor_step I RecvError m s =
     (case mt_pc m of MonitorRecv _ \<Rightarrow> Some (m\<lparr>mt_pc := MonitorPanicked\<rparr>, s) | _ \<Rightarrow> None)"

end
