(* ===== verification/Message_Rounds.thy ===== *)
theory Message_Rounds
  imports Message_Handler
begin

text \<open>
  Two more readings of the message store: which views were notified on its broadcast channels, and
  which rounds its maps have entries for. The arrays indexed by round (\<open>has_proposal_by_round\<close>,
  \<open>round_change_count_by_round\<close>) rely on the latter.
\<close>

definition txs :: "consensus_messages \<Rightarrow> view list \<times> view list \<times> view list \<times> view list" where
  "txs s = (proposal_tx s, prepare_tx s, commit_tx s, round_change_tx s)"

definition rc_views :: "consensus_messages \<Rightarrow> view set" where
  "rc_views s = {v. view_get (round_change_messages s) v \<noteq> None}"

lemma txs_adds [store_laws]:
  assumes "store_wf s"
  shows "proposal_tx (add_proposal_message p a s) =
           (if proposal_at s (ps_view p) = None then proposal_tx s @ [ps_view p] else proposal_tx s)"
    and "round_change_tx (add_proposal_message p a s) = round_change_tx s"
    and "proposal_tx (add_prepare_message q a s) = proposal_tx s"
    and "round_change_tx (add_prepare_message q a s) = round_change_tx s"
    and "proposal_tx (add_commit_message c a s) = proposal_tx s"
    and "round_change_tx (add_commit_message c a s) = round_change_tx s"
    and "proposal_tx (add_round_change_message rc a s) = proposal_tx s"
    and "round_change_tx (add_round_change_message rc a s) =
           (if map_of (round_changes_at s (rcs_view rc)) a = None then round_change_tx s @ [rcs_view rc]
            else round_change_tx s)"
    and "prepare_tx (add_prepare_message q a s) =
           (if map_of (prepares_at s (pr_view q)) a = None then prepare_tx s @ [pr_view q] else prepare_tx s)"
    and "commit_tx (add_commit_message c a s) =
           (if map_of (commits_at s (cm_view c)) a = None then commit_tx s @ [cm_view c] else commit_tx s)"
proof -
  obtain m e where me: "view_entry (ps_view p) (proposal_1_messages s) = (m, e)"
    by (cases "view_entry (ps_view p) (proposal_1_messages s)")
  then have "e = view_get (proposal_1_messages s) (ps_view p)"
    using view_entry_snd [of "ps_view p" "proposal_1_messages s"] by simp
  then show "proposal_tx (add_proposal_message p a s) =
           (if proposal_at s (ps_view p) = None then proposal_tx s @ [ps_view p] else proposal_tx s)"
    using me by (auto simp: add_proposal_message_def Let_def proposal_at_def split: option.split)
qed (auto simp: add_proposal_message_def add_prepare_message_def add_commit_message_def
      add_round_change_message_def Let_def sender_entry_simp store_readings split: option.split prod.split)

lemma txs_queries [store_laws]:
  shows "txs (snd (get_valid_proposal_digest v f s)) = txs s" and "txs (snd (take_proposal_message v s)) = txs s"
    and "txs (snd (get_valid_prepare_count v g s)) = txs s" and "txs (snd (take_valid_prepare_messages v g s)) = txs s"
    and "txs (snd (take_valid_commit_seals v k q s)) = txs s"
    and "txs (snd (take_valid_round_change_messages v l q s)) = txs s"
    and "txs (snd (get_valid_round_change_count v l s)) = txs s"
    and "txs (snd (has_proposal_by_round h s)) = txs s" and "txs (snd (round_change_count_by_round h s)) = txs s"
    and "txs (messages_prune h s) = txs s"
  by (auto simp: txs_def get_valid_proposal_digest_def take_proposal_message_def get_valid_prepare_count_def
      take_valid_prepare_messages_def take_valid_commit_seals_def take_valid_round_change_messages_def
      get_valid_round_change_count_def has_proposal_by_round_def round_change_count_by_round_def messages_prune_def
      Let_def case_prod_unfold split: option.split sum.split)

lemma rc_views_laws [store_laws]:
  assumes "store_wf s"
  shows "rc_views (add_proposal_message p a s) = rc_views s" and "rc_views (add_prepare_message q a s) = rc_views s"
    and "rc_views (add_commit_message c a s) = rc_views s"
    and "rc_views (add_round_change_message rc a s) = insert (rcs_view rc) (rc_views s)"
    and "rc_views (snd (get_valid_proposal_digest v f s)) = rc_views s"
    and "rc_views (snd (take_proposal_message v s)) = rc_views s"
    and "rc_views (snd (get_valid_prepare_count v g s)) = rc_views s"
    and "rc_views (snd (take_valid_prepare_messages v g s)) = rc_views s"
    and "rc_views (snd (take_valid_commit_seals v k n s)) = rc_views s"
    and "rc_views (snd (take_valid_round_change_messages v l n s)) = insert v (rc_views s)"
    and "rc_views (snd (get_valid_round_change_count v l s)) = insert v (rc_views s)"
    and "rc_views (snd (has_proposal_by_round h s)) = rc_views s"
    and "rc_views (snd (round_change_count_by_round h s)) = rc_views s"
  using store_wfD(5) [OF assms]
  by (auto simp: rc_views_def add_proposal_message_def add_prepare_message_def add_commit_message_def
      add_round_change_message_def get_valid_proposal_digest_def take_proposal_message_def get_valid_prepare_count_def
      take_valid_prepare_messages_def take_valid_commit_seals_def take_valid_round_change_messages_def
      get_valid_round_change_count_def has_proposal_by_round_def round_change_count_by_round_def
      Let_def case_prod_unfold sender_entry_simp sender_insert_simp map_laws view_or_default_laws height_or_default_laws
      split: option.split sum.split)

subsection \<open>The arrays by round\<close>

lemma mark_proposal_rounds_Some:
  assumes "\<forall>(r, x) \<in> set es. unat r < length arr"
  shows "\<exists>arr'. mark_proposal_rounds es arr = Some arr' \<and> length arr' = length arr"
  using assms by (induction es arr rule: mark_proposal_rounds.induct) (auto simp: array_set_def)

lemma mark_proposal_rounds_nth:
  assumes "mark_proposal_rounds es arr = Some arr'" and "unat r < length arr"
  shows "arr' ! unat r \<longleftrightarrow> arr ! unat r \<or> (\<exists>p ver. (r, p, ver) \<in> set es \<and> (\<forall>e. ver \<noteq> Some (Inl e)))"
  using assms
  by (induction es arr rule: mark_proposal_rounds.induct)
    (auto simp: array_set_def nth_list_update split: if_splits simp flip: word_unat_eq_iff)

lemma count_rounds_Some:
  assumes "\<forall>(r, x) \<in> set es. unat r < length arr"
  shows "\<exists>arr'. count_rounds es arr = Some arr' \<and> length arr' = length arr"
  using assms by (induction es arr rule: count_rounds.induct) (auto simp: array_set_def)

lemma count_rounds_nth:
  assumes "count_rounds es arr = Some arr'" and "distinct (map fst es)" and "unat r < length arr"
  shows "arr' ! unat r = (case map_of es r of None \<Rightarrow> arr ! unat r | Some ms \<Rightarrow> length ms)"
  using assms
proof (induction es arr rule: count_rounds.induct)
  case (2 q ms es arr)
  have "map_of es q = None" using 2(3) by (simp add: map_of_eq_None_iff)
  then show ?case
    using 2 by (cases "r = q") (auto simp: array_set_def nth_list_update word_unat_eq_iff split: if_splits option.split)
qed simp

lemma round_in_array: "unat r < ROUND_ARRAY_SIZE \<longleftrightarrow> r \<le> MAX_ROUND"
  by (simp add: MAX_ROUND_def word_le_nat_alt) arith

lemma height_or_default_entry:
  assumes "view_map_wf m"
  shows "bt_wf (snd (height_or_default h m))"
    and "map_of (snd (height_or_default h m)) r = view_get m (view_new h r)"
  using assms by (auto simp: height_or_default_def view_map_wf_def view_get_def view_new_def split: option.split)

lemma bt_wf_mem: "bt_wf m \<Longrightarrow> (k, x) \<in> set m \<longleftrightarrow> map_of m k = Some x"
  using bt_wf_distinct [of m] by (simp add: map_of_eq_Some_iff)

lemma has_proposal_by_round_spec:
  assumes "store_wf s" and "store_auth E V s"
  obtains arr where "fst (has_proposal_by_round h s) = Some arr" and "length arr = ROUND_ARRAY_SIZE"
    and "\<And>r. r \<le> MAX_ROUND \<Longrightarrow> r \<noteq> 0 \<Longrightarrow>
       arr ! unat r \<longleftrightarrow> proposal_at s (view_new h r) \<noteq> None \<and> (\<forall>e. verification_at s (view_new h r) \<noteq> Some (Inl e))"
proof -
  let ?m = "proposal_1_messages s" and ?es = "snd (height_or_default h (proposal_1_messages s))"
  let ?arr = "replicate ROUND_ARRAY_SIZE False"
  note es = height_or_default_entry [OF store_wfD(2) [OF assms(1)], of h]
  have mem: "(r, x) \<in> set ?es \<longleftrightarrow> view_get ?m (view_new h r) = Some x" for r x
    using bt_wf_mem [OF es(1)] es(2) by simp
  have "unat r < length ?arr" if "(r, x) \<in> set ?es" for r x
  proof (cases "r = 0")
    case False
    then have "proposal_at s (view_new h r) = Some (fst x)"
      using that mem by (simp add: proposal_at_def view_new_def)
    then show ?thesis
      using store_authD(1) [OF assms(2)] round_in_array by (fastforce simp: auth_defs view_new_def)
  qed simp
  then have "\<forall>(r, x) \<in> set ?es. unat r < length ?arr" by blast
  then obtain arr where arr: "mark_proposal_rounds ?es ?arr = Some arr" "length arr = length ?arr"
    using mark_proposal_rounds_Some by blast
  show thesis
  proof (rule that)
    show "fst (has_proposal_by_round h s) = Some arr"
      using arr by (simp add: has_proposal_by_round_def case_prod_unfold Let_def)
    show "length arr = ROUND_ARRAY_SIZE" using arr by simp
    fix r :: u8
    assume "r \<le> MAX_ROUND" and "r \<noteq> 0"
    then show "arr ! unat r \<longleftrightarrow> proposal_at s (view_new h r) \<noteq> None \<and> (\<forall>e. verification_at s (view_new h r) \<noteq> Some (Inl e))"
      using mark_proposal_rounds_nth [OF arr(1), of r] round_in_array [of r]
      by (auto simp: mem proposal_at_def verification_at_def view_new_def split: option.splits)
  qed
qed

lemma round_change_count_by_round_spec:
  assumes "store_wf s" and "\<forall>v \<in> rc_views s. view_round v \<le> MAX_ROUND"
  obtains arr where "fst (round_change_count_by_round h s) = Some arr" and "length arr = ROUND_ARRAY_SIZE"
    and "\<And>r. r \<le> MAX_ROUND \<Longrightarrow> arr ! unat r = length (round_changes_at s (view_new h r))"
proof -
  let ?m = "round_change_messages s" and ?es = "snd (height_or_default h (round_change_messages s))"
  let ?arr = "replicate ROUND_ARRAY_SIZE (0::nat)"
  note es = height_or_default_entry [OF store_wfD(5) [OF assms(1)], of h]
  have "unat r < length ?arr" if "(r, x) \<in> set ?es" for r x
  proof -
    have "view_new h r \<in> rc_views s"
      using that bt_wf_mem [OF es(1)] es(2) by (simp add: rc_views_def)
    then show ?thesis using assms(2) round_in_array [of r] by (force simp: view_new_def)
  qed
  then have "\<forall>(r, x) \<in> set ?es. unat r < length ?arr" by blast
  then obtain arr where arr: "count_rounds ?es ?arr = Some arr" "length arr = length ?arr"
    using count_rounds_Some by blast
  show thesis
  proof (rule that)
    show "fst (round_change_count_by_round h s) = Some arr"
      using arr by (simp add: round_change_count_by_round_def case_prod_unfold Let_def)
    show "length arr = ROUND_ARRAY_SIZE" using arr by simp
    fix r :: u8
    assume "r \<le> MAX_ROUND"
    then show "arr ! unat r = length (round_changes_at s (view_new h r))"
      using count_rounds_nth [OF arr(1) bt_wf_distinct [OF es(1)], of r] round_in_array [of r] es(2) [of r]
      by (auto simp: round_changes_at_def senders_def split: option.split)
  qed
qed

text \<open>The arrays by round never index out of range and say what is stored: a round is marked
  when a proposal not yet refuted is stored for it, and counted with its number of round changes.\<close>

theorem arrays_by_round:
  assumes "store_wf s" and "store_auth E V s" and "\<forall>v \<in> rc_views s. view_round v \<le> MAX_ROUND"
    and "r \<le> MAX_ROUND" and "r \<noteq> 0"
  shows "\<exists>has counts. fst (has_proposal_by_round h s) = Some has \<and> length has = ROUND_ARRAY_SIZE \<and>
     has ! unat r = (proposal_at s (view_new h r) \<noteq> None \<and> (\<forall>e. verification_at s (view_new h r) \<noteq> Some (Inl e))) \<and>
     fst (round_change_count_by_round h s) = Some counts \<and> length counts = ROUND_ARRAY_SIZE \<and>
     counts ! unat r = length (round_changes_at s (view_new h r))"
proof -
  obtain has where "fst (has_proposal_by_round h s) = Some has" "length has = ROUND_ARRAY_SIZE"
    "has ! unat r \<longleftrightarrow> proposal_at s (view_new h r) \<noteq> None \<and> (\<forall>e. verification_at s (view_new h r) \<noteq> Some (Inl e))"
    by (rule has_proposal_by_round_spec [OF assms(1,2)]) (use assms(4,5) in blast)
  moreover obtain counts where "fst (round_change_count_by_round h s) = Some counts" "length counts = ROUND_ARRAY_SIZE"
    "counts ! unat r = length (round_changes_at s (view_new h r))"
    by (rule round_change_count_by_round_spec [OF assms(1,3)]) (use assms(4) in blast)
  ultimately show ?thesis by blast
qed

theorem arrays_by_round_witness:
  "\<exists>has counts. fst (has_proposal_by_round 5 (messages_new (Address []))) = Some has \<and>
     fst (round_change_count_by_round 5 (messages_new (Address []))) = Some counts \<and> counts ! unat (3::u8) = 0"
proof -
  have "\<forall>v \<in> rc_views (messages_new (Address [])). view_round v \<le> MAX_ROUND"
    by (simp add: rc_views_def messages_new_def)
  from arrays_by_round [OF messages_new_wf store_auth_new this, of 3 5]
  show ?thesis by (auto simp: MAX_ROUND_def store_laws)
qed

end
