(* ===== verification/Ibft_Run.thy ===== *)
theory Ibft_Run
  imports Ibft_Round Message_Rounds
begin

text \<open>
  A node that runs one height: \<open>ConsensusEngine::run_height\<close> with \<open>IBFT::run\<close>, the tasks that \<open>run\<close>
  spawns, and the message handler beside them. Everything that runs concurrently shares the
  message store; the node's transition relation interleaves single steps of
  the handler, of any spawned task and of \<open>run\<close> itself.

  \<open>abort\<close> cancels a task at its next suspension only, so an aborted task may still take steps: in
  the model it keeps the right to step and a cancelled task is one that takes none. The
  iteration order of a \<open>HashMap\<close> is arbitrary, so at any moment the order of the sender maps may
  change. A receiver only returns views that were sent on its channel.
\<close>

subsection \<open>The run loop\<close>

text \<open>
  Where \<open>run_height\<close> is. \<open>RunSelect k\<close> is the biased \<open>select!\<close> about to poll its branch \<open>k\<close>: the
  cancel signal, the end of the round, a future proposal, a future round change certificate, the
  timeout. A branch that is not ready passes on to the next one.
\<close>

datatype run_pc =
    RunStart u8
  | RunSpawnRound
  | RunSelect nat
  | RunFinish commit_seals
  | RunBroadcastBlock finalized_block
  | RunTimeout
  | RunTakeProposal
  | RunTakePrepares proposal_signed
  | RunBroadcastRc round_change_signed
  | RunReturn "finalized_block option"
  | RunPrune finalized_block
  | RunExit "finalized_block option"
  | RunPanicked

text \<open>The spawned tasks are listed newest first: the head belongs to the current round.\<close>

record node =
  nd_store :: consensus_messages
  nd_handler :: message_handler
  nd_pc :: run_pc
  nd_view :: view
  nd_latest :: "round_change_signed option"
  nd_rounds :: "round_task list"
  nd_proposal_monitors :: "monitor_task list"
  nd_rcc_monitors :: "monitor_task list"
  nd_sent :: "ibft_message list"
  nd_blocks :: "finalized_block list"

definition node_start :: "ibft \<Rightarrow> u64 \<Rightarrow> consensus_messages \<Rightarrow> message_handler \<Rightarrow> node" where
  "node_start I h s mh =
     \<lparr>nd_store = s, nd_handler = mh,
      nd_pc = (if quorum (ibft_validators I) h = 0 then RunPanicked else RunStart 0),
      nd_view = view_new h 0, nd_latest = None, nd_rounds = [], nd_proposal_monitors = [],
      nd_rcc_monitors = [], nd_sent = [], nd_blocks = []\<rparr>"

text \<open>The top of the loop: the bound on the round, the timeout, and the two monitors.\<close>

definition run_loop_top :: "ibft \<Rightarrow> u8 \<Rightarrow> node \<Rightarrow> node" where
  "run_loop_top I round n =
     (let v = view_new (view_height (nd_view n)) round in
      if round > MAX_ROUND then n\<lparr>nd_pc := RunPanicked\<rparr>
      else (case get_round_timeout (base_round_time I) round of
              None \<Rightarrow> n\<lparr>nd_pc := RunPanicked\<rparr>
            | Some t \<Rightarrow>
                n\<lparr>nd_pc := RunSpawnRound, nd_view := v,
                  nd_proposal_monitors := monitor_new FutureProposal v # nd_proposal_monitors n,
                  nd_rcc_monitors := monitor_new FutureRcc v # nd_rcc_monitors n\<rparr>))"

text \<open>\<open>start_ibft_round\<close>: the proposer of a later round files its own round change first.\<close>

definition start_ibft_round :: "ibft \<Rightarrow> node \<Rightarrow> node" where
  "start_ibft_round I n =
     (let v = nd_view n;
          s = (if view_round v = 0 then nd_store n
               else (case nd_latest n of
                       None \<Rightarrow> nd_store n
                     | Some rc \<Rightarrow>
                         if rcs_view rc = v \<and> is_proposer (ibft_validators I) (self_of I) v
                         then add_round_change_message (rc_clone rc) (self_of I) (nd_store n)
                         else nd_store n))
      in n\<lparr>nd_store := s, nd_pc := RunSelect 0,
           nd_rounds := round_task_new (shared_run_state_new v) # nd_rounds n\<rparr>)"

text \<open>
  Polling branch \<open>k\<close> of the \<open>select!\<close>; \<open>ready\<close> is the environment's answer for the cancel signal
  and the timer. An ended task that sent nothing leaves its branch disabled.
\<close>

definition run_select :: "nat \<Rightarrow> bool \<Rightarrow> node \<Rightarrow> node" where
  "run_select k ready n =
     n\<lparr>nd_pc :=
         (if k = 0 then (if ready then RunReturn None else RunSelect 1)
          else if k = 1 then
            (case nd_rounds n of
               t # _ \<Rightarrow> (case rt_pc t of RoundDone seals \<Rightarrow> RunFinish seals | _ \<Rightarrow> RunSelect 2)
             | [] \<Rightarrow> RunSelect 2)
          else if k = 2 then
            (case nd_proposal_monitors n of
               m # _ \<Rightarrow> (case mt_pc m of MonitorDone r \<Rightarrow> RunStart r | _ \<Rightarrow> RunSelect 3)
             | [] \<Rightarrow> RunSelect 3)
          else if k = 3 then
            (case nd_rcc_monitors n of
               m # _ \<Rightarrow> (case mt_pc m of MonitorDone r \<Rightarrow> RunStart r | _ \<Rightarrow> RunSelect 4)
             | [] \<Rightarrow> RunSelect 4)
          else (if ready then RunTimeout else RunSelect 0))\<rparr>"

definition handle_round_finish :: "commit_seals \<Rightarrow> node \<Rightarrow> node" where
  "handle_round_finish seals n =
     (case take_proposal_message (nd_view n) (nd_store n) of
        (None, s) \<Rightarrow> n\<lparr>nd_store := s, nd_pc := RunPanicked\<rparr>
      | (Some p, s) \<Rightarrow> n\<lparr>nd_store := s, nd_pc := RunBroadcastBlock (finalized_block_new (ps_block p) seals)\<rparr>)"

text \<open>\<open>handle_timeout\<close>, split at its awaits: read the run state, take the proposal, take the prepares, broadcast.\<close>

definition broadcast_rc :: "round_change_signed option \<Rightarrow> run_pc" where
  "broadcast_rc msg = (case msg of None \<Rightarrow> RunPanicked | Some rc \<Rightarrow> RunBroadcastRc rc)"

definition handle_timeout :: "ibft \<Rightarrow> node \<Rightarrow> node" where
  "handle_timeout I n =
     (let v = nd_view n; E = ibft_externals I; sg = ibft_signer I in
      n\<lparr>nd_pc :=
          (case nd_rounds n of
             [] \<Rightarrow> RunPanicked
           | t # _ \<Rightarrow>
               (case shared_run_state_get (rt_state t) of
                  None \<Rightarrow> RunPanicked
                | Some StCommit \<Rightarrow> RunTakeProposal
                | Some _ \<Rightarrow>
                    (case nd_latest n of
                       Some rc \<Rightarrow> broadcast_rc (rc_update_and_resign E rc (view_round v + 1) sg)
                     | None \<Rightarrow> broadcast_rc (rc_into_signed E
                                  (rc_new (view_new (view_height v) (view_round v + 1)) None) sg))))\<rparr>)"

definition timeout_take_proposal :: "node \<Rightarrow> node" where
  "timeout_take_proposal n =
     (case take_proposal_message (nd_view n) (nd_store n) of
        (None, s) \<Rightarrow> n\<lparr>nd_store := s, nd_pc := RunPanicked\<rparr>
      | (Some p, s) \<Rightarrow> n\<lparr>nd_store := s, nd_pc := RunTakePrepares p\<rparr>)"

definition timeout_take_prepares :: "ibft \<Rightarrow> proposal_signed \<Rightarrow> node \<Rightarrow> node" where
  "timeout_take_prepares I p n =
     (let v = nd_view n;
          (prepares, s) = take_valid_prepare_messages v (\<lambda>x. pr_digest x = ps_digest p) (nd_store n)
      in n\<lparr>nd_store := s,
           nd_pc :=
             (if length prepares < usize_pred (quorum_of I v) then RunPanicked
              else broadcast_rc (rc_into_signed (ibft_externals I)
                     (rc_new (view_new (view_height v) (view_round v + 1)) (Some (prepared_proposed_new p prepares)))
                     (ibft_signer I)))\<rparr>)"

text \<open>One step of \<open>run_height\<close>; \<open>None\<close> when it has ended.\<close>

definition run_step :: "ibft \<Rightarrow> bool \<Rightarrow> node \<Rightarrow> node option" where
  "run_step I ready n =
     (case nd_pc n of
        RunStart round \<Rightarrow> Some (run_loop_top I round n)
      | RunSpawnRound \<Rightarrow> Some (start_ibft_round I n)
      | RunSelect k \<Rightarrow> Some (run_select k ready n)
      | RunFinish seals \<Rightarrow> Some (handle_round_finish seals n)
      | RunBroadcastBlock b \<Rightarrow> Some (n\<lparr>nd_blocks := nd_blocks n @ [b], nd_pc := RunReturn (Some b)\<rparr>)
      | RunTimeout \<Rightarrow> Some (handle_timeout I n)
      | RunTakeProposal \<Rightarrow> Some (timeout_take_proposal n)
      | RunTakePrepares p \<Rightarrow> Some (timeout_take_prepares I p n)
      | RunBroadcastRc rc \<Rightarrow>
          Some (n\<lparr>nd_sent := nd_sent n @ [RoundChange rc], nd_latest := Some rc,
                  nd_pc := RunStart (view_round (nd_view n) + 1)\<rparr>)
      | RunReturn None \<Rightarrow> Some (n\<lparr>nd_pc := RunExit None\<rparr>)
      | RunReturn (Some b) \<Rightarrow>
          Some (case handler_update_height (view_height (nd_view n)) (nd_handler n) of
                  None \<Rightarrow> n\<lparr>nd_pc := RunPanicked\<rparr>
                | Some mh \<Rightarrow> n\<lparr>nd_handler := mh, nd_pc := RunPrune b\<rparr>)
      | RunPrune b \<Rightarrow>
          Some (n\<lparr>nd_store := handler_prune (nd_handler n) (nd_store n), nd_pc := RunExit (Some b)\<rparr>)
      | RunExit r \<Rightarrow> None
      | RunPanicked \<Rightarrow> None)"

text \<open>Where the \<open>select!\<close> may lead.\<close>

lemma run_select_rule:
  assumes "P (RunReturn None)" and "P RunTimeout" and "\<And>j. P (RunSelect j)" and "\<And>x. P (RunFinish x)" and "\<And>r. P (RunStart r)"
  shows "P (nd_pc (run_select k ready n))"
proof -
  have "P (case pc of RoundDone x \<Rightarrow> RunFinish x | _ \<Rightarrow> RunSelect j)" for pc j
    by (cases pc) (simp_all add: assms)
  moreover have "P (case pc of MonitorDone r \<Rightarrow> RunStart r | _ \<Rightarrow> RunSelect j)" for pc j
    by (cases pc) (simp_all add: assms)
  ultimately show ?thesis by (simp add: run_select_def assms split: list.split)
qed

subsection \<open>The node\<close>

text \<open>The channel a waiting task receives from.\<close>

definition round_channel :: "round_pc \<Rightarrow> consensus_messages \<Rightarrow> view list" where
  "round_channel pc s =
     (case pc of
        RecvRcc _ \<Rightarrow> round_change_tx s
      | RecvProposal \<Rightarrow> proposal_tx s
      | RecvPrepare _ _ \<Rightarrow> prepare_tx s
      | RecvCommit _ _ \<Rightarrow> commit_tx s
      | _ \<Rightarrow> [])"

definition monitor_channel :: "monitor_kind \<Rightarrow> consensus_messages \<Rightarrow> view list" where
  "monitor_channel k s = (case k of FutureProposal \<Rightarrow> proposal_tx s | FutureRcc \<Rightarrow> round_change_tx s)"

definition event_from :: "event \<Rightarrow> view list \<Rightarrow> bool" where
  "event_from ev tx = (case ev of Recv w \<Rightarrow> w \<in> set tx | _ \<Rightarrow> True)"

text \<open>The same store with its sender maps in another order.\<close>

definition reordered :: "consensus_messages \<Rightarrow> consensus_messages \<Rightarrow> bool" where
  "reordered s s' \<longleftrightarrow>
     maps_wf s' \<and> self_address s' = self_address s \<and> proposal_0_messages s' = proposal_0_messages s \<and>
     proposal_1_messages s' = proposal_1_messages s \<and> txs s' = txs s \<and> rc_views s' = rc_views s \<and>
     (\<forall>v. mset (prepares_at s' v) = mset (prepares_at s v)) \<and>
     (\<forall>v. mset (commits_at s' v) = mset (commits_at s v)) \<and>
     (\<forall>v. mset (round_changes_at s' v) = mset (round_changes_at s v))"

text \<open>
  The steps a node takes by itself, where \<open>build_block\<close> returns blocks that satisfy \<open>built\<close> only, and
  those together with what its handler is given.
\<close>

inductive node_builds :: "ibft \<Rightarrow> (bytes \<Rightarrow> bool) \<Rightarrow> node \<Rightarrow> node \<Rightarrow> bool" for I built where
  round: "i < length (nd_rounds n) \<Longrightarrow> event_from ev (round_channel (rt_pc (nd_rounds n ! i)) (nd_store n)) \<Longrightarrow>
    round_step I ev (nd_rounds n ! i) (nd_store n) = Some (t, s, msgs) \<Longrightarrow>
    (\<forall>raw. ev = Poll (Inr raw) \<longrightarrow> built raw) \<Longrightarrow>
    node_builds I built n (n\<lparr>nd_store := s, nd_rounds := (nd_rounds n)[i := t], nd_sent := nd_sent n @ msgs\<rparr>)"
| proposal_monitor: "i < length (nd_proposal_monitors n) \<Longrightarrow>
    event_from ev (monitor_channel (mt_kind (nd_proposal_monitors n ! i)) (nd_store n)) \<Longrightarrow>
    monitor_step I ev (nd_proposal_monitors n ! i) (nd_store n) = Some (m, s) \<Longrightarrow>
    node_builds I built n (n\<lparr>nd_store := s, nd_proposal_monitors := (nd_proposal_monitors n)[i := m]\<rparr>)"
| rcc_monitor: "i < length (nd_rcc_monitors n) \<Longrightarrow>
    event_from ev (monitor_channel (mt_kind (nd_rcc_monitors n ! i)) (nd_store n)) \<Longrightarrow>
    monitor_step I ev (nd_rcc_monitors n ! i) (nd_store n) = Some (m, s) \<Longrightarrow>
    node_builds I built n (n\<lparr>nd_store := s, nd_rcc_monitors := (nd_rcc_monitors n)[i := m]\<rparr>)"
| run: "run_step I ready n = Some n' \<Longrightarrow> node_builds I built n n'"
| reorder: "reordered (nd_store n) s \<Longrightarrow> node_builds I built n (n\<lparr>nd_store := s\<rparr>)"

abbreviation node_internal :: "ibft \<Rightarrow> node \<Rightarrow> node \<Rightarrow> bool" where
  "node_internal I \<equiv> node_builds I (\<lambda>_. True)"

lemma node_builds_mono:
  assumes "node_builds I built n n'" and "\<And>raw. built raw \<Longrightarrow> built' raw"
  shows "node_builds I built' n n'"
  using assms by cases (auto intro: node_builds.intros)

definition node_deliver :: "ibft \<Rightarrow> ibft_message \<Rightarrow> node \<Rightarrow> node" where
  "node_deliver I m n = n\<lparr>nd_store :=
     snd (handle_consensus_message (ibft_externals I) (ibft_validators I) (nd_handler n) m (nd_store n))\<rparr>"

inductive node_step :: "ibft \<Rightarrow> node \<Rightarrow> node \<Rightarrow> bool" for I where
  deliver: "node_step I n (node_deliver I m n)"
| internal: "node_internal I n n' \<Longrightarrow> node_step I n n'"

lemmas node_step_internal = node_builds.intros [where built = "\<lambda>_. True", THEN node_step.internal]

lemma node_step_cases [consumes 1, case_names deliver round proposal_monitor rcc_monitor run reorder]:
  assumes "node_step I n n'"
  obtains (deliver) m where "n' = node_deliver I m n"
    | (round) i ev t s msgs where "n' = n\<lparr>nd_store := s, nd_rounds := (nd_rounds n)[i := t], nd_sent := nd_sent n @ msgs\<rparr>"
        "i < length (nd_rounds n)" "event_from ev (round_channel (rt_pc (nd_rounds n ! i)) (nd_store n))"
        "round_step I ev (nd_rounds n ! i) (nd_store n) = Some (t, s, msgs)"
    | (proposal_monitor) i ev m s where "n' = n\<lparr>nd_store := s, nd_proposal_monitors := (nd_proposal_monitors n)[i := m]\<rparr>"
        "i < length (nd_proposal_monitors n)"
        "event_from ev (monitor_channel (mt_kind (nd_proposal_monitors n ! i)) (nd_store n))"
        "monitor_step I ev (nd_proposal_monitors n ! i) (nd_store n) = Some (m, s)"
    | (rcc_monitor) i ev m s where "n' = n\<lparr>nd_store := s, nd_rcc_monitors := (nd_rcc_monitors n)[i := m]\<rparr>"
        "i < length (nd_rcc_monitors n)" "event_from ev (monitor_channel (mt_kind (nd_rcc_monitors n ! i)) (nd_store n))"
        "monitor_step I ev (nd_rcc_monitors n ! i) (nd_store n) = Some (m, s)"
    | (run) ready where "run_step I ready n = Some n'"
    | (reorder) s where "n' = n\<lparr>nd_store := s\<rparr>" "reordered (nd_store n) s"
  using assms
proof (cases rule: node_step.cases)
  case (deliver m)
  then show thesis by (rule that(1))
next
  case internal
  then show thesis by cases (erule (3) that(2), erule (3) that(3), erule (3) that(4), erule that(5), erule (1) that(6))
qed

inductive node_reachable :: "ibft \<Rightarrow> node \<Rightarrow> node \<Rightarrow> bool" for I n0 where
  init: "node_reachable I n0 n0"
| step: "node_reachable I n0 n \<Longrightarrow> node_step I n n' \<Longrightarrow> node_reachable I n0 n'"

end
