(* ===== verification/Store_Invariant.thy ===== *)
theory Store_Invariant
  imports Ibft_Run
begin

text \<open>
  What every step of a node keeps of the message store. \<open>store_inv\<close> is the invariant of the store
  alone; \<open>store_effect W s s'\<close> says what a step may change: it never loses a stored proposal, and
  outside the views \<open>W\<close> of the stepping task it adds no proposal of the node itself and drops no
  prepare.
\<close>

text \<open>
  What the consensus needs of its parameters: the documented behaviour of the crates, a signer
  made from a valid key that is a validator of the height, and at most one proposer per view.
\<close>

definition ibft_ok :: "ibft \<Rightarrow> u64 \<Rightarrow> bool" where
  "ibft_ok I h \<longleftrightarrow>
     externals_ok (ibft_externals I) \<and> signer_wf (ibft_externals I) (ibft_signer I) \<and>
     is_validator (ibft_validators I) (self_of I) h \<and>
     (\<forall>a b v. is_proposer (ibft_validators I) a v \<longrightarrow> is_proposer (ibft_validators I) b v \<longrightarrow> a = b)"

definition store_inv :: "ibft \<Rightarrow> consensus_messages \<Rightarrow> bool" where
  "store_inv I s \<longleftrightarrow>
     store_wf s \<and> store_auth (ibft_externals I) (ibft_validators I) s \<and> self_address s = self_of I \<and>
     (\<forall>v \<in> rc_views s. view_round v \<le> MAX_ROUND) \<and>
     (\<forall>v \<in> set (round_change_tx s). view_round v \<le> MAX_ROUND) \<and>
     (\<forall>v p. proposal_at s v = Some p \<longrightarrow> verification_at s v = Some (Inr ()) \<longrightarrow>
        proposal_verify_block_digest (ibft_externals I) p)"

definition preps :: "consensus_messages \<Rightarrow> view \<Rightarrow> bytes \<Rightarrow> nat" where
  "preps s v d = length (filter (\<lambda>(a, p). pr_digest p = d) (prepares_at s v))"

definition store_effect :: "ibft \<Rightarrow> view set \<Rightarrow> consensus_messages \<Rightarrow> consensus_messages \<Rightarrow> bool" where
  "store_effect I W s s' \<longleftrightarrow>
     store_inv I s' \<and>
     (\<forall>v p. proposal_at s v = Some p \<longrightarrow> proposal_at s' v = Some p) \<and>
     (\<forall>v. v \<notin> W \<longrightarrow> is_proposer (ibft_validators I) (self_of I) v \<longrightarrow> proposal_at s v = None \<longrightarrow>
        proposal_at s' v = None) \<and>
     (\<forall>v d. v \<notin> W \<longrightarrow> preps s v d \<le> preps s' v d) \<and>
     (\<forall>v \<in> set (proposal_tx s'). v \<in> set (proposal_tx s) \<or> proposal_at s' v \<noteq> None)"

lemma txs_eq_D:
  assumes "txs s' = txs s"
  shows "proposal_tx s' = proposal_tx s" and "round_change_tx s' = round_change_tx s"
  using assms by (simp_all add: txs_def)

lemma store_invD:
  assumes "store_inv I s"
  shows "store_wf s" and "store_auth (ibft_externals I) (ibft_validators I) s" and "self_address s = self_of I"
    and "v \<in> rc_views s \<Longrightarrow> view_round v \<le> MAX_ROUND"
    and "v \<in> set (round_change_tx s) \<Longrightarrow> view_round v \<le> MAX_ROUND"
    and "proposal_at s v = Some p \<Longrightarrow> verification_at s v = Some (Inr ()) \<Longrightarrow>
           proposal_verify_block_digest (ibft_externals I) p"
    and "proposal_at s v = Some p \<Longrightarrow> view_round v \<le> MAX_ROUND"
  using assms unfolding store_inv_def store_auth_def proposal_auth_def by blast+

text \<open>An operation that leaves proposals, prepares and notifications alone has no other effect.\<close>

lemma store_effect_same:
  assumes "store_inv I s'" and "proposal_at s' = proposal_at s" and "proposal_tx s' = proposal_tx s"
    and "\<And>v d. v \<notin> W \<Longrightarrow> preps s v d \<le> preps s' v d"
  shows "store_effect I W s s'"
  using assms by (simp add: store_effect_def)

lemma proposal_verify_fn_digest:
  "proposal_verify_fn I v p = Inr () \<Longrightarrow> proposal_verify_block_digest (ibft_externals I) p"
  by (auto simp: proposal_verify_fn_def proposal_0_accepts_iff proposal_1_accepts_iff split: if_splits)

text \<open>Queries: the invariant is kept, and nothing relevant changes.\<close>

lemma query_proposal_inv:
  assumes "store_inv I s" and "\<And>p. f p = Inr () \<Longrightarrow> proposal_verify_block_digest (ibft_externals I) p"
  shows "store_inv I (snd (get_valid_proposal_digest v f s))"
    and "store_effect I W s (snd (get_valid_proposal_digest v f s))"
proof -
  note inv = store_invD [OF assms(1)]
  let ?s = "snd (get_valid_proposal_digest v f s)"
  have same: "proposal_at ?s = proposal_at s" by (rule ext) (simp add: store_laws inv(1))
  note tx = txs_eq_D [OF txs_queries(1) [of v f s]]
  have "proposal_verify_block_digest (ibft_externals I) p"
    if "proposal_at s w = Some p" and "verification_at ?s w = Some (Inr ())" for w p
    using that inv(6) [of w p] assms(2) [of p]
    by (auto simp: store_laws inv(1) split: if_splits)
  then show kept: "store_inv I ?s"
    using inv(2-5) unfolding store_inv_def tx same by (auto simp: store_laws wf_intros inv(1,2))
  show "store_effect I W s ?s"
    by (rule store_effect_same [OF kept same tx(1)]) (simp add: preps_def store_laws inv(1))
qed

text \<open>The other queries change neither proposals nor their verification.\<close>

lemma store_inv_same:
  assumes "store_inv I s" and "store_wf s'" and "store_auth (ibft_externals I) (ibft_validators I) s'"
    and "self_address s' = self_address s" and "\<forall>v \<in> rc_views s'. view_round v \<le> MAX_ROUND"
    and "round_change_tx s' = round_change_tx s"
    and "proposal_at s' = proposal_at s" and "verification_at s' = verification_at s"
  shows "store_inv I s'"
  using assms unfolding store_inv_def by simp

lemma query_prepares_inv:
  assumes "store_inv I s"
  shows "store_inv I (snd (get_valid_prepare_count v f s))"
    and "store_effect I {v} s (snd (get_valid_prepare_count v f s))"
proof -
  note inv = store_invD [OF assms]
  note tx = txs_eq_D [OF txs_queries(3) [of v f s]]
  show kept: "store_inv I (snd (get_valid_prepare_count v f s))"
    by (rule store_inv_same [OF assms]) (use inv in \<open>simp_all add: store_laws wf_intros tx\<close>)
  show "store_effect I {v} s (snd (get_valid_prepare_count v f s))"
    by (rule store_effect_same [OF kept]) (simp_all add: preps_def store_laws inv(1) tx)
qed

lemma query_commits_inv:
  assumes "store_inv I s"
  shows "store_inv I (snd (take_valid_commit_seals v f q s))"
    and "store_effect I W s (snd (take_valid_commit_seals v f q s))"
proof -
  note inv = store_invD [OF assms]
  note tx = txs_eq_D [OF txs_queries(5) [of v f q s]]
  show kept: "store_inv I (snd (take_valid_commit_seals v f q s))"
    by (rule store_inv_same [OF assms]) (use inv in \<open>simp_all add: store_laws wf_intros tx\<close>)
  show "store_effect I W s (snd (take_valid_commit_seals v f q s))"
    by (rule store_effect_same [OF kept]) (simp_all add: preps_def store_laws inv(1) tx)
qed

lemma query_round_changes_inv:
  assumes "store_inv I s" and "view_round v \<le> MAX_ROUND"
  shows "store_effect I W s (snd (take_valid_round_change_messages v f q s))"
    and "store_effect I W s (snd (get_valid_round_change_count v f s))"
proof -
  note inv = store_invD [OF assms(1)]
  note tx = txs_eq_D [OF txs_queries(6) [of v f q s]] txs_eq_D [OF txs_queries(7) [of v f s]]
  have "store_inv I (snd (take_valid_round_change_messages v f q s))"
    by (rule store_inv_same [OF assms(1)]) (use inv assms(2) in \<open>simp_all add: store_laws wf_intros tx\<close>)
  then show "store_effect I W s (snd (take_valid_round_change_messages v f q s))"
    by (rule store_effect_same) (simp_all add: preps_def store_laws inv(1) tx)
  have "store_inv I (snd (get_valid_round_change_count v f s))"
    by (rule store_inv_same [OF assms(1)]) (use inv assms(2) in \<open>simp_all add: store_laws wf_intros tx\<close>)
  then show "store_effect I W s (snd (get_valid_round_change_count v f s))"
    by (rule store_effect_same) (simp_all add: preps_def store_laws inv(1) tx)
qed

lemma query_by_round_inv:
  assumes "store_inv I s"
  shows "store_effect I W s (snd (has_proposal_by_round h s))"
    and "store_effect I W s (snd (round_change_count_by_round h s))"
proof -
  note inv = store_invD [OF assms(1)]
  note tx = txs_eq_D [OF txs_queries(8) [of h s]] txs_eq_D [OF txs_queries(9) [of h s]]
  have "store_inv I (snd (has_proposal_by_round h s))"
    by (rule store_inv_same [OF assms(1)]) (use inv in \<open>simp_all add: store_laws wf_intros tx\<close>)
  then show "store_effect I W s (snd (has_proposal_by_round h s))"
    by (rule store_effect_same) (simp_all add: preps_def store_laws inv(1) tx)
  have "store_inv I (snd (round_change_count_by_round h s))"
    by (rule store_inv_same [OF assms(1)]) (use inv in \<open>simp_all add: store_laws wf_intros tx\<close>)
  then show "store_effect I W s (snd (round_change_count_by_round h s))"
    by (rule store_effect_same) (simp_all add: preps_def store_laws inv(1) tx)
qed

text \<open>Additions of authentic messages.\<close>

lemma add_prepare_effect:
  assumes "store_inv I s" and "prepare_auth (ibft_externals I) (ibft_validators I) (pr_view p) a p"
  shows "store_effect I W s (add_prepare_message p a s)"
proof -
  note inv = store_invD [OF assms(1)]
  have "store_inv I (add_prepare_message p a s)"
    by (rule store_inv_same [OF assms(1)])
      (use inv assms(2) in \<open>simp_all add: store_laws wf_intros store_auth_adds\<close>)
  then show ?thesis
    by (rule store_effect_same) (simp_all add: preps_def store_laws inv(1))
qed

lemma add_commit_effect:
  assumes "store_inv I s" and "commit_auth (ibft_externals I) (ibft_validators I) (cm_view c) a c"
  shows "store_effect I W s (add_commit_message c a s)"
proof -
  note inv = store_invD [OF assms(1)]
  have "store_inv I (add_commit_message c a s)"
    by (rule store_inv_same [OF assms(1)])
      (use inv assms(2) in \<open>simp_all add: store_laws wf_intros store_auth_adds\<close>)
  then show ?thesis
    by (rule store_effect_same) (simp_all add: preps_def store_laws inv(1))
qed

lemma add_round_change_effect:
  assumes "store_inv I s" and "round_change_auth (ibft_externals I) (ibft_validators I) (rcs_view rc) a rc"
  shows "store_effect I W s (add_round_change_message rc a s)"
proof -
  note inv = store_invD [OF assms(1)]
  have "store_inv I (add_round_change_message rc a s)"
    using inv assms(2)
    by (auto simp: store_inv_def store_laws wf_intros store_auth_adds round_change_auth_def)
  then show ?thesis
    by (rule store_effect_same) (simp_all add: preps_def store_laws inv(1))
qed

lemma add_proposal_effect:
  assumes "store_inv I s" and "proposal_auth (ibft_externals I) (ibft_validators I) (ps_view p) p"
    and "a = self_of I \<longrightarrow> proposal_verify_block_digest (ibft_externals I) p"
    and "ps_view p \<in> W \<or> \<not> is_proposer (ibft_validators I) (self_of I) (ps_view p)"
  shows "store_effect I W s (add_proposal_message p a s)"
proof -
  note inv = store_invD [OF assms(1)]
  have "store_inv I (add_proposal_message p a s)"
    unfolding store_inv_def using inv assms(2,3)
    by (auto simp: store_laws wf_intros store_auth_adds split: if_splits)
  then show ?thesis
    using assms(4) by (auto simp: store_effect_def preps_def store_laws inv(1))
qed

lemma store_effect_refl: "store_inv I s \<Longrightarrow> store_effect I W s s"
  by (rule store_effect_same) simp_all

lemma store_effect_inv: "store_effect I W s s' \<Longrightarrow> store_inv I s'"
  by (simp add: store_effect_def)

lemma store_effectD:
  assumes "store_effect I W s s'"
  shows "proposal_at s v = Some p \<Longrightarrow> proposal_at s' v = Some p"
    and "v \<notin> W \<Longrightarrow> is_proposer (ibft_validators I) (self_of I) v \<Longrightarrow> proposal_at s v = None \<Longrightarrow> proposal_at s' v = None"
    and "v \<notin> W \<Longrightarrow> preps s v d \<le> preps s' v d"
    and "v \<in> set (proposal_tx s') \<Longrightarrow> v \<in> set (proposal_tx s) \<or> proposal_at s' v \<noteq> None"
  using assms unfolding store_effect_def by blast+

lemma store_effect_mono: "store_effect I W s s' \<Longrightarrow> W \<subseteq> W' \<Longrightarrow> store_effect I W' s s'"
  unfolding store_effect_def by blast

text \<open>The handler: it never stores a proposal of the node itself, since the proposer of a view is unique.\<close>

lemma deliver_effect:
  assumes "ibft_ok I h" and "store_inv I s" and "handler_address mh = self_of I"
  shows "store_effect I W s (snd (handle_consensus_message (ibft_externals I) (ibft_validators I) mh m s))"
proof (cases m)
  case (Proposal p)
  show ?thesis
    using assms Proposal
    by (auto simp: ibft_ok_def Let_def auth_defs not_less split: sum.split
        intro!: store_effect_refl add_proposal_effect)
next
  case (Prepare p)
  show ?thesis
    using assms(2) Prepare
    by (auto simp: Let_def auth_defs not_less split: sum.split intro!: store_effect_refl add_prepare_effect)
next
  case (Commit c)
  show ?thesis
    using assms(2) Commit
    by (auto simp: Let_def auth_defs not_less split: sum.split intro!: store_effect_refl add_commit_effect)
next
  case (RoundChange rc)
  show ?thesis
    using assms(2) RoundChange
    by (auto simp: Let_def auth_defs not_less split: sum.split intro!: store_effect_refl add_round_change_effect)
qed

lemma reorder_effect:
  assumes "store_inv I s" and "reordered s s'"
  shows "store_effect I W s s'"
proof -
  note inv = store_invD [OF assms(1)] and re = assms(2) [unfolded reordered_def]
  have props: "proposal_at s' = proposal_at s" "verification_at s' = verification_at s"
    using re by (simp_all add: fun_eq_iff proposal_at_def verification_at_def)
  have sets: "set (prepares_at s' v) = set (prepares_at s v)" "set (commits_at s' v) = set (commits_at s v)"
    "set (round_changes_at s' v) = set (round_changes_at s v)" for v
    using re by (meson mset_eq_setD)+
  have wf: "store_wf s'"
    by (rule store_wfI) (use re store_wf_filed [OF inv(1)] in \<open>simp_all add: props sets\<close>)
  have "store_auth (ibft_externals I) (ibft_validators I) s'"
    by (rule store_authI) (use store_authD [OF inv(2)] in \<open>simp_all add: props sets\<close>)
  then have inv': "store_inv I s'"
    by (rule store_inv_same [OF assms(1) wf]) (use re inv(4) in \<open>simp_all add: props txs_def\<close>)
  have "preps s v d = preps s' v d" for v d
    using re unfolding preps_def by (metis mset_filter size_mset)
  then show ?thesis
    by (intro store_effect_same [OF inv' props(1)]) (use re in \<open>simp_all add: txs_def\<close>)
qed

lemma take_proposal_inv:
  assumes "store_inv I s"
  shows "store_inv I (snd (take_proposal_message v s))"
proof -
  note inv = store_invD [OF assms]
  note tx = txs_eq_D [OF txs_queries(2) [of v s]]
  have "verification_at (snd (take_proposal_message v s)) w = verification_at s w" if "w \<noteq> v" for w
    by (rule take_proposal_verification [OF inv(1) that])
  then show ?thesis
    using inv unfolding store_inv_def tx
    by (auto simp: store_laws wf_intros split: if_splits)
qed

lemma take_prepares_inv:
  assumes "store_inv I s"
  shows "store_inv I (snd (take_valid_prepare_messages v f s))"
proof -
  note inv = store_invD [OF assms]
  note tx = txs_eq_D [OF txs_queries(4) [of v f s]]
  show ?thesis
    by (rule store_inv_same [OF assms]) (use inv in \<open>simp_all add: store_laws wf_intros tx\<close>)
qed

end
