(* ===== verification/Task_Invariant.thy ===== *)
theory Task_Invariant
  imports Store_Invariant
begin

text \<open>
  The invariant of a round task: what its program counter says about the messages it holds
  (\<open>round_auth\<close>), about the store as long as it runs (\<open>round_store\<close>), and about the proposal and
  the prepares behind its digest as long as nobody takes them (\<open>round_backed\<close>). Likewise for the
  monitors. Every step of a task keeps its invariant and has a \<open>store_effect\<close> on the store.
\<close>

definition backed :: "ibft \<Rightarrow> consensus_messages \<Rightarrow> view \<Rightarrow> bytes \<Rightarrow> bool" where
  "backed I s v d \<longleftrightarrow>
     (\<exists>p. proposal_at s v = Some p \<and> ps_digest p = d \<and> proposal_verify_block_digest (ibft_externals I) p)"

definition prepared :: "ibft \<Rightarrow> consensus_messages \<Rightarrow> view \<Rightarrow> bytes \<Rightarrow> bool" where
  "prepared I s v d \<longleftrightarrow> backed I s v d \<and> usize_pred (quorum_of I v) \<le> preps s v d"

text \<open>The seals of a quorum of distinct validators of the height over the digest \<open>d\<close>.\<close>

definition seals_valid :: "ibft \<Rightarrow> u64 \<Rightarrow> bytes \<Rightarrow> commit_seals \<Rightarrow> bool" where
  "seals_valid I h d seals \<longleftrightarrow>
     (\<exists>as. signed_by (\<lambda>seal. signature_recover_from_prehash (ibft_externals I) seal d) seals as \<and> distinct as \<and>
        (\<forall>a \<in> set as. is_validator (ibft_validators I) a h) \<and> quorum (ibft_validators I) h \<le> length seals)"

definition own_proposal :: "ibft \<Rightarrow> view \<Rightarrow> proposal_signed \<Rightarrow> bool" where
  "own_proposal I v p \<longleftrightarrow>
     ps_view p = v \<and> proposal_recover_signer (ibft_externals I) p = Inr (self_of I) \<and>
     is_proposer (ibft_validators I) (self_of I) v \<and> proposal_verify_block_digest (ibft_externals I) p"

definition own_prepare :: "ibft \<Rightarrow> view \<Rightarrow> prepare_signed \<Rightarrow> bool" where
  "own_prepare I v p \<longleftrightarrow>
     pr_view p = v \<and> prepare_recover_signer (ibft_externals I) p = Inr (self_of I) \<and>
     \<not> is_proposer (ibft_validators I) (self_of I) v \<and> length (pr_digest p) = 32"

definition own_commit :: "ibft \<Rightarrow> view \<Rightarrow> commit_signed \<Rightarrow> bool" where
  "own_commit I v c \<longleftrightarrow>
     cm_view c = v \<and> commit_recover_signer (ibft_externals I) c = Inr (self_of I) \<and>
     commit_recover_seal_signer (ibft_externals I) c = Inr (self_of I) \<and> length (cm_digest c) = 32"

definition pc_auth :: "ibft \<Rightarrow> view \<Rightarrow> u8 \<Rightarrow> round_pc \<Rightarrow> bool" where
  "pc_auth I v st pc =
     (let proposer = is_proposer (ibft_validators I) (self_of I) v in
      case pc of
        Start \<Rightarrow> st = 0
      | QueryRcc \<Rightarrow> st = 0 \<and> proposer
      | RecvRcc _ \<Rightarrow> st = 0 \<and> proposer
      | BroadcastProposal p \<Rightarrow> st = 0 \<and> own_proposal I v p
      | AddProposal p \<Rightarrow> st = 0 \<and> own_proposal I v p
      | QueryProposal \<Rightarrow> st = 0 \<and> \<not> proposer
      | RecvProposal \<Rightarrow> st = 0 \<and> \<not> proposer
      | RequeryProposal \<Rightarrow> st = 0 \<and> \<not> proposer
      | BroadcastPrepare p \<Rightarrow> st = 0 \<and> own_prepare I v p
      | AddPrepare p \<Rightarrow> st = 0 \<and> own_prepare I v p
      | QueryPrepare d \<Rightarrow> st = 1 \<and> length d = 32
      | RecvPrepare d _ \<Rightarrow> st = 1 \<and> length d = 32
      | BroadcastCommit c \<Rightarrow> st = 1 \<and> own_commit I v c
      | AddCommit c \<Rightarrow> st = 1 \<and> own_commit I v c
      | QueryCommit d \<Rightarrow> st = 2 \<and> length d = 32
      | RecvCommit d _ \<Rightarrow> st = 2 \<and> length d = 32
      | RoundDone seals \<Rightarrow> st = 2
      | RoundFailed e \<Rightarrow> st = 0
      | RoundPanicked \<Rightarrow> st \<in> {0, 1, 2})"

definition round_auth :: "ibft \<Rightarrow> u64 \<Rightarrow> round_task \<Rightarrow> bool" where
  "round_auth I h t \<longleftrightarrow>
     view_height (rt_view t) = h \<and> view_round (rt_view t) \<le> MAX_ROUND \<and>
     pc_auth I (rt_view t) (srs_run_state (rt_state t)) (rt_pc t)"

text \<open>The program counters at which the proposer has not stored its proposal yet.\<close>

definition before_add :: "round_pc \<Rightarrow> bool" where
  "before_add pc =
     (case pc of Start \<Rightarrow> True | QueryRcc \<Rightarrow> True | RecvRcc _ \<Rightarrow> True | BroadcastProposal _ \<Rightarrow> True
        | AddProposal _ \<Rightarrow> True | _ \<Rightarrow> False)"

definition round_store :: "ibft \<Rightarrow> consensus_messages \<Rightarrow> round_task \<Rightarrow> bool" where
  "round_store I s t \<longleftrightarrow>
     (before_add (rt_pc t) \<longrightarrow> is_proposer (ibft_validators I) (self_of I) (rt_view t) \<longrightarrow>
        proposal_at s (rt_view t) = None) \<and>
     (rt_pc t = RequeryProposal \<longrightarrow> proposal_at s (rt_view t) \<noteq> None)"

definition pc_backed :: "ibft \<Rightarrow> consensus_messages \<Rightarrow> view \<Rightarrow> u8 \<Rightarrow> round_pc \<Rightarrow> bool" where
  "pc_backed I s v st pc =
     (case pc of
        BroadcastPrepare p \<Rightarrow> backed I s v (pr_digest p)
      | AddPrepare p \<Rightarrow> backed I s v (pr_digest p)
      | QueryPrepare d \<Rightarrow> backed I s v d
      | RecvPrepare d _ \<Rightarrow> backed I s v d
      | BroadcastCommit c \<Rightarrow> prepared I s v (cm_digest c)
      | AddCommit c \<Rightarrow> prepared I s v (cm_digest c)
      | QueryCommit d \<Rightarrow> prepared I s v d
      | RecvCommit d _ \<Rightarrow> prepared I s v d
      | RoundDone seals \<Rightarrow> (\<exists>d. prepared I s v d \<and> seals_valid I (view_height v) d seals)
      | RoundPanicked \<Rightarrow> st = 2 \<longrightarrow> (\<exists>d. prepared I s v d)
      | _ \<Rightarrow> True)"

definition round_backed :: "ibft \<Rightarrow> consensus_messages \<Rightarrow> round_task \<Rightarrow> bool" where
  "round_backed I s t \<longleftrightarrow> pc_backed I s (rt_view t) (srs_run_state (rt_state t)) (rt_pc t)"

subsection \<open>Signing never fails\<close>

lemma digest_length_32:
  assumes "externals_ok E" and "proposal_verify_block_digest E p"
  shows "length (ps_digest p) = 32"
  using assms digest_lengths(5) [of E]
  by (metis externals_ok_def proposal_verify_block_digest_def proposed_block_digest_def)

lemma propose_pc:
  assumes "ibft_ok I h" and "is_proposer (ibft_validators I) (self_of I) v"
  obtains p where "propose I v raw rcc = BroadcastProposal p" and "own_proposal I v p"
proof -
  obtain p where p: "proposal_into_signed (ibft_externals I) (proposal_new (ibft_externals I) v raw rcc) (ibft_signer I) = Some p"
    "proposal_message p = proposal_new (ibft_externals I) v raw rcc"
    "proposal_recover_signer (ibft_externals I) p = Inr (self_of I)"
    by (rule proposal_into_signed_recovers) (use assms in \<open>auto simp: ibft_ok_def\<close>)
  then show thesis
    using that [of p] assms(2) proposal_new_digest [OF p(2)] by (simp add: propose_def own_proposal_def)
qed

lemma vote_prepare_pc:
  assumes "ibft_ok I h" and "\<not> is_proposer (ibft_validators I) (self_of I) v" and "length d = 32"
  obtains p where "vote_prepare I v d = BroadcastPrepare p" and "own_prepare I v p" and "pr_digest p = d"
proof -
  obtain p where p: "prepare_into_signed (ibft_externals I) (prepare_new v d) (ibft_signer I) = Some p"
    "prepare_message p = prepare_new v d" "prepare_recover_signer (ibft_externals I) p = Inr (self_of I)"
    by (rule prepare_into_signed_recovers) (use assms in \<open>auto simp: ibft_ok_def\<close>)
  then show thesis
    using that [of p] assms(2,3) by (simp add: vote_prepare_def own_prepare_def prepare_new_def)
qed

lemma vote_commit_pc:
  assumes "ibft_ok I h" and "length d = 32"
  obtains c where "vote_commit I v d = BroadcastCommit c" and "own_commit I v c" and "cm_digest c = d"
proof -
  have ok: "externals_ok (ibft_externals I)" "signer_wf (ibft_externals I) (ibft_signer I)"
    using assms by (auto simp: ibft_ok_def)
  obtain m where m: "commit_new (ibft_externals I) v d (ibft_signer I) = Some m" "commit_view m = v" "commit_digest m = d"
    "signature_recover_from_prehash (ibft_externals I) (commit_seal m) d = Inr (self_of I)"
    by (rule commit_new_seals [OF ok assms(2)])
  obtain c where c: "commit_into_signed (ibft_externals I) m (ibft_signer I) = Some c" "commit_message c = m"
    "commit_recover_signer (ibft_externals I) c = Inr (self_of I)"
    by (rule commit_into_signed_recovers [OF ok])
  show thesis
    by (rule that [of c]) (use m c assms(2) in
      \<open>simp_all add: vote_commit_def own_commit_def commit_recover_seal_signer_def\<close>)
qed

subsection \<open>What the store queries of a round give\<close>

lemma proposal_query_result:
  assumes "store_inv I s" and "get_valid_proposal_digest v (proposal_verify_fn I v) s = (res, s')"
  shows "store_effect I W s s'" and "res = None \<longleftrightarrow> proposal_at s v = None" and "res = Some (Inr d) \<Longrightarrow> backed I s' v d"
proof -
  have s': "s' = snd (get_valid_proposal_digest v (proposal_verify_fn I v) s)"
    and res: "res = fst (get_valid_proposal_digest v (proposal_verify_fn I v) s)"
    using assms(2) by simp_all
  show eff: "store_effect I W s s'"
    unfolding s' by (rule query_proposal_inv(2) [OF assms(1)]) (rule proposal_verify_fn_digest)
  show "res = None \<longleftrightarrow> proposal_at s v = None"
    by (simp add: res get_valid_proposal_digest_result split: option.split)
  assume "res = Some (Inr d)"
  then obtain p where p: "proposal_at s v = Some p" "ps_digest p = d"
    "(case verification_at s v of None \<Rightarrow> proposal_verify_fn I v p | Some r \<Rightarrow> r) = Inr ()"
    by (auto simp: res get_valid_proposal_digest_result split: option.splits sum.splits)
  then have "proposal_verify_block_digest (ibft_externals I) p"
    using store_invD(6) [OF assms(1) p(1)] proposal_verify_fn_digest [of I v p] by (auto split: option.splits)
  then show "backed I s' v d"
    using p(1,2) eff unfolding backed_def store_effect_def by blast
qed

lemma backed_effect: "store_effect I W s s' \<Longrightarrow> backed I s v d \<Longrightarrow> backed I s' v d"
  unfolding backed_def store_effect_def by blast

lemma prepared_effect:
  assumes "store_effect I W s s'" and "prepared I s v d" and "v \<notin> W \<or> preps s v d \<le> preps s' v d"
  shows "prepared I s' v d"
proof -
  have "preps s v d \<le> preps s' v d" using assms(1,3) unfolding store_effect_def by blast
  then show ?thesis using assms(2) backed_effect [OF assms(1)] by (auto simp: prepared_def)
qed

lemma prepare_count_result:
  assumes "store_inv I s" and "get_valid_prepare_count v (\<lambda>p. pr_digest p = d) s = (n, s')"
  shows "store_effect I {v} s s'" and "n = preps s v d" and "preps s' v d = preps s v d"
proof -
  note wf = store_invD(1) [OF assms(1)]
  have s': "s' = snd (get_valid_prepare_count v (\<lambda>p. pr_digest p = d) s)"
    and n: "n = fst (get_valid_prepare_count v (\<lambda>p. pr_digest p = d) s)"
    using assms(2) by simp_all
  show "store_effect I {v} s s'" unfolding s' by (rule query_prepares_inv(2) [OF assms(1)])
  show "n = preps s v d" by (simp add: n store_laws wf preps_def hm_retain_def)
  show "preps s' v d = preps s v d" by (simp add: s' store_laws wf preps_def hm_retain_def)
qed

lemma commit_seals_result:
  assumes "store_inv I s" and "take_valid_commit_seals v (\<lambda>c. cm_digest c = d) (quorum_of I v) s = ((res, n), s')"
  shows "store_effect I W s s'" and "preps s' w e = preps s w e" and "res = None \<longleftrightarrow> n < quorum_of I v"
    and "res = Some seals \<Longrightarrow> seals_valid I (view_height v) d seals"
proof -
  note inv = store_invD [OF assms(1)]
  let ?valid = "hm_retain (\<lambda>_ c. cm_digest c = d) (commits_at s v)"
  have s': "s' = snd (take_valid_commit_seals v (\<lambda>c. cm_digest c = d) (quorum_of I v) s)"
    and "(res, n) = fst (take_valid_commit_seals v (\<lambda>c. cm_digest c = d) (quorum_of I v) s)"
    using assms(2) by simp_all
  then have res: "res = (if quorum_of I v \<le> length ?valid then Some (map (\<lambda>(_, c). cm_seal c) ?valid) else None)"
    and n: "n = length ?valid"
    by (simp_all add: store_laws inv(1) Let_def)
  show "store_effect I W s s'" unfolding s' by (rule query_commits_inv(2) [OF assms(1)])
  show "preps s' w e = preps s w e" by (simp add: s' preps_def store_laws inv(1))
  show "res = None \<longleftrightarrow> n < quorum_of I v" by (simp add: res n not_le)
  assume "res = Some seals"
  then have seals: "seals = map (\<lambda>(_, c). cm_seal c) ?valid" and q: "quorum_of I v \<le> length ?valid"
    by (auto simp: res split: if_splits)
  have auth: "signature_recover_from_prehash (ibft_externals I) (cm_seal c) d = Inr a \<and>
      is_validator (ibft_validators I) a (view_height v)" if "(a, c) \<in> set ?valid" for a c
    using store_authD(3) [OF inv(2), of a c v] that by (auto simp: commit_auth_def commit_recover_seal_signer_def)
  have "signed_by (\<lambda>seal. signature_recover_from_prehash (ibft_externals I) seal d) seals (map fst ?valid)"
    using auth by (auto simp: signed_by_def seals)
  moreover have "distinct (map fst ?valid)"
    using store_wfD(10) [OF inv(1), of v] by (simp add: hm_wf_def hm_retain_def distinct_map_fst_filter)
  ultimately show "seals_valid I (view_height v) d seals"
    using auth q unfolding seals_valid_def
    by (intro exI [of _ "map fst ?valid"]) (auto simp: seals)
qed

subsection \<open>Steps of the round task\<close>

definition round_kept ::
    "ibft \<Rightarrow> u64 \<Rightarrow> round_task \<Rightarrow> consensus_messages \<Rightarrow> round_task \<Rightarrow> consensus_messages \<Rightarrow> bool" where
  "round_kept I h t s t' s' \<longleftrightarrow>
     rt_view t' = rt_view t \<and> store_effect I {rt_view t} s s' \<and> round_auth I h t' \<and> round_store I s' t' \<and>
     (round_backed I s t \<longrightarrow> round_backed I s' t')"

lemmas round_inv_defs = round_kept_def round_auth_def round_store_def round_backed_def rt_goto_def rt_enter_def
  shared_run_state_update_def

lemma start_kept:
  assumes "ibft_ok I h" and "store_inv I s" and "round_auth I h t" and "round_store I s t" and "rt_pc t = Start"
  shows "round_kept I h t s (rt_goto (run_ibft_round_start I (rt_state t) b) t) s"
    and "run_ibft_round_start I (rt_state t) b \<noteq> RoundPanicked"
proof -
  let ?v = "rt_view t" and ?pc = "run_ibft_round_start I (rt_state t) b"
  have st: "srs_run_state (rt_state t) = 0" using assms(3,5) by (simp add: round_auth_def pc_auth_def)
  then have pc: "?pc = (if view_round ?v = 0 then run_proposal_0_start I ?v b else run_proposal_1_start I ?v)"
    by (simp add: run_ibft_round_start_def shared_run_state_get_def run_state_from_u8_def)
  have "pc_auth I ?v 0 ?pc \<and> (before_add ?pc \<longrightarrow> is_proposer (ibft_validators I) (self_of I) ?v) \<and>
      ?pc \<noteq> RequeryProposal \<and> ?pc \<noteq> RoundPanicked \<and> pc_backed I s ?v 0 ?pc"
  proof (cases "is_proposer (ibft_validators I) (self_of I) ?v")
    case True
    obtain p where "propose I ?v (projr b) None = BroadcastProposal p" "own_proposal I ?v p"
      by (rule propose_pc [OF assms(1) True])
    then show ?thesis
      using True unfolding pc
      by (cases b) (auto simp: run_proposal_0_start_def run_proposal_1_start_def build_and_propose_def pc_auth_def
          before_add_def pc_backed_def)
  next
    case False
    then show ?thesis
      unfolding pc by (simp add: run_proposal_0_start_def run_proposal_1_start_def pc_auth_def before_add_def pc_backed_def)
  qed
  then show "round_kept I h t s (rt_goto ?pc t) s" and "?pc \<noteq> RoundPanicked"
    using assms(3-5) st store_effect_refl [OF assms(2)]
    by (auto simp: round_inv_defs before_add_def)
qed

lemma query_rcc_kept:
  assumes "ibft_ok I h" and "store_inv I s" and "round_auth I h t" and "round_store I s t" and "rt_pc t = QueryRcc"
    and "take_valid_round_change_messages (rt_view t) f (quorum_of I (rt_view t)) s = (res, s')"
  shows "round_kept I h t s (rt_goto (wait_rcc_taken I (rt_view t) b res) t) s'"
    and "wait_rcc_taken I (rt_view t) b res \<noteq> RoundPanicked"
proof -
  let ?v = "rt_view t" and ?pc = "wait_rcc_taken I (rt_view t) b res"
  note wf = store_invD(1) [OF assms(2)]
  have s': "s' = snd (take_valid_round_change_messages ?v f (quorum_of I ?v) s)"
    and "res = fst (take_valid_round_change_messages ?v f (quorum_of I ?v) s)" using assms(6) by simp_all
  then obtain rcs n where res: "res = (rcs, n)" "quorum_of I ?v \<le> n \<Longrightarrow> rcs \<noteq> None"
    by (auto simp: store_laws wf Let_def split: if_splits)
  have st: "srs_run_state (rt_state t) = 0" and propo: "is_proposer (ibft_validators I) (self_of I) ?v"
    and round: "view_round ?v \<le> MAX_ROUND" and none: "proposal_at s ?v = None"
    using assms(3-5) by (simp_all add: round_auth_def pc_auth_def round_store_def before_add_def)
  have eff: "store_effect I {?v} s s'" unfolding s' by (rule query_round_changes_inv(1) [OF assms(2) round])
  have "proposal_at s' ?v = None" using none by (simp add: s' store_laws wf)
  moreover have "pc_auth I ?v 0 ?pc \<and> ?pc \<noteq> RequeryProposal \<and> ?pc \<noteq> RoundPanicked \<and>
      pc_backed I s' ?v 0 ?pc"
  proof (cases "n < quorum_of I ?v")
    case True
    then show ?thesis using propo by (simp add: wait_rcc_taken_def res(1) pc_auth_def pc_backed_def)
  next
    case False
    then obtain ms where "rcs = Some ms" using res(2) by auto
    moreover obtain rcc raw where "assemble_rcc ms = Some (rcc, raw)" by (rule assemble_rcc_total)
    moreover obtain p where "propose I ?v (projr b) (Some rcc) = BroadcastProposal p" "own_proposal I ?v p"
      by (rule propose_pc [OF assms(1) propo])
    moreover obtain q where "propose I ?v (the raw) (Some rcc) = BroadcastProposal q" "own_proposal I ?v q"
      by (rule propose_pc [OF assms(1) propo])
    ultimately show ?thesis
      using False
      by (cases raw; cases b) (simp_all add: wait_rcc_taken_def res(1) build_and_propose_def pc_auth_def pc_backed_def)
  qed
  ultimately show "round_kept I h t s (rt_goto ?pc t) s'" and "?pc \<noteq> RoundPanicked"
    using assms(3) st eff by (simp_all add: round_inv_defs)
qed

lemma query_proposal_kept:
  assumes "ibft_ok I h" and "store_inv I s" and "round_auth I h t" and "round_store I s t"
    and "rt_pc t = QueryProposal \<and> missing = RecvProposal \<or> rt_pc t = RequeryProposal \<and> missing = RoundPanicked"
    and "get_valid_proposal_digest (rt_view t) (proposal_verify_fn I (rt_view t)) s = (res, s')"
  shows "round_kept I h t s (rt_goto (proposal_queried I (rt_view t) missing res) t) s'"
    and "proposal_queried I (rt_view t) missing res \<noteq> RoundPanicked"
proof -
  let ?v = "rt_view t" and ?pc = "proposal_queried I (rt_view t) missing res"
  note result = proposal_query_result [OF assms(2,6)]
  have st: "srs_run_state (rt_state t) = 0" and np: "\<not> is_proposer (ibft_validators I) (self_of I) ?v"
    using assms(3,5) by (auto simp: round_auth_def pc_auth_def)
  have "pc_auth I ?v 0 ?pc \<and> \<not> before_add ?pc \<and> ?pc \<noteq> RequeryProposal \<and> pc_backed I s' ?v 0 ?pc \<and>
      ?pc \<noteq> RoundPanicked"
  proof (cases res)
    case None
    moreover have "rt_pc t \<noteq> RequeryProposal"
      using None result(2) assms(4) by (auto simp: round_store_def)
    ultimately show ?thesis
      using np assms(5) by (auto simp: proposal_queried_def pc_auth_def before_add_def pc_backed_def)
  next
    case (Some r)
    show ?thesis
    proof (cases r)
      case (Inl e)
      then show ?thesis using Some by (simp add: proposal_queried_def pc_auth_def before_add_def pc_backed_def)
    next
      case (Inr d)
      have backed: "backed I s' ?v d" using result(3) Some Inr by blast
      then have "length d = 32"
        using assms(1) digest_length_32 by (auto simp: backed_def ibft_ok_def)
      then obtain p where "vote_prepare I ?v d = BroadcastPrepare p" "own_prepare I ?v p" "pr_digest p = d"
        by (rule vote_prepare_pc [OF assms(1) np])
      then show ?thesis
        using Some Inr backed by (simp add: proposal_queried_def pc_auth_def before_add_def pc_backed_def)
    qed
  qed
  then show "round_kept I h t s (rt_goto ?pc t) s'" and "?pc \<noteq> RoundPanicked"
    using assms(3) st result(1) by (simp_all add: round_inv_defs)
qed

lemma add_proposal_kept:
  assumes "ibft_ok I h" and "store_inv I s" and "round_auth I h t" and "round_store I s t" and "rt_pc t = AddProposal p"
  shows "round_kept I h t s (rt_enter StPrepare (QueryPrepare (ps_digest p)) t) (add_proposal_message p (self_of I) s)"
proof -
  have own: "own_proposal I (rt_view t) p" and round: "view_round (rt_view t) \<le> MAX_ROUND"
    and none: "proposal_at s (rt_view t) = None"
    using assms(3-5) by (auto simp: round_auth_def pc_auth_def round_store_def before_add_def own_proposal_def)
  have "store_effect I {rt_view t} s (add_proposal_message p (self_of I) s)"
    using own round by (intro add_proposal_effect [OF assms(2)]) (auto simp: own_proposal_def proposal_auth_def)
  moreover have "backed I (add_proposal_message p (self_of I) s) (rt_view t) (ps_digest p)"
    using own none store_invD(1) [OF assms(2)] by (simp add: backed_def own_proposal_def store_laws)
  moreover have "length (ps_digest p) = 32"
    using own assms(1) digest_length_32 by (auto simp: own_proposal_def ibft_ok_def)
  ultimately show ?thesis
    using assms(3) by (simp add: round_inv_defs pc_auth_def before_add_def pc_backed_def)
qed

lemma add_prepare_kept:
  assumes "ibft_ok I h" and "store_inv I s" and "round_auth I h t" and "rt_pc t = AddPrepare p"
  shows "round_kept I h t s (rt_enter StPrepare (QueryPrepare (pr_digest p)) t) (add_prepare_message p (self_of I) s)"
proof -
  have own: "own_prepare I (rt_view t) p" and round: "view_round (rt_view t) \<le> MAX_ROUND"
    and "view_height (rt_view t) = h"
    using assms(3,4) by (auto simp: round_auth_def pc_auth_def)
  then have eff: "store_effect I {rt_view t} s (add_prepare_message p (self_of I) s)"
    using assms(1) by (intro add_prepare_effect [OF assms(2)]) (auto simp: own_prepare_def prepare_auth_def ibft_ok_def)
  then show ?thesis
    using assms(3,4) own backed_effect [OF eff]
    by (auto simp: round_inv_defs pc_auth_def before_add_def pc_backed_def own_prepare_def)
qed

lemma query_prepare_kept:
  assumes "ibft_ok I h" and "store_inv I s" and "round_auth I h t" and "rt_pc t = QueryPrepare d"
    and "get_valid_prepare_count (rt_view t) (\<lambda>p. pr_digest p = d) s = (n, s')"
  shows "round_kept I h t s (rt_goto (prepares_counted I (rt_view t) d n) t) s'"
    and "prepares_counted I (rt_view t) d n \<noteq> RoundPanicked"
proof -
  let ?v = "rt_view t"
  note result = prepare_count_result [OF assms(2,5)]
  have st: "srs_run_state (rt_state t) = 1" and len: "length d = 32"
    using assms(3,4) by (auto simp: round_auth_def pc_auth_def)
  obtain c where c: "vote_commit I ?v d = BroadcastCommit c" "own_commit I ?v c" "cm_digest c = d"
    by (rule vote_commit_pc [OF assms(1) len])
  have "prepared I s' ?v d" if "backed I s ?v d" and "\<not> n < usize_pred (quorum_of I ?v)"
    using that backed_effect [OF result(1)] result(2,3) by (auto simp: prepared_def)
  then show "round_kept I h t s (rt_goto (prepares_counted I ?v d n) t) s'"
    using assms(3,4) st len c result(1) backed_effect [OF result(1)]
    by (auto simp: round_inv_defs prepares_counted_def pc_auth_def before_add_def pc_backed_def)
  show "prepares_counted I ?v d n \<noteq> RoundPanicked" using c(1) by (simp add: prepares_counted_def)
qed

lemma add_commit_kept:
  assumes "ibft_ok I h" and "store_inv I s" and "round_auth I h t" and "rt_pc t = AddCommit c"
  shows "round_kept I h t s (rt_enter StCommit (QueryCommit (cm_digest c)) t) (add_commit_message c (self_of I) s)"
proof -
  have own: "own_commit I (rt_view t) c" and "view_round (rt_view t) \<le> MAX_ROUND" and "view_height (rt_view t) = h"
    using assms(3,4) by (auto simp: round_auth_def pc_auth_def)
  then have eff: "store_effect I W s (add_commit_message c (self_of I) s)" for W
    using assms(1) by (intro add_commit_effect [OF assms(2)]) (auto simp: own_commit_def commit_auth_def ibft_ok_def)
  then show ?thesis
    using assms(3,4) own prepared_effect [OF eff [of "{}"]]
    by (auto simp: round_inv_defs pc_auth_def before_add_def pc_backed_def own_commit_def)
qed

lemma query_commit_kept:
  assumes "store_inv I s" and "round_auth I h t" and "rt_pc t = QueryCommit d"
    and "take_valid_commit_seals (rt_view t) (\<lambda>c. cm_digest c = d) (quorum_of I (rt_view t)) s = (res, s')"
  shows "round_kept I h t s (rt_goto (commits_taken I (rt_view t) d res) t) s'"
    and "commits_taken I (rt_view t) d res \<noteq> RoundPanicked"
proof -
  let ?v = "rt_view t"
  obtain seals n where res: "res = (seals, n)" by (cases res)
  note result = commit_seals_result [OF assms(1) assms(4) [unfolded res]]
  have st: "srs_run_state (rt_state t) = 2" and len: "length d = 32"
    using assms(2,3) by (auto simp: round_auth_def pc_auth_def)
  have prep: "prepared I s ?v d \<Longrightarrow> prepared I s' ?v d"
    using prepared_effect [OF result(1) [of "{}"]] by simp
  show "round_kept I h t s (rt_goto (commits_taken I ?v d res) t) s'"
    using assms(2,3) st len prep result
    by (cases seals) (auto simp: res round_inv_defs commits_taken_def pc_auth_def before_add_def pc_backed_def)
  show "commits_taken I ?v d res \<noteq> RoundPanicked"
    using result(3) by (cases seals) (auto simp: res commits_taken_def)
qed

lemma broadcast_kept:
  assumes "store_inv I s" and "round_auth I h t" and "round_store I s t"
    and "rt_pc t = BroadcastProposal p \<and> pc = AddProposal p \<or> rt_pc t = BroadcastPrepare q \<and> pc = AddPrepare q \<or>
         rt_pc t = BroadcastCommit c \<and> pc = AddCommit c"
  shows "round_kept I h t s (rt_goto pc t) s"
  using assms(2-4) store_effect_refl [OF assms(1)]
  by (auto simp: round_inv_defs pc_auth_def before_add_def pc_backed_def)

lemma round_poll_kept:
  assumes "ibft_ok I h" and "store_inv I s" and "round_auth I h t" and "round_store I s t"
    and "round_poll I b t s = Some (t', s', msgs)"
  shows "round_kept I h t s t' s' \<and> rt_pc t' \<noteq> RoundPanicked"
proof (cases "rt_pc t")
  case QueryRcc
  then show ?thesis
    using assms(5) query_rcc_kept [OF assms(1-4) QueryRcc] by (auto simp: round_poll_def Let_def rt_goto_def split: prod.splits)
next
  case QueryProposal
  then show ?thesis
    using assms(5) query_proposal_kept [OF assms(1-4), of RecvProposal]
    by (auto simp: round_poll_def Let_def rt_goto_def split: prod.splits)
next
  case RequeryProposal
  then show ?thesis
    using assms(5) query_proposal_kept [OF assms(1-4), of RoundPanicked]
    by (auto simp: round_poll_def Let_def rt_goto_def split: prod.splits)
next
  case (QueryPrepare d)
  then show ?thesis
    using assms(5) query_prepare_kept [OF assms(1-3) QueryPrepare]
    by (auto simp: round_poll_def Let_def rt_goto_def split: prod.splits)
next
  case (QueryCommit d)
  then show ?thesis
    using assms(5) query_commit_kept [OF assms(2,3) QueryCommit]
    by (auto simp: round_poll_def Let_def rt_goto_def split: prod.splits)
qed (use assms(5) start_kept [OF assms(1-4)] add_proposal_kept [OF assms(1-4)] add_prepare_kept [OF assms(1-3)]
      add_commit_kept [OF assms(1-3)] broadcast_kept [OF assms(2-4)] in
      \<open>auto simp: round_poll_def Let_def rt_goto_def rt_enter_def\<close>)

lemma round_recv_kept:
  assumes "store_inv I s" and "round_auth I h t" and "round_store I s t"
    and "w \<in> set (round_channel (rt_pc t) s)" and "round_recv I w t = Some t'"
    and "rt_view t \<in> set (proposal_tx s) \<Longrightarrow> proposal_at s (rt_view t) \<noteq> None \<or> srs_run_state (rt_state t) = 2"
  shows "round_kept I h t s t' s \<and> rt_pc t' \<noteq> RoundPanicked"
  using assms(2-6) store_effect_refl [OF assms(1)]
  by (cases "rt_pc t")
    (auto simp: round_recv_def round_channel_def counted_recv_def Let_def round_inv_defs pc_auth_def before_add_def
      pc_backed_def split: if_splits)

lemma recv_error_kept:
  assumes "store_inv I s" and "round_auth I h t" and "round_store I s t" and "round_receiving (rt_pc t)"
  shows "round_kept I h t s (rt_goto RoundPanicked t) s"
  using assms(2-4) store_effect_refl [OF assms(1)]
  by (cases "rt_pc t") (auto simp: round_receiving_def round_inv_defs pc_auth_def before_add_def pc_backed_def)

text \<open>Every step of a round task; only a failing receiver makes it panic.\<close>

lemma round_step_kept:
  assumes "ibft_ok I h" and "store_inv I s" and "round_auth I h t" and "round_store I s t"
    and "event_from ev (round_channel (rt_pc t) s)" and "round_step I ev t s = Some (t', s', msgs)"
    and "rt_view t \<in> set (proposal_tx s) \<Longrightarrow> proposal_at s (rt_view t) \<noteq> None \<or> srs_run_state (rt_state t) = 2"
  shows "round_kept I h t s t' s'" and "rt_pc t' = RoundPanicked \<Longrightarrow> ev = RecvError"
  using assms(5,6) round_poll_kept [OF assms(1-4)] round_recv_kept [OF assms(2-4) _ _ assms(7)]
    recv_error_kept [OF assms(2-4)]
  by (cases ev; auto simp: event_from_def split: if_splits)+

text \<open>A step elsewhere does not disturb a task of another view.\<close>

lemma round_store_effect:
  assumes "store_effect I W s s'" and "rt_view t \<notin> W" and "round_store I s t"
  shows "round_store I s' t"
  using assms unfolding round_store_def store_effect_def by (metis not_Some_eq)

lemma pc_backed_effect:
  assumes "store_effect I W s s'" and "v \<notin> W" and "pc_backed I s v st pc"
  shows "pc_backed I s' v st pc"
proof -
  have "backed I s v d \<Longrightarrow> backed I s' v d" and "prepared I s v d \<Longrightarrow> prepared I s' v d" for d
    using backed_effect [OF assms(1)] prepared_effect [OF assms(1)] assms(2) by blast+
  then show ?thesis using assms(3) unfolding pc_backed_def by (cases pc) auto
qed

lemma round_backed_effect:
  assumes "store_effect I W s s'" and "rt_view t \<notin> W" and "round_backed I s t"
  shows "round_backed I s' t"
  using pc_backed_effect [OF assms(1,2)] assms(3) by (simp add: round_backed_def)

lemma round_backed_commit:
  assumes "round_auth I h t" and "round_backed I s t" and "srs_run_state (rt_state t) = 2"
  obtains d where "prepared I s (rt_view t) d"
  using assms by (cases "rt_pc t") (auto simp: round_auth_def pc_auth_def round_backed_def pc_backed_def Let_def)

subsection \<open>Steps of the monitors\<close>

definition monitor_auth :: "u64 \<Rightarrow> monitor_task \<Rightarrow> bool" where
  "monitor_auth h m \<longleftrightarrow>
     (let above = (\<lambda>r. view_round (mt_view m) < r \<and> r \<le> MAX_ROUND);
          arr = (\<lambda>ns. mt_kind m = FutureRcc \<longrightarrow> length ns = ROUND_ARRAY_SIZE) in
      view_height (mt_view m) = h \<and>
      (case mt_pc m of
         MonitorScan rs ns \<Rightarrow> (\<forall>r \<in> set rs. above r) \<and> arr ns
       | MonitorRecv ns \<Rightarrow> arr ns
       | MonitorCheck w ns \<Rightarrow> view_height w = h \<and> view_round (mt_view m) < view_round w \<and>
           (mt_kind m = FutureRcc \<longrightarrow> view_round w \<le> MAX_ROUND) \<and> arr ns
       | MonitorDone r \<Rightarrow> above r
       | _ \<Rightarrow> True))"

lemma rounds_above_mem:
  assumes "r \<in> set (rounds_above v ROUND_ARRAY_SIZE)"
  shows "v < r \<and> r \<le> MAX_ROUND"
proof -
  obtain i where "r = of_nat i" "unat v < i" "i < 22"
    using assms by (auto simp: rounds_above_def)
  then have "unat r = i" by (simp add: unsigned_of_nat take_bit_nat_eq_self)
  then show ?thesis using \<open>unat v < i\<close> \<open>i < 22\<close> by (simp add: word_less_nat_alt word_le_nat_alt MAX_ROUND_def)
qed

lemma proposal_1_fn_digest:
  "proposal_1_verify_fn (ibft_externals I) V B q p = Inr () \<Longrightarrow> proposal_verify_block_digest (ibft_externals I) p"
  by (simp add: proposal_1_accepts_iff)

definition monitor_kept ::
    "ibft \<Rightarrow> u64 \<Rightarrow> monitor_task \<Rightarrow> consensus_messages \<Rightarrow> monitor_task \<Rightarrow> consensus_messages \<Rightarrow> bool" where
  "monitor_kept I h m s m' s' \<longleftrightarrow>
     mt_view m' = mt_view m \<and> mt_kind m' = mt_kind m \<and> monitor_auth h m' \<and> store_effect I {} s s'"

lemma monitor_query_proposal:
  assumes "store_inv I s"
    and "get_valid_proposal_digest w (proposal_1_verify_fn (ibft_externals I) V B q) s = (res, s')"
  shows "store_effect I W s s'" and "res = Some r \<Longrightarrow> view_round w \<le> MAX_ROUND"
proof -
  have s': "s' = snd (get_valid_proposal_digest w (proposal_1_verify_fn (ibft_externals I) V B q) s)"
    and res: "res = fst (get_valid_proposal_digest w (proposal_1_verify_fn (ibft_externals I) V B q) s)"
    using assms(2) by simp_all
  show "store_effect I W s s'"
    unfolding s' by (rule query_proposal_inv(2) [OF assms(1)]) (rule proposal_1_fn_digest)
  show "res = Some r \<Longrightarrow> view_round w \<le> MAX_ROUND"
    using store_invD(7) [OF assms(1)] by (auto simp: res get_valid_proposal_digest_result split: option.splits)
qed

lemma proposal_monitor_poll_kept:
  assumes "store_inv I s" and "monitor_auth h m" and "mt_kind m = FutureProposal"
    and "proposal_monitor_poll I (mt_view m) (mt_pc m) s = Some (pc, s')"
  shows "monitor_kept I h m s (m\<lparr>mt_pc := pc\<rparr>) s' \<and> pc \<noteq> MonitorPanicked"
proof (cases "mt_pc m")
  case MonitorStart
  obtain arr where arr: "fst (has_proposal_by_round (view_height (mt_view m)) s) = Some arr" "length arr = ROUND_ARRAY_SIZE"
    by (rule has_proposal_by_round_spec [OF store_invD(1,2) [OF assms(1)]])
  obtain s1 where s1: "has_proposal_by_round (view_height (mt_view m)) s = (Some arr, s1)"
    using arr(1) by (metis prod.collapse)
  then have "store_effect I {} s s1"
    using query_by_round_inv(1) [OF assms(1), of "{}" "view_height (mt_view m)"] by simp
  then show ?thesis
    using assms(2-4) MonitorStart s1 arr(2)
    by (auto simp: proposal_monitor_poll_def Let_def monitor_kept_def monitor_auth_def simp del: round_array_size
        dest: rounds_above_mem)
next
  case (MonitorScan rs ns)
  then show ?thesis
    using assms monitor_query_proposal [OF assms(1)] store_effect_refl [OF assms(1)]
    by (cases rs) (auto simp: proposal_monitor_poll_def Let_def monitor_kept_def monitor_auth_def split: prod.splits if_splits)
next
  case (MonitorCheck w ns)
  then show ?thesis
    using assms monitor_query_proposal [OF assms(1)]
    by (auto simp: proposal_monitor_poll_def Let_def monitor_kept_def monitor_auth_def
        split: prod.splits option.splits sum.splits)
qed (use assms(4) in \<open>simp_all add: proposal_monitor_poll_def Let_def\<close>)

lemma rcc_monitor_poll_kept:
  assumes "store_inv I s" and "monitor_auth h m" and "mt_kind m = FutureRcc"
    and "rcc_monitor_poll I (mt_view m) (mt_pc m) s = Some (pc, s')"
  shows "monitor_kept I h m s (m\<lparr>mt_pc := pc\<rparr>) s' \<and> pc \<noteq> MonitorPanicked"
proof (cases "mt_pc m")
  case MonitorStart
  have "\<forall>v \<in> rc_views s. view_round v \<le> MAX_ROUND" using store_invD(4) [OF assms(1)] by blast
  then obtain ns where ns: "fst (round_change_count_by_round (view_height (mt_view m)) s) = Some ns" "length ns = ROUND_ARRAY_SIZE"
    by (rule round_change_count_by_round_spec [OF store_invD(1) [OF assms(1)]])
  obtain s1 where s1: "round_change_count_by_round (view_height (mt_view m)) s = (Some ns, s1)"
    using ns(1) by (metis prod.collapse)
  then have "store_effect I {} s s1"
    using query_by_round_inv(2) [OF assms(1), of "{}" "view_height (mt_view m)"] by simp
  then show ?thesis
    using assms(2-4) MonitorStart s1 ns(2)
    by (auto simp: rcc_monitor_poll_def Let_def monitor_kept_def monitor_auth_def simp del: round_array_size
        dest: rounds_above_mem)
next
  case (MonitorScan rs ns)
  have "store_effect I {} s (snd (get_valid_round_change_count (view_new h r) f s))" if "r \<in> set rs" for r f
    by (rule query_round_changes_inv(2) [OF assms(1)])
      (use assms(2) MonitorScan that in \<open>auto simp: monitor_auth_def view_new_def\<close>)
  then show ?thesis
    using assms MonitorScan store_effect_refl [OF assms(1)]
    by (cases rs)
      (auto simp: rcc_monitor_poll_def Let_def monitor_kept_def monitor_auth_def case_prod_unfold split: if_splits)
next
  case (MonitorCheck w ns)
  have "store_effect I {} s (snd (get_valid_round_change_count w f s))" for f
    by (rule query_round_changes_inv(2) [OF assms(1)]) (use assms(2,3) MonitorCheck in \<open>auto simp: monitor_auth_def\<close>)
  then show ?thesis
    using assms MonitorCheck
    by (auto simp: rcc_monitor_poll_def Let_def monitor_kept_def monitor_auth_def case_prod_unfold split: if_splits)
qed (use assms(4) in \<open>simp_all add: rcc_monitor_poll_def Let_def\<close>)

lemma monitor_recv_kept:
  assumes "store_inv I s" and "monitor_auth h m" and "w \<in> set (monitor_channel (mt_kind m) s)"
    and "(case mt_kind m of FutureProposal \<Rightarrow> proposal_monitor_recv (mt_view m) w (mt_pc m)
          | FutureRcc \<Rightarrow> rcc_monitor_recv I (mt_view m) w (mt_pc m)) = Some pc"
  shows "monitor_kept I h m s (m\<lparr>mt_pc := pc\<rparr>) s \<and> pc \<noteq> MonitorPanicked"
proof -
  have "view_round w \<le> MAX_ROUND" if "mt_kind m = FutureRcc"
    using assms(3) that store_invD(5) [OF assms(1)] by (simp add: monitor_channel_def)
  then show ?thesis
    using assms(2,4) store_effect_refl [OF assms(1)] round_in_array [of "view_round w"]
    by (cases "mt_kind m"; cases "mt_pc m")
      (auto simp: proposal_monitor_recv_def rcc_monitor_recv_def Let_def monitor_kept_def monitor_auth_def
        split: if_splits monitor_pc.split)
qed

text \<open>Every step of a monitor; only a failing receiver makes it panic.\<close>

lemma monitor_step_kept:
  assumes "store_inv I s" and "monitor_auth h m" and "event_from ev (monitor_channel (mt_kind m) s)"
    and "monitor_step I ev m s = Some (m', s')"
  shows "monitor_kept I h m s m' s'" and "mt_pc m' = MonitorPanicked \<Longrightarrow> ev = RecvError"
proof -
  have "monitor_kept I h m s m' s' \<and> (mt_pc m' = MonitorPanicked \<longrightarrow> ev = RecvError)"
  proof (cases ev)
    case (Poll b)
    then show ?thesis
      using assms(4) proposal_monitor_poll_kept [OF assms(1,2)] rcc_monitor_poll_kept [OF assms(1,2)]
      by (cases "mt_kind m") auto
  next
    case (Recv w)
    then show ?thesis
      using assms(3,4) monitor_recv_kept [OF assms(1,2)] by (auto simp: event_from_def)
  next
    case RecvError
    then show ?thesis
      using assms(2,4) store_effect_refl [OF assms(1)]
      by (cases "mt_pc m") (auto simp: monitor_kept_def monitor_auth_def Let_def)
  qed
  then show "monitor_kept I h m s m' s'" and "mt_pc m' = MonitorPanicked \<Longrightarrow> ev = RecvError" by blast+
qed

end
