(* ===== verification/Node_Invariant.thy ===== *)
theory Node_Invariant
  imports Task_Invariant
begin

text \<open>
  The invariant of a running node and its preservation by every step: by the handler, by any
  spawned task (also one of an earlier round that was aborted and still runs), by \<open>run_height\<close>,
  and by a change of iteration order. It holds until the store is pruned at the end of the height.
\<close>

definition block_valid :: "ibft \<Rightarrow> u64 \<Rightarrow> finalized_block \<Rightarrow> bool" where
  "block_valid I h b \<longleftrightarrow>
     seals_valid I h (digest_block (ibft_externals I) (final_raw_block b) (proof_round (final_proof b)))
       (proof_seals (final_proof b))"

definition own_round_change :: "ibft \<Rightarrow> u64 \<Rightarrow> round_change_signed \<Rightarrow> bool" where
  "own_round_change I h rc \<longleftrightarrow>
     rc_recover_signer (ibft_externals I) rc = Inr (self_of I) \<and> view_height (rcs_view rc) = h \<and>
     view_round (rcs_view rc) \<noteq> 0 \<and> round_change_verify_fn (ibft_externals I) (ibft_validators I) h rc"

text \<open>The newest task is that of the view, and nothing it relies on was taken.\<close>

definition current :: "ibft \<Rightarrow> consensus_messages \<Rightarrow> view \<Rightarrow> round_task list \<Rightarrow> bool" where
  "current I s v ts \<longleftrightarrow> ts \<noteq> [] \<and> rt_view (hd ts) = v \<and> round_backed I s (hd ts)"

definition in_commit :: "view \<Rightarrow> round_task list \<Rightarrow> bool" where
  "in_commit v ts \<longleftrightarrow> ts \<noteq> [] \<and> rt_view (hd ts) = v \<and> srs_run_state (rt_state (hd ts)) = 2"

definition pc_inv :: "ibft \<Rightarrow> run_pc \<Rightarrow> view \<Rightarrow> consensus_messages \<Rightarrow> round_task list \<Rightarrow> bool" where
  "pc_inv I pc v s ts =
     (let h = view_height v in
      case pc of
        RunStart r \<Rightarrow> (\<forall>t \<in> set ts. view_round (rt_view t) < r) \<and>
          (r \<le> MAX_ROUND \<or> r = MAX_ROUND + 1 \<and> view_round v = MAX_ROUND)
      | RunSpawnRound \<Rightarrow> (\<forall>t \<in> set ts. view_round (rt_view t) < view_round v)
      | RunSelect _ \<Rightarrow> current I s v ts
      | RunFinish seals \<Rightarrow> current I s v ts \<and> rt_pc (hd ts) = RoundDone seals
      | RunTimeout \<Rightarrow> current I s v ts
      | RunTakeProposal \<Rightarrow> current I s v ts \<and> in_commit v ts
      | RunTakePrepares p \<Rightarrow> in_commit v ts \<and> ps_view p = v \<and>
          proposal_auth (ibft_externals I) (ibft_validators I) v p \<and>
          proposal_verify_block_digest (ibft_externals I) p \<and> usize_pred (quorum_of I v) \<le> preps s v (ps_digest p)
      | RunBroadcastRc rc \<Rightarrow> ts \<noteq> [] \<and> rt_view (hd ts) = v \<and> own_round_change I h rc \<and>
          rcs_view rc = view_new h (view_round v + 1)
      | RunBroadcastBlock b \<Rightarrow> block_valid I h b
      | RunReturn r \<Rightarrow> (\<forall>b. r = Some b \<longrightarrow> block_valid I h b)
      | RunPrune b \<Rightarrow> block_valid I h b
      | RunExit r \<Rightarrow> (\<forall>b. r = Some b \<longrightarrow> block_valid I h b)
      | RunPanicked \<Rightarrow> view_round v = MAX_ROUND)"

text \<open>Round tasks are of one height and of decreasing rounds; proposals and notifications fit them.\<close>

definition rounds_inv :: "ibft \<Rightarrow> u64 \<Rightarrow> consensus_messages \<Rightarrow> round_task list \<Rightarrow> bool" where
  "rounds_inv I h s ts \<longleftrightarrow>
     (\<forall>t \<in> set ts. round_auth I h t \<and> round_store I s t) \<and>
     sorted_wrt (\<lambda>t u. view_round (rt_view u) < view_round (rt_view t)) ts \<and>
     (\<forall>v. h \<le> view_height v \<longrightarrow> is_proposer (ibft_validators I) (self_of I) v \<longrightarrow>
        v \<notin> rt_view ` set ts \<longrightarrow> proposal_at s v = None) \<and>
     (\<forall>v \<in> set (proposal_tx s). h \<le> view_height v \<longrightarrow>
        proposal_at s v \<noteq> None \<or> (\<exists>t \<in> set ts. rt_view t = v \<and> srs_run_state (rt_state t) = 2))"

definition monitors_inv :: "u64 \<Rightarrow> view \<Rightarrow> monitor_kind \<Rightarrow> monitor_task list \<Rightarrow> bool" where
  "monitors_inv h v k ms \<longleftrightarrow>
     (\<forall>m \<in> set ms. monitor_auth h m \<and> mt_kind m = k) \<and> (ms \<noteq> [] \<longrightarrow> mt_view (hd ms) = v)"

definition latest_inv :: "ibft \<Rightarrow> run_pc \<Rightarrow> view \<Rightarrow> round_change_signed option \<Rightarrow> bool" where
  "latest_inv I pc v latest \<longleftrightarrow>
     (\<forall>rc. latest = Some rc \<longrightarrow> own_round_change I (view_height v) rc \<and>
        view_round (rcs_view rc) \<le> (case pc of RunStart r \<Rightarrow> r | RunPanicked \<Rightarrow> MAX_ROUND + 1 | _ \<Rightarrow> view_round v)) \<and>
     (pc = RunPanicked \<or> pc = RunStart (MAX_ROUND + 1) \<longrightarrow>
        (\<exists>rc. latest = Some rc \<and> view_round (rcs_view rc) = MAX_ROUND + 1))"

definition exited :: "run_pc \<Rightarrow> bool" where
  "exited pc = (case pc of RunExit _ \<Rightarrow> True | _ \<Rightarrow> False)"

definition tasks_inv :: "ibft \<Rightarrow> u64 \<Rightarrow> node \<Rightarrow> bool" where
  "tasks_inv I h n \<longleftrightarrow>
     store_inv I (nd_store n) \<and> rounds_inv I h (nd_store n) (nd_rounds n) \<and>
     monitors_inv h (nd_view n) FutureProposal (nd_proposal_monitors n) \<and>
     monitors_inv h (nd_view n) FutureRcc (nd_rcc_monitors n) \<and>
     pc_inv I (nd_pc n) (nd_view n) (nd_store n) (nd_rounds n) \<and>
     latest_inv I (nd_pc n) (nd_view n) (nd_latest n)"

definition node_inv :: "ibft \<Rightarrow> u64 \<Rightarrow> node \<Rightarrow> bool" where
  "node_inv I h n \<longleftrightarrow>
     view_height (nd_view n) = h \<and> view_round (nd_view n) \<le> MAX_ROUND \<and>
     handler_address (nd_handler n) = self_of I \<and> (\<forall>b \<in> set (nd_blocks n). block_valid I h b) \<and>
     (if exited (nd_pc n) then pc_inv I (nd_pc n) (nd_view n) (nd_store n) (nd_rounds n)
      else tasks_inv I h n \<and> ((\<forall>b. nd_pc n \<noteq> RunPrune b) \<longrightarrow> handler_height (nd_handler n) < h))"

subsection \<open>Steps of other parties\<close>

lemma rounds_invD:
  assumes "rounds_inv I h s ts"
  shows "t \<in> set ts \<Longrightarrow> round_auth I h t" and "t \<in> set ts \<Longrightarrow> round_store I s t"
    and "sorted_wrt (\<lambda>t u. view_round (rt_view u) < view_round (rt_view t)) ts"
    and "h \<le> view_height v \<Longrightarrow> is_proposer (ibft_validators I) (self_of I) v \<Longrightarrow> v \<notin> rt_view ` set ts \<Longrightarrow>
       proposal_at s v = None"
    and "v \<in> set (proposal_tx s) \<Longrightarrow> h \<le> view_height v \<Longrightarrow>
       proposal_at s v \<noteq> None \<or> (\<exists>t \<in> set ts. rt_view t = v \<and> srs_run_state (rt_state t) = 2)"
  using assms unfolding rounds_inv_def by blast+

lemma rounds_invI:
  assumes "\<And>t. t \<in> set ts \<Longrightarrow> round_auth I h t \<and> round_store I s t"
    and "sorted_wrt (\<lambda>t u. view_round (rt_view u) < view_round (rt_view t)) ts"
    and "\<And>v. h \<le> view_height v \<Longrightarrow> is_proposer (ibft_validators I) (self_of I) v \<Longrightarrow> v \<notin> rt_view ` set ts \<Longrightarrow>
       proposal_at s v = None"
    and "\<And>v. v \<in> set (proposal_tx s) \<Longrightarrow> h \<le> view_height v \<Longrightarrow>
       proposal_at s v \<noteq> None \<or> (\<exists>t \<in> set ts. rt_view t = v \<and> srs_run_state (rt_state t) = 2)"
  shows "rounds_inv I h s ts"
  using assms unfolding rounds_inv_def by blast

text \<open>Notifications stay explained when the proposals stay.\<close>

lemma tx_explained:
  assumes "store_effect I W s s'" and "v \<in> set (proposal_tx s')"
    and "v \<in> set (proposal_tx s) \<Longrightarrow> proposal_at s v \<noteq> None \<or> Q"
  shows "proposal_at s' v \<noteq> None \<or> Q"
  using assms store_effectD(1,4) [OF assms(1)] by blast

lemma rounds_inv_other:
  assumes "rounds_inv I h s ts" and "store_effect I {} s s'"
  shows "rounds_inv I h s' ts"
proof (rule rounds_invI)
  note inv = rounds_invD [OF assms(1)] and eff = store_effectD [OF assms(2)]
  show "round_auth I h t \<and> round_store I s' t" if "t \<in> set ts" for t
    using inv(1,2) [OF that] round_store_effect [OF assms(2)] by simp
  show "proposal_at s' v = None" if "h \<le> view_height v" and "is_proposer (ibft_validators I) (self_of I) v"
    and "v \<notin> rt_view ` set ts" for v
    using inv(4) [OF that] eff(2) that(2) by simp
  show "proposal_at s' v \<noteq> None \<or> (\<exists>t \<in> set ts. rt_view t = v \<and> srs_run_state (rt_state t) = 2)"
    if "v \<in> set (proposal_tx s')" and "h \<le> view_height v" for v
    using tx_explained [OF assms(2) that(1) inv(5) [OF _ that(2)]] .
qed (rule rounds_invD(3) [OF assms(1)])

lemma current_effect:
  assumes "current I s v ts" and "store_effect I W s s'" and "v \<notin> W"
  shows "current I s' v ts"
  using assms round_backed_effect by (auto simp: current_def)

lemma pc_inv_other:
  assumes "pc_inv I pc v s ts" and "store_effect I W s s'" and "v \<notin> W"
  shows "pc_inv I pc v s' ts"
proof -
  have "preps s v d \<le> preps s' v d" for d using assms(2,3) unfolding store_effect_def by blast
  then show ?thesis
    using assms(1) current_effect [OF _ assms(2,3)] unfolding pc_inv_def
    by (cases pc) (auto simp: Let_def dest: order.trans)
qed

lemma exited_other: "exited pc \<Longrightarrow> pc_inv I pc v s ts = pc_inv I pc v s' ts'"
  by (cases pc) (auto simp: exited_def pc_inv_def)

text \<open>A step that changes only the store, with an effect outside the tasks' views.\<close>

lemma tasks_inv_other:
  assumes "tasks_inv I h n" and "store_effect I {} (nd_store n) s"
  shows "tasks_inv I h (n\<lparr>nd_store := s\<rparr>)"
  using assms rounds_inv_other [OF _ assms(2)] pc_inv_other [OF _ assms(2)] store_effect_inv [OF assms(2)]
  by (auto simp: tasks_inv_def)

lemma node_inv_store:
  assumes "node_inv I h n" and "\<not> exited (nd_pc n) \<Longrightarrow> store_effect I {} (nd_store n) s"
  shows "node_inv I h (n\<lparr>nd_store := s\<rparr>)"
  using assms tasks_inv_other [of I h n s] exited_other [of "nd_pc n" I "nd_view n" s "nd_rounds n" "nd_store n" "nd_rounds n"]
  by (simp add: node_inv_def split: if_splits)

lemma deliver_inv:
  assumes "ibft_ok I h" and "node_inv I h n"
  shows "node_inv I h (node_deliver I m n)"
  unfolding node_deliver_def by (rule node_inv_store [OF assms(2)])
    (use assms in \<open>auto simp: node_inv_def tasks_inv_def intro!: deliver_effect [OF assms(1)]\<close>)

lemma reorder_inv:
  assumes "node_inv I h n" and "reordered (nd_store n) s"
  shows "node_inv I h (n\<lparr>nd_store := s\<rparr>)"
  by (rule node_inv_store [OF assms(1)])
    (use assms in \<open>auto simp: node_inv_def tasks_inv_def intro!: reorder_effect\<close>)

lemma monitors_inv_step:
  assumes "monitors_inv h v k ms" and "i < length ms" and "monitor_kept I h (ms ! i) s m' s'"
  shows "monitors_inv h v k (ms[i := m'])"
proof -
  have "mt_kind m' = k" using assms by (simp add: monitors_inv_def monitor_kept_def)
  moreover have "ms[i := m'] \<noteq> [] \<longrightarrow> mt_view (hd (ms[i := m'])) = v"
    using assms by (cases ms; cases i) (auto simp: monitors_inv_def monitor_kept_def)
  ultimately show ?thesis
    using assms set_update_subset_insert [of ms i m'] by (auto simp: monitors_inv_def monitor_kept_def)
qed

lemma monitor_rule_inv:
  assumes "node_inv I h n" and "i < length (nd_proposal_monitors n)"
    and "event_from ev (monitor_channel (mt_kind (nd_proposal_monitors n ! i)) (nd_store n))"
    and "monitor_step I ev (nd_proposal_monitors n ! i) (nd_store n) = Some (m, s)"
  shows "node_inv I h (n\<lparr>nd_store := s, nd_proposal_monitors := (nd_proposal_monitors n)[i := m]\<rparr>)"
proof (cases "exited (nd_pc n)")
  case True
  then show ?thesis using assms(1) exited_other [OF True, of I "nd_view n" s] by (auto simp: node_inv_def)
next
  case False
  then have inv: "tasks_inv I h n" using assms(1) by (simp add: node_inv_def)
  then have "monitor_auth h (nd_proposal_monitors n ! i)"
    using assms(2) by (simp add: tasks_inv_def monitors_inv_def)
  then have kept: "monitor_kept I h (nd_proposal_monitors n ! i) (nd_store n) m s"
    using inv by (intro monitor_step_kept(1) [OF _ _ assms(3,4)]) (simp_all add: tasks_inv_def)
  then have "tasks_inv I h (n\<lparr>nd_store := s\<rparr>)"
    by (intro tasks_inv_other [OF inv]) (simp add: monitor_kept_def)
  then show ?thesis
    using assms(1) False monitors_inv_step [OF _ assms(2) kept] inv by (simp add: node_inv_def tasks_inv_def)
qed

lemma rcc_monitor_rule_inv:
  assumes "node_inv I h n" and "i < length (nd_rcc_monitors n)"
    and "event_from ev (monitor_channel (mt_kind (nd_rcc_monitors n ! i)) (nd_store n))"
    and "monitor_step I ev (nd_rcc_monitors n ! i) (nd_store n) = Some (m, s)"
  shows "node_inv I h (n\<lparr>nd_store := s, nd_rcc_monitors := (nd_rcc_monitors n)[i := m]\<rparr>)"
proof (cases "exited (nd_pc n)")
  case True
  then show ?thesis using assms(1) exited_other [OF True, of I "nd_view n" s] by (auto simp: node_inv_def)
next
  case False
  then have inv: "tasks_inv I h n" using assms(1) by (simp add: node_inv_def)
  then have "monitor_auth h (nd_rcc_monitors n ! i)"
    using assms(2) by (simp add: tasks_inv_def monitors_inv_def)
  then have kept: "monitor_kept I h (nd_rcc_monitors n ! i) (nd_store n) m s"
    using inv by (intro monitor_step_kept(1) [OF _ _ assms(3,4)]) (simp_all add: tasks_inv_def)
  then have "tasks_inv I h (n\<lparr>nd_store := s\<rparr>)"
    by (intro tasks_inv_other [OF inv]) (simp add: monitor_kept_def)
  then show ?thesis
    using assms(1) False monitors_inv_step [OF _ assms(2) kept] inv by (simp add: node_inv_def tasks_inv_def)
qed

subsection \<open>Steps of round tasks\<close>

text \<open>In the commit state a task only takes commits: prepares and run state stay.\<close>

lemma commit_state_step:
  assumes "store_inv I s" and "round_auth I h t" and "srs_run_state (rt_state t) = 2"
    and "round_step I ev t s = Some (t', s', msgs)"
  shows "srs_run_state (rt_state t') = 2" and "preps s' v d = preps s v d"
proof -
  have "srs_run_state (rt_state t') = 2 \<and> preps s' v d = preps s v d"
  proof (cases "rt_pc t")
    case (QueryCommit e)
    show ?thesis
      using assms(4) QueryCommit commit_seals_result(2) [OF assms(1)] assms(3)
      by (cases ev) (auto simp: round_poll_def round_recv_def round_receiving_def Let_def rt_goto_def split: prod.splits)
  qed (use assms(2-4) in \<open>cases ev; auto simp: round_auth_def pc_auth_def round_poll_def round_recv_def
        round_receiving_def Let_def rt_goto_def split: if_splits\<close>)+
  then show "srs_run_state (rt_state t') = 2" and "preps s' v d = preps s v d" by blast+
qed

lemma rounds_distinct:
  assumes "sorted_wrt (\<lambda>t u. view_round (rt_view u) < view_round (rt_view t)) ts"
    and "i < length ts" and "j < length ts" and "rt_view (ts ! i) = rt_view (ts ! j)"
  shows "i = j"
  using assms by (metis less_irrefl linorder_neqE_nat sorted_wrt_nth_less)

lemma set_update_cases:
  assumes "u \<in> set (xs[i := x])" and "i < length xs"
  obtains "u = x" | j where "j < length xs" and "j \<noteq> i" and "u = xs ! j"
  using assms by (metis in_set_conv_nth length_list_update nth_list_update_eq nth_list_update_neq)

lemma same_views:
  assumes "i < length ts" and "rt_view t' = rt_view (ts ! i)"
  shows "map rt_view (ts[i := t']) = map rt_view ts"
  using assms by (metis list_update_id map_update nth_map)

lemma rounds_inv_step:
  assumes "ibft_ok I h" and "store_inv I s" and "rounds_inv I h s ts" and "i < length ts"
    and "event_from ev (round_channel (rt_pc (ts ! i)) s)" and "round_step I ev (ts ! i) s = Some (t', s', msgs)"
  shows "round_kept I h (ts ! i) s t' s'" and "rounds_inv I h s' (ts[i := t'])"
    and "rt_pc t' = RoundPanicked \<Longrightarrow> ev = RecvError"
proof -
  let ?t = "ts ! i"
  note inv = rounds_invD [OF assms(3)]
  have mem: "?t \<in> set ts" using assms(4) by simp
  have height: "view_height (rt_view ?t) = h" using inv(1) [OF mem] by (simp add: round_auth_def)
  have tx: "proposal_at s (rt_view ?t) \<noteq> None \<or> srs_run_state (rt_state ?t) = 2" if "rt_view ?t \<in> set (proposal_tx s)"
    using inv(5) [OF that] height rounds_distinct [OF inv(3) assms(4)]
    by (metis order_refl in_set_conv_nth)
  note step = round_step_kept [OF assms(1,2) inv(1,2) [OF mem] assms(5,6) tx]
  then have kept: "rt_view t' = rt_view ?t" "store_effect I {rt_view ?t} s s'" "round_auth I h t'" "round_store I s' t'"
    by (simp_all add: round_kept_def)
  show "round_kept I h ?t s t' s'" and "rt_pc t' = RoundPanicked \<Longrightarrow> ev = RecvError" using step by blast+
  have views: "rt_view ` set (ts[i := t']) = rt_view ` set ts"
    using same_views [OF assms(4) kept(1)] by (metis set_map)
  show "rounds_inv I h s' (ts[i := t'])"
  proof (rule rounds_invI)
    fix u assume u: "u \<in> set (ts[i := t'])"
    show "round_auth I h u \<and> round_store I s' u"
    proof (rule set_update_cases [OF u assms(4)])
      fix j assume j: "j < length ts" "j \<noteq> i" "u = ts ! j"
      then have "rt_view u \<notin> {rt_view ?t}" using rounds_distinct [OF inv(3) assms(4)] by (metis singletonD)
      then show ?thesis using round_store_effect [OF kept(2)] inv(1,2) j by simp
    qed (use kept in simp)
  next
    have "sorted_wrt (\<lambda>v w. view_round w < view_round v) (map rt_view (ts[i := t']))"
      using inv(3) unfolding same_views [OF assms(4) kept(1)] by (simp add: sorted_wrt_map)
    then show "sorted_wrt (\<lambda>t u. view_round (rt_view u) < view_round (rt_view t)) (ts[i := t'])"
      by (simp add: sorted_wrt_map)
  next
    fix v assume v: "h \<le> view_height v" "is_proposer (ibft_validators I) (self_of I) v" "v \<notin> rt_view ` set (ts[i := t'])"
    then have "v \<notin> {rt_view ?t}" using views mem by auto
    then show "proposal_at s' v = None" using store_effectD(2) [OF kept(2)] inv(4) v views by simp
  next
    fix v assume v: "v \<in> set (proposal_tx s')" "h \<le> view_height v"
    have "\<exists>u \<in> set (ts[i := t']). rt_view u = v \<and> srs_run_state (rt_state u) = 2"
      if "\<exists>u \<in> set ts. rt_view u = v \<and> srs_run_state (rt_state u) = 2"
      using that commit_state_step(1) [OF assms(2) inv(1) [OF mem] _ assms(6)] kept(1) assms(4)
      by (metis in_set_conv_nth length_list_update nth_list_update_eq nth_list_update_neq)
    then show "proposal_at s' v \<noteq> None \<or> (\<exists>u \<in> set (ts[i := t']). rt_view u = v \<and> srs_run_state (rt_state u) = 2)"
      using tx_explained [OF kept(2) v(1) inv(5) [OF _ v(2)]] by blast
  qed
qed

lemma pc_inv_round_step:
  assumes "pc_inv I pc v s ts" and "rounds_inv I h s ts" and "store_inv I s" and "i < length ts"
    and "round_step I ev (ts ! i) s = Some (t', s', msgs)" and "round_kept I h (ts ! i) s t' s'"
  shows "pc_inv I pc v s' (ts[i := t'])"
proof -
  note inv = rounds_invD [OF assms(2)]
  have kept: "rt_view t' = rt_view (ts ! i)" "store_effect I {rt_view (ts ! i)} s s'"
    using assms(6) by (simp_all add: round_kept_def)
  have views: "rt_view ` set (ts[i := t']) = rt_view ` set ts"
    using same_views [OF assms(4) kept(1)] by (metis set_map)
  have bound: "(\<forall>t \<in> set (ts[i := t']). view_round (rt_view t) < r) = (\<forall>t \<in> set ts. view_round (rt_view t) < r)" for r
  proof -
    have "(\<forall>t \<in> set xs. view_round (rt_view t) < r) = (\<forall>w \<in> rt_view ` set xs. view_round w < r)" for xs by simp
    then show ?thesis by (simp only: views)
  qed
  have ne: "ts \<noteq> []" using assms(4) by auto
  show ?thesis
  proof (cases i)
    case 0
    have t: "ts ! i = hd ts" and hd: "hd (ts[i := t']) = t'" using ne 0 by (simp_all add: hd_conv_nth)
    have "current I s v ts \<Longrightarrow> current I s' v (ts[i := t'])"
      using assms(6) ne hd t by (simp add: current_def round_kept_def)
    moreover have "in_commit v ts \<Longrightarrow> in_commit v (ts[i := t']) \<and> preps s' v d = preps s v d" for d
      using commit_state_step [OF assms(3) inv(1) _ assms(5)] assms(4) ne hd t kept(1) by (auto simp: in_commit_def)
    moreover have "rt_pc (hd ts) \<noteq> RoundDone seals" for seals
      using assms(5) t by (cases ev) (auto simp: round_poll_def round_recv_def round_receiving_def Let_def)
    ultimately show ?thesis
      using assms(1) bound ne hd t kept(1) unfolding pc_inv_def Let_def by (cases pc) auto
  next
    case (Suc j)
    have hd: "hd (ts[i := t']) = hd ts" using ne Suc by (cases ts) auto
    have "rt_view (hd ts) \<noteq> rt_view (ts ! i)"
      using rounds_distinct [OF inv(3), of 0 i] assms(4) Suc ne by (auto simp: hd_conv_nth)
    then have "v \<notin> {rt_view (ts ! i)}" if "rt_view (hd ts) = v" using that by simp
    note eff = this and preps = store_effectD(3) [OF kept(2)]
    have "current I s v ts \<Longrightarrow> current I s' v (ts[i := t'])"
      using current_effect [OF _ kept(2) eff] hd ne by (simp add: current_def)
    moreover have "in_commit v ts \<Longrightarrow> in_commit v (ts[i := t'])"
      using hd ne by (simp add: in_commit_def)
    moreover have "in_commit v ts \<Longrightarrow> q \<le> preps s v d \<Longrightarrow> q \<le> preps s' v d" for q d
      using preps [OF eff] order.trans unfolding in_commit_def by blast
    ultimately show ?thesis
      using assms(1) bound ne hd unfolding pc_inv_def Let_def by (cases pc) auto
  qed
qed

lemma round_rule_inv:
  assumes "ibft_ok I h" and "node_inv I h n" and "i < length (nd_rounds n)"
    and "event_from ev (round_channel (rt_pc (nd_rounds n ! i)) (nd_store n))"
    and "round_step I ev (nd_rounds n ! i) (nd_store n) = Some (t, s, msgs)"
  shows "node_inv I h (n\<lparr>nd_store := s, nd_rounds := (nd_rounds n)[i := t], nd_sent := nd_sent n @ msgs\<rparr>)"
    and "\<not> exited (nd_pc n) \<Longrightarrow> rt_pc t = RoundPanicked \<Longrightarrow> ev = RecvError"
proof -
  have "node_inv I h (n\<lparr>nd_store := s, nd_rounds := (nd_rounds n)[i := t], nd_sent := nd_sent n @ msgs\<rparr>) \<and>
      (\<not> exited (nd_pc n) \<longrightarrow> rt_pc t = RoundPanicked \<longrightarrow> ev = RecvError)"
  proof (cases "exited (nd_pc n)")
    case True
    then show ?thesis
      using assms(2) exited_other [OF True, of I "nd_view n" s "(nd_rounds n)[i := t]"] by (auto simp: node_inv_def)
  next
    case False
    then have inv: "store_inv I (nd_store n)" "rounds_inv I h (nd_store n) (nd_rounds n)"
      "pc_inv I (nd_pc n) (nd_view n) (nd_store n) (nd_rounds n)"
      using assms(2) by (simp_all add: node_inv_def tasks_inv_def)
    note step = rounds_inv_step [OF assms(1) inv(1,2) assms(3-5)]
    have "store_inv I s" using step(1) store_effect_inv by (auto simp: round_kept_def)
    then show ?thesis
      using assms(2) False step(2,3) pc_inv_round_step [OF inv(3,2,1) assms(3,5) step(1)]
      by (simp add: node_inv_def tasks_inv_def)
  qed
  then show "node_inv I h (n\<lparr>nd_store := s, nd_rounds := (nd_rounds n)[i := t], nd_sent := nd_sent n @ msgs\<rparr>)"
    and "\<not> exited (nd_pc n) \<Longrightarrow> rt_pc t = RoundPanicked \<Longrightarrow> ev = RecvError" by blast+
qed

subsection \<open>Steps of run\_height\<close>

lemma live_inv:
  assumes "node_inv I h n" and "\<not> exited (nd_pc n)"
  shows "view_height (nd_view n) = h" and "view_round (nd_view n) \<le> MAX_ROUND"
    and "store_inv I (nd_store n)" and "rounds_inv I h (nd_store n) (nd_rounds n)"
    and "monitors_inv h (nd_view n) FutureProposal (nd_proposal_monitors n)"
    and "monitors_inv h (nd_view n) FutureRcc (nd_rcc_monitors n)"
    and "pc_inv I (nd_pc n) (nd_view n) (nd_store n) (nd_rounds n)"
    and "latest_inv I (nd_pc n) (nd_view n) (nd_latest n)"
  using assms by (simp_all add: node_inv_def tasks_inv_def)

text \<open>A step that only moves the program counter.\<close>

lemma node_inv_goto:
  assumes "node_inv I h n" and "\<not> exited (nd_pc n)" and "\<not> exited pc"
    and "(\<forall>b. nd_pc n \<noteq> RunPrune b) \<and> (\<forall>b. pc \<noteq> RunPrune b)"
    and "pc_inv I pc (nd_view n) (nd_store n) (nd_rounds n)" and "latest_inv I pc (nd_view n) (nd_latest n)"
  shows "node_inv I h (n\<lparr>nd_pc := pc\<rparr>)"
  using assms by (simp add: node_inv_def tasks_inv_def)

lemma loop_top_inv:
  assumes "node_inv I h n" and "nd_pc n = RunStart r"
  shows "node_inv I h (run_loop_top I r n)"
proof -
  have live: "\<not> exited (nd_pc n)" by (simp add: assms(2) exited_def)
  note inv = live_inv [OF assms(1) live]
  show ?thesis
  proof (cases "r > MAX_ROUND")
    case True
    then have "nd_view n = nd_view n \<and> view_round (nd_view n) = MAX_ROUND \<and> r = MAX_ROUND + 1"
      using inv(7) assms(2) by (auto simp: pc_inv_def)
    then have "node_inv I h (n\<lparr>nd_pc := RunPanicked\<rparr>)"
      using inv(8) assms(2)
      by (intro node_inv_goto [OF assms(1) live]) (auto simp: exited_def pc_inv_def latest_inv_def)
    then show ?thesis using True by (simp add: run_loop_top_def Let_def)
  next
    case False
    obtain t where "get_round_timeout (base_round_time I) r = Some t"
      using False by (auto simp: get_round_timeout_eq not_less)
    then show ?thesis
      using False assms inv
      by (auto simp: run_loop_top_def Let_def node_inv_def tasks_inv_def exited_def pc_inv_def latest_inv_def
          monitors_inv_def monitor_new_def monitor_auth_def view_new_def)
  qed
qed

lemma spawn_round_inv:
  assumes "ibft_ok I h" and "node_inv I h n" and "nd_pc n = RunSpawnRound"
  shows "node_inv I h (start_ibft_round I n)"
proof -
  have live: "\<not> exited (nd_pc n)" by (simp add: assms(3) exited_def)
  note inv = live_inv [OF assms(2) live]
  let ?v = "nd_view n" and ?n = "start_ibft_round I n"
  let ?t = "round_task_new (shared_run_state_new ?v)"
  have below: "\<forall>t \<in> set (nd_rounds n). view_round (rt_view t) < view_round ?v"
    using inv(7) assms(3) by (simp add: pc_inv_def)
  have "store_effect I {} (nd_store n) (add_round_change_message (rc_clone rc) (self_of I) (nd_store n))"
    if "nd_latest n = Some rc" and "rcs_view rc = ?v" for rc
    using that inv(1,2,8) assms(1)
    by (intro add_round_change_effect [OF inv(3)])
      (auto simp: rc_clone_id latest_inv_def own_round_change_def round_change_auth_def ibft_ok_def)
  then have eff: "store_effect I {} (nd_store n) (nd_store ?n)"
    using store_effect_refl [OF inv(3)] by (simp add: start_ibft_round_def Let_def split: option.split)
  note rinv = rounds_invD [OF rounds_inv_other [OF inv(4) eff]]
  have fresh: "?v \<notin> rt_view ` set (nd_rounds n)" using below by auto
  have "round_auth I h ?t \<and> round_store I (nd_store ?n) ?t"
    using inv(1,2) rinv(4) [OF eq_refl [OF inv(1) [symmetric]] _ fresh]
    by (auto simp: round_auth_def round_store_def round_task_new_def shared_run_state_new_def pc_auth_def)
  then have "rounds_inv I h (nd_store ?n) (?t # nd_rounds n)"
    using rinv below fresh
    by (intro rounds_invI) (auto simp: round_task_new_def shared_run_state_new_def)
  moreover have "current I (nd_store ?n) ?v (?t # nd_rounds n)"
    by (simp add: current_def round_task_new_def shared_run_state_new_def round_backed_def pc_backed_def)
  ultimately show ?thesis
    using assms(2,3) inv store_effect_inv [OF eff]
    by (auto simp: start_ibft_round_def Let_def node_inv_def tasks_inv_def exited_def pc_inv_def latest_inv_def)
qed

lemma monitor_found:
  assumes "monitors_inv h v k (m # ms)" and "mt_pc m = MonitorDone r"
  shows "view_round v < r" and "r \<le> MAX_ROUND"
  using assms by (auto simp: monitors_inv_def monitor_auth_def)

lemma select_inv:
  assumes "node_inv I h n" and "nd_pc n = RunSelect k"
  shows "node_inv I h (run_select k ready n)"
proof -
  have live: "\<not> exited (nd_pc n)" by (simp add: assms(2) exited_def)
  note inv = live_inv [OF assms(1) live]
  have cur: "current I (nd_store n) (nd_view n) (nd_rounds n)" using inv(7) assms(2) by (simp add: pc_inv_def)
  then obtain t ts where ts: "nd_rounds n = t # ts" "rt_view t = nd_view n"
    by (auto simp: current_def neq_Nil_conv)
  have le: "\<forall>u \<in> set (nd_rounds n). view_round (rt_view u) \<le> view_round (nd_view n)"
    using rounds_invD(3) [OF inv(4)] ts by (auto simp: less_imp_le)
  have beyond: "\<not> MAX_ROUND + 1 \<le> MAX_ROUND" by (simp add: MAX_ROUND_def)
  have next_round: "pc_inv I (RunStart r) (nd_view n) (nd_store n) (nd_rounds n) \<and>
      latest_inv I (RunStart r) (nd_view n) (nd_latest n)"
    if "monitors_inv h (nd_view n) kind (m # ms)" and "mt_pc m = MonitorDone r" for kind m ms r
    using monitor_found [OF that] le inv(8) assms(2) beyond
    by (auto simp: pc_inv_def latest_inv_def dest: le_less_trans order.trans [OF _ less_imp_le])
  have goto: "node_inv I h (n\<lparr>nd_pc := pc\<rparr>)"
    if "\<not> exited pc" and "\<forall>b. pc \<noteq> RunPrune b" and "pc_inv I pc (nd_view n) (nd_store n) (nd_rounds n)"
      and "latest_inv I pc (nd_view n) (nd_latest n)" for pc
    using node_inv_goto [OF assms(1) live] that assms(2) by simp
  have stay: "node_inv I h (n\<lparr>nd_pc := RunSelect j\<rparr>)" "node_inv I h (n\<lparr>nd_pc := RunTimeout\<rparr>)"
    "node_inv I h (n\<lparr>nd_pc := RunReturn None\<rparr>)" for j
    by (rule goto; use cur inv(8) assms(2) in \<open>simp add: exited_def pc_inv_def latest_inv_def\<close>)+
  have finish: "node_inv I h (n\<lparr>nd_pc := RunFinish seals\<rparr>)" if "rt_pc t = RoundDone seals" for seals
    by (rule goto) (use cur inv(8) assms(2) ts that in \<open>simp_all add: exited_def pc_inv_def latest_inv_def\<close>)
  have jump: "node_inv I h (n\<lparr>nd_pc := RunStart r\<rparr>)"
    if "monitors_inv h (nd_view n) kind (m # ms)" and "mt_pc m = MonitorDone r" for kind m ms r
    by (rule goto) (use next_round [OF that] in \<open>simp_all add: exited_def\<close>)
  consider "k = 0" | "k = 1" | "k = 2" | "k = 3" | "k > 3" by linarith
  then show ?thesis
  proof cases
    case 2
    then show ?thesis using stay(1) [of 2] finish ts by (cases "rt_pc t") (simp_all add: run_select_def)
  next
    case 3
    show ?thesis
    proof (cases "nd_proposal_monitors n")
      case (Cons m ms)
      then show ?thesis using 3 stay(1) [of 3] jump inv(5) by (cases "mt_pc m") (simp_all add: run_select_def)
    qed (use 3 stay(1) in \<open>simp add: run_select_def\<close>)
  next
    case 4
    show ?thesis
    proof (cases "nd_rcc_monitors n")
      case (Cons m ms)
      then show ?thesis using 4 stay(1) [of 4] jump inv(6) by (cases "mt_pc m") (simp_all add: run_select_def)
    qed (use 4 stay(1) in \<open>simp add: run_select_def\<close>)
  qed (use stay in \<open>simp_all add: run_select_def\<close>)
qed

text \<open>Taking the proposal of a view whose task is in the commit state.\<close>

lemma take_proposal_rounds:
  assumes "store_inv I s" and "rounds_inv I h s ts" and "in_commit v ts"
  shows "rounds_inv I h (snd (take_proposal_message v s)) ts"
proof (rule rounds_invI)
  note inv = rounds_invD [OF assms(2)] and wf = store_invD(1) [OF assms(1)]
  let ?s = "snd (take_proposal_message v s)"
  have tx: "proposal_tx ?s = proposal_tx s" by (rule txs_eq_D(1) [OF txs_queries(2)])
  have hd: "hd ts \<in> set ts" "rt_view (hd ts) = v" "srs_run_state (rt_state (hd ts)) = 2"
    using assms(3) by (auto simp: in_commit_def)
  show "round_auth I h t \<and> round_store I ?s t" if t: "t \<in> set ts" for t
  proof (cases "rt_view t = v")
    case True
    obtain i where i: "i < length ts" "t = ts ! i" using t by (auto simp: in_set_conv_nth)
    have h0: "hd ts = ts ! 0" "0 < length ts" using assms(3) by (auto simp: in_commit_def hd_conv_nth)
    have "rt_view (ts ! i) = rt_view (ts ! 0)" using True i(2) h0(1) hd(2) by simp
    then have "t = hd ts" using rounds_distinct [OF inv(3) i(1) h0(2)] i(2) h0(1) by simp
    then have "rt_pc t \<noteq> RequeryProposal" using inv(1) [OF t] hd(3) by (auto simp: round_auth_def pc_auth_def)
    then show ?thesis using inv(1) [OF t] True by (simp add: round_store_def store_laws wf)
  next
    case False
    then show ?thesis using inv(1,2) [OF t] by (simp add: round_store_def store_laws wf)
  qed
  show "proposal_at ?s w = None" if "h \<le> view_height w" "is_proposer (ibft_validators I) (self_of I) w" "w \<notin> rt_view ` set ts" for w
    using inv(4) [OF that] by (simp add: store_laws wf)
  show "proposal_at ?s w \<noteq> None \<or> (\<exists>t \<in> set ts. rt_view t = w \<and> srs_run_state (rt_state t) = 2)"
    if "w \<in> set (proposal_tx ?s)" "h \<le> view_height w" for w
    using inv(5) [of w] that hd by (cases "w = v") (auto simp: tx store_laws wf)
qed (rule rounds_invD(3) [OF assms(2)])

lemma finish_inv:
  assumes "node_inv I h n" and "nd_pc n = RunFinish seals"
  shows "node_inv I h (handle_round_finish seals n)"
proof -
  have live: "\<not> exited (nd_pc n)" by (simp add: assms(2) exited_def)
  note inv = live_inv [OF assms(1) live]
  let ?v = "nd_view n"
  obtain t ts where ts: "nd_rounds n = t # ts" "rt_view t = ?v" "rt_pc t = RoundDone seals" "round_backed I (nd_store n) t"
    using inv(7) assms(2) by (auto simp: pc_inv_def current_def neq_Nil_conv)
  have "srs_run_state (rt_state t) = 2"
    using rounds_invD(1) [OF inv(4), of t] ts by (simp add: round_auth_def pc_auth_def)
  then have com: "in_commit ?v (nd_rounds n)" using ts by (simp add: in_commit_def)
  obtain d p where p: "proposal_at (nd_store n) ?v = Some p" "ps_digest p = d"
    "proposal_verify_block_digest (ibft_externals I) p" "seals_valid I h d seals"
    using ts(2-4) inv(1) by (auto simp: round_backed_def pc_backed_def prepared_def backed_def)
  have "block_valid I h (finalized_block_new (ps_block p) seals)"
    using p(2-4) by (simp add: block_valid_def finalized_block_new_def finalization_proof_new_def
        proposal_verify_block_digest_def proposed_block_digest_def)
  moreover obtain s where take: "take_proposal_message ?v (nd_store n) = (Some p, s)"
    using p(1) store_invD(1) [OF inv(3)] by (metis prod.collapse take_proposal_laws(1))
  note taken = take_proposal_rounds [OF inv(3,4) com, unfolded take snd_conv]
    take_proposal_inv [OF inv(3), of ?v, unfolded take snd_conv]
  ultimately show ?thesis
    using assms inv taken take
    by (simp add: handle_round_finish_def node_inv_def tasks_inv_def exited_def pc_inv_def latest_inv_def)
qed

lemma take_proposal_step_inv:
  assumes "node_inv I h n" and "nd_pc n = RunTakeProposal"
  shows "node_inv I h (timeout_take_proposal n)"
proof -
  have live: "\<not> exited (nd_pc n)" by (simp add: assms(2) exited_def)
  note inv = live_inv [OF assms(1) live]
  let ?v = "nd_view n"
  have com: "in_commit ?v (nd_rounds n)" and cur: "current I (nd_store n) ?v (nd_rounds n)"
    using inv(7) assms(2) by (simp_all add: pc_inv_def)
  then obtain d where d: "prepared I (nd_store n) ?v d"
    using round_backed_commit [OF rounds_invD(1) [OF inv(4), of "hd (nd_rounds n)"]]
    by (auto simp: in_commit_def current_def)
  then obtain p where p: "proposal_at (nd_store n) ?v = Some p" "ps_digest p = d"
    "proposal_verify_block_digest (ibft_externals I) p" "usize_pred (quorum_of I ?v) \<le> preps (nd_store n) ?v d"
    by (auto simp: prepared_def backed_def)
  have "ps_view p = ?v" and "proposal_auth (ibft_externals I) (ibft_validators I) ?v p"
    using store_wf_filed(1) [OF store_invD(1) [OF inv(3)] p(1)] store_authD(1) [OF store_invD(2) [OF inv(3)] p(1)]
    by simp_all
  moreover have preps: "preps (snd (take_proposal_message ?v (nd_store n))) ?v d = preps (nd_store n) ?v d"
    using store_invD(1) [OF inv(3)] by (simp add: preps_def store_laws)
  moreover obtain s where take: "take_proposal_message ?v (nd_store n) = (Some p, s)"
    using p(1) store_invD(1) [OF inv(3)] by (metis prod.collapse take_proposal_laws(1))
  note taken = take_proposal_rounds [OF inv(3,4) com, unfolded take snd_conv]
    take_proposal_inv [OF inv(3), of ?v, unfolded take snd_conv] preps [unfolded take snd_conv]
  ultimately show ?thesis
    using assms inv p com taken take
    by (simp add: timeout_take_proposal_def node_inv_def tasks_inv_def exited_def pc_inv_def latest_inv_def)
qed

lemma certificate_valid_mono:
  "prepared_certificate_valid E V pc h l \<Longrightarrow> l \<le> l' \<Longrightarrow> prepared_certificate_valid E V pc h l'"
  unfolding prepared_certificate_valid_def Let_def by (blast intro: less_le_trans)

lemma round_change_verify_mono:
  assumes "round_change_verify_fn E V h rc" and "rcs_prepared rc' = rcs_prepared rc"
    and "view_round (rcs_view rc) \<le> view_round (rcs_view rc')"
  shows "round_change_verify_fn E V h rc'"
  using assms certificate_valid_mono
  by (auto simp: round_change_verify_fn_def verify_prepared_certificate_iff split: option.splits if_splits)

lemma next_round:
  assumes "r \<le> MAX_ROUND"
  shows "r < r + 1" and "r + 1 \<noteq> 0" and "r + 1 \<le> MAX_ROUND \<or> r + 1 = MAX_ROUND + 1 \<and> r = MAX_ROUND"
    and "q < r \<Longrightarrow> q < r + 1"
proof -
  have r: "unat r \<le> 21" using assms by (simp add: MAX_ROUND_def word_le_nat_alt)
  then have s: "unat (r + 1) = Suc (unat r)" by (simp add: unat_word_ariths)
  show lt: "r < r + 1" by (simp add: word_less_nat_alt s)
  show "r + 1 \<noteq> 0" by (simp add: word_unat_eq_iff s)
  show "r + 1 \<le> MAX_ROUND \<or> r + 1 = MAX_ROUND + 1 \<and> r = MAX_ROUND"
    using r s by (auto simp: MAX_ROUND_def word_le_nat_alt word_unat_eq_iff)
  show "q < r \<Longrightarrow> q < r + 1" by (rule less_trans [OF _ lt])
qed

text \<open>The round change without a new certificate: a fresh one, or the previous one for the next round.\<close>

lemma plain_round_change:
  assumes "ibft_ok I h" and "view_height v = h" and "view_round v \<le> MAX_ROUND"
  obtains rc where "rc_into_signed (ibft_externals I) (rc_new (view_new h (view_round v + 1)) pp) (ibft_signer I) = Some rc"
    and "rcs_view rc = view_new h (view_round v + 1)" and "rcs_prepared rc = pp"
    and "round_change_verify_fn (ibft_externals I) (ibft_validators I) h rc \<longrightarrow> own_round_change I h rc"
proof -
  obtain rc where rc: "rc_into_signed (ibft_externals I) (rc_new (view_new h (view_round v + 1)) pp) (ibft_signer I) = Some rc"
    "rc_message rc = rc_new (view_new h (view_round v + 1)) pp" "rc_recover_signer (ibft_externals I) rc = Inr (self_of I)"
    by (rule rc_into_signed_recovers) (use assms(1) in \<open>auto simp: ibft_ok_def\<close>)
  show thesis
    by (rule that [of rc]) (use rc next_round(2) [OF assms(3)] in \<open>simp_all add: rc_new_def own_round_change_def view_new_def\<close>)
qed

lemma resigned_round_change:
  assumes "ibft_ok I h" and "view_height v = h" and "view_round v \<le> MAX_ROUND"
    and "own_round_change I h rc" and "view_round (rcs_view rc) \<le> view_round v"
  obtains rc' where "rc_update_and_resign (ibft_externals I) rc (view_round v + 1) (ibft_signer I) = Some rc'"
    and "rcs_view rc' = view_new h (view_round v + 1)" and "own_round_change I h rc'"
proof -
  obtain rc' where rc': "rc_update_and_resign (ibft_externals I) rc (view_round v + 1) (ibft_signer I) = Some rc'"
    "rcs_view rc' = (rcs_view rc)\<lparr>view_round := view_round v + 1\<rparr>" "rcs_prepared rc' = rcs_prepared rc"
    "rc_recover_signer (ibft_externals I) rc' = Inr (self_of I)"
    by (rule rc_update_and_resign_recovers) (use assms(1) in \<open>auto simp: ibft_ok_def\<close>)
  have view: "rcs_view rc' = view_new h (view_round v + 1)"
    using rc'(2) assms(4) by (auto simp: own_round_change_def view_new_def)
  have own: "round_change_verify_fn (ibft_externals I) (ibft_validators I) h rc"
    using assms(4) by (simp add: own_round_change_def)
  have le: "view_round (rcs_view rc) \<le> view_round (rcs_view rc')"
    using order.trans [OF assms(5) less_imp_le [OF next_round(1) [OF assms(3)]]] by (simp add: view view_new_def)
  have "round_change_verify_fn (ibft_externals I) (ibft_validators I) h rc'"
    by (rule round_change_verify_mono [OF own rc'(3) le])
  then show thesis
    using that [OF rc'(1) view] rc'(4) view next_round(2) [OF assms(3)] by (simp add: own_round_change_def view_new_def)
qed

lemma timeout_inv:
  assumes "ibft_ok I h" and "node_inv I h n" and "nd_pc n = RunTimeout"
  shows "node_inv I h (handle_timeout I n)"
proof -
  have live: "\<not> exited (nd_pc n)" by (simp add: assms(3) exited_def)
  note inv = live_inv [OF assms(2) live]
  have cur: "current I (nd_store n) (nd_view n) (nd_rounds n)" using inv(7) assms(3) by (simp add: pc_inv_def)
  then obtain t ts where ts: "nd_rounds n = t # ts" "rt_view t = nd_view n"
    by (auto simp: current_def neq_Nil_conv)
  have goto: "node_inv I h (n\<lparr>nd_pc := pc\<rparr>)"
    if "\<not> exited pc" and "\<forall>b. pc \<noteq> RunPrune b" and "pc_inv I pc (nd_view n) (nd_store n) (nd_rounds n)"
      and "latest_inv I pc (nd_view n) (nd_latest n)" for pc
    using node_inv_goto [OF assms(2) live] that assms(3) by simp
  have rc_goto: "node_inv I h (n\<lparr>nd_pc := RunBroadcastRc rc\<rparr>)"
    if "own_round_change I h rc" and "rcs_view rc = view_new h (view_round (nd_view n) + 1)" for rc
    by (rule goto) (use that inv(1,8) ts assms(3) in \<open>simp_all add: exited_def pc_inv_def latest_inv_def\<close>)
  have "srs_run_state (rt_state t) \<in> {0, 1, 2}"
    using rounds_invD(1) [OF inv(4), of t] ts by (cases "rt_pc t") (auto simp: round_auth_def pc_auth_def Let_def)
  then consider (commit) "srs_run_state (rt_state t) = 2" | (early) "srs_run_state (rt_state t) \<in> {0, 1}" by blast
  then show ?thesis
  proof cases
    case commit
    have "node_inv I h (n\<lparr>nd_pc := RunTakeProposal\<rparr>)"
      by (rule goto) (use cur inv(8) ts assms(3) commit in
        \<open>simp_all add: exited_def pc_inv_def latest_inv_def in_commit_def\<close>)
    then show ?thesis
      using commit ts(1) by (simp add: handle_timeout_def Let_def shared_run_state_get_def run_state_from_u8_def)
  next
    case early
    obtain rc where rc: "rc_into_signed (ibft_externals I) (rc_new (view_new h (view_round (nd_view n) + 1)) None) (ibft_signer I) = Some rc"
      "rcs_view rc = view_new h (view_round (nd_view n) + 1)" "own_round_change I h rc"
      by (rule plain_round_change [OF assms(1) inv(1,2), where pp = None]) (simp add: round_change_verify_fn_def)
    have "\<exists>rc'. rc_update_and_resign (ibft_externals I) l (view_round (nd_view n) + 1) (ibft_signer I) = Some rc' \<and>
        rcs_view rc' = view_new h (view_round (nd_view n) + 1) \<and> own_round_change I h rc'"
      if "nd_latest n = Some l" for l
      by (rule resigned_round_change [OF assms(1) inv(1,2), of l])
        (use inv(1,8) that assms(3) in \<open>auto simp: latest_inv_def\<close>)
    then show ?thesis
      using early ts(1) rc rc_goto inv(1)
      by (cases "nd_latest n") (auto simp: handle_timeout_def Let_def shared_run_state_get_def run_state_from_u8_def broadcast_rc_def)
  qed
qed

text \<open>The certificate made of the stored proposal and the prepares for it passes the check of any validator.\<close>

lemma own_certificate_valid:
  assumes "ibft_ok I h" and "store_inv I s" and "view_height v = h" and "ps_view p = v"
    and "proposal_auth (ibft_externals I) (ibft_validators I) v p"
    and "prepares = map snd (hm_retain (\<lambda>_ x. pr_digest x = ps_digest p) (prepares_at s v))"
    and "usize_pred (quorum_of I v) \<le> length prepares" and "view_round v < limit"
  shows "prepared_certificate_valid (ibft_externals I) (ibft_validators I)
     (pp_certificate (prepared_proposed_new p prepares)) h limit"
proof -
  let ?ps = "hm_retain (\<lambda>_ x. pr_digest x = ps_digest p) (prepares_at s v)"
  note inv = store_invD [OF assms(2)]
  obtain proposer where proposer: "proposal_recover_signer (ibft_externals I) p = Inr proposer"
    "is_proposer (ibft_validators I) proposer v"
    using assms(5) by (auto simp: proposal_auth_def)
  have auth: "prepare_auth (ibft_externals I) (ibft_validators I) v a x \<and> pr_view x = v \<and> pr_digest x = ps_digest p"
    if "(a, x) \<in> set ?ps" for a x
    using that store_authD(2) [OF inv(2), of a x v] store_wf_filed(2) [OF inv(1), of a x v] by simp
  have "signed_by (prepare_recover_signer (ibft_externals I)) prepares (map fst ?ps)"
    using auth by (auto simp: signed_by_def assms(6) prepare_auth_def)
  moreover have "distinct (map fst ?ps)"
    using store_wfD(9) [OF inv(1), of v] by (simp add: hm_wf_def hm_retain_def distinct_map_fst_filter)
  moreover have "\<forall>a \<in> set (map fst ?ps). is_validator (ibft_validators I) a h \<and> a \<noteq> proposer"
    using auth proposer(2) assms(3) by (auto simp: prepare_auth_def)
  moreover have "\<forall>x \<in> set prepares. pr_view x = v \<and> pr_digest x = ps_digest p"
    using auth by (auto simp: assms(6))
  moreover have "meta_recover_signer (ibft_externals I)
      \<lparr>meta_view = ps_view p, meta_digest = ps_digest p, meta_signature = proposal_signature p\<rparr> = Inr proposer"
    using prepared_proposed_new_recover [of "ibft_externals I" p prepares] proposer(1)
    by (simp add: prepared_proposed_new_def Let_def)
  ultimately show ?thesis
    using assms(3,4,7,8) proposer(2)
    by (auto simp: prepared_certificate_valid_def prepared_proposed_new_def Let_def intro!: exI [of _ "map fst ?ps"])
qed

lemma take_prepares_step_inv:
  assumes "ibft_ok I h" and "node_inv I h n" and "nd_pc n = RunTakePrepares p"
  shows "node_inv I h (timeout_take_prepares I p n)"
proof -
  have live: "\<not> exited (nd_pc n)" by (simp add: assms(3) exited_def)
  note inv = live_inv [OF assms(2) live]
  let ?v = "nd_view n" and ?f = "\<lambda>x. pr_digest x = ps_digest p"
  have pc: "in_commit ?v (nd_rounds n)" "ps_view p = ?v" "proposal_auth (ibft_externals I) (ibft_validators I) ?v p"
    "proposal_verify_block_digest (ibft_externals I) p" "usize_pred (quorum_of I ?v) \<le> preps (nd_store n) ?v (ps_digest p)"
    using inv(7) assms(3) by (simp_all add: pc_inv_def)
  note wf = store_invD(1) [OF inv(3)]
  obtain prepares s where take: "take_valid_prepare_messages ?v ?f (nd_store n) = (prepares, s)" by fastforce
  then have prepares: "prepares = map snd (hm_retain (\<lambda>_ x. pr_digest x = ps_digest p) (prepares_at (nd_store n) ?v))"
    using take_valid_prepare_laws(1) [OF wf, of ?v ?f] by simp
  then have q: "usize_pred (quorum_of I ?v) \<le> length prepares"
    using pc(5) by (simp add: preps_def hm_retain_def)
  obtain rc where rc: "rc_into_signed (ibft_externals I)
      (rc_new (view_new h (view_round ?v + 1)) (Some (prepared_proposed_new p prepares))) (ibft_signer I) = Some rc"
    "rcs_view rc = view_new h (view_round ?v + 1)" "rcs_prepared rc = Some (prepared_proposed_new p prepares)"
    "round_change_verify_fn (ibft_externals I) (ibft_validators I) h rc \<longrightarrow> own_round_change I h rc"
    by (rule plain_round_change [OF assms(1) inv(1,2), where pp = "Some (prepared_proposed_new p prepares)"])
  have "round_change_verify_fn (ibft_externals I) (ibft_validators I) h rc"
    using own_certificate_valid [OF assms(1) inv(3,1) pc(2,3) prepares q next_round(1) [OF inv(2)]] rc(2,3) pc(4)
    by (simp add: round_change_verify_fn_def verify_prepared_certificate_iff view_new_def prepared_proposed_new_def
        proposal_verify_block_digest_def Let_def)
  then have own: "own_round_change I h rc" using rc(4) by blast
  have props: "proposal_at s = proposal_at (nd_store n)" and tx: "proposal_tx s = proposal_tx (nd_store n)"
    using take_valid_prepare_laws(3) [OF wf, of ?v ?f] txs_eq_D(1) [OF txs_queries(4) [of ?v ?f "nd_store n"]] take by simp_all
  then have rounds: "rounds_inv I h s (nd_rounds n)"
    using inv(4) by (simp add: rounds_inv_def round_store_def)
  have "store_inv I s" using take_prepares_inv [OF inv(3), of ?v ?f] take by simp
  then show ?thesis
    using assms(2,3) inv rounds own rc(1,2) q pc(1) take
    by (simp add: timeout_take_prepares_def Let_def broadcast_rc_def node_inv_def tasks_inv_def exited_def pc_inv_def
        latest_inv_def in_commit_def)
qed

lemma broadcast_rc_inv:
  assumes "node_inv I h n" and "nd_pc n = RunBroadcastRc rc"
  shows "node_inv I h (n\<lparr>nd_sent := nd_sent n @ [RoundChange rc], nd_latest := Some rc,
                  nd_pc := RunStart (view_round (nd_view n) + 1)\<rparr>)"
proof -
  have live: "\<not> exited (nd_pc n)" by (simp add: assms(2) exited_def)
  note inv = live_inv [OF assms(1) live]
  have pc: "nd_rounds n \<noteq> []" "rt_view (hd (nd_rounds n)) = nd_view n" "own_round_change I h rc"
    "rcs_view rc = view_new h (view_round (nd_view n) + 1)"
    using inv(1,7) assms(2) by (auto simp: pc_inv_def)
  have "view_round (rt_view t) < view_round (nd_view n) + 1" if "t \<in> set (nd_rounds n)" for t
    using rounds_invD(3) [OF inv(4)] pc(1,2) that next_round(1,4) [OF inv(2)]
    by (cases "nd_rounds n") auto
  then show ?thesis
    using assms(1,2) inv pc next_round(3) [OF inv(2)]
    by (simp add: node_inv_def tasks_inv_def exited_def pc_inv_def latest_inv_def view_new_def)
qed

lemma run_rule_inv:
  assumes "ibft_ok I h" and "node_inv I h n" and "run_step I ready n = Some n'"
  shows "node_inv I h n'"
proof (cases "nd_pc n")
  case (RunReturn r)
  have height: "handler_height (nd_handler n) < h" using assms(2) RunReturn by (simp add: node_inv_def exited_def)
  show ?thesis
  proof (cases r)
    case None
    then show ?thesis using assms(2,3) RunReturn by (auto simp: run_step_def node_inv_def exited_def pc_inv_def)
  next
    case (Some b)
    have "n' = n\<lparr>nd_handler := (nd_handler n)\<lparr>handler_height := h\<rparr>, nd_pc := RunPrune b\<rparr>"
      using assms(2,3) RunReturn Some height
      by (auto simp: run_step_def handler_update_height_def node_inv_def)
    then show ?thesis
      using assms(2) RunReturn Some by (auto simp: node_inv_def tasks_inv_def exited_def pc_inv_def latest_inv_def)
  qed
next
  case (RunBroadcastBlock b)
  then show ?thesis
    using assms(2,3) by (auto simp: run_step_def node_inv_def tasks_inv_def exited_def pc_inv_def latest_inv_def)
next
  case (RunPrune b)
  then show ?thesis using assms(2,3) by (auto simp: run_step_def node_inv_def tasks_inv_def exited_def pc_inv_def)
qed (use assms loop_top_inv [OF assms(2)] spawn_round_inv [OF assms(1,2)] select_inv [OF assms(2)] finish_inv [OF assms(2)]
      timeout_inv [OF assms(1,2)] take_proposal_step_inv [OF assms(2)] take_prepares_step_inv [OF assms(1,2)]
      broadcast_rc_inv [OF assms(2)] in \<open>auto simp: run_step_def\<close>)

text \<open>The invariant holds in every reachable state.\<close>

lemma node_step_inv:
  assumes "node_step I n n'" and "ibft_ok I h" and "node_inv I h n"
  shows "node_inv I h n'"
  using assms(1)
proof (cases rule: node_step_cases)
  case (deliver m)
  then show ?thesis using deliver_inv [OF assms(2,3)] by simp
next
  case (round i ev t s msgs)
  then show ?thesis using round_rule_inv(1) [OF assms(2,3)] by simp
next
  case (proposal_monitor i ev m s)
  then show ?thesis using monitor_rule_inv [OF assms(3)] by simp
next
  case (rcc_monitor i ev m s)
  then show ?thesis using rcc_monitor_rule_inv [OF assms(3)] by simp
next
  case (run ready)
  then show ?thesis using run_rule_inv [OF assms(2,3)] by simp
next
  case (reorder s)
  then show ?thesis using reorder_inv [OF assms(3)] by simp
qed

text \<open>
  A node may start a height with any store the invariant allows: nothing of the node itself is in it
  for that height, and every notified proposal of the height is still there.
\<close>

definition start_ok :: "ibft \<Rightarrow> u64 \<Rightarrow> consensus_messages \<Rightarrow> message_handler \<Rightarrow> bool" where
  "start_ok I h s mh \<longleftrightarrow>
     ibft_ok I h \<and> quorum (ibft_validators I) h \<noteq> 0 \<and> store_inv I s \<and> handler_address mh = self_of I \<and> handler_height mh < h \<and>
     (\<forall>v. h \<le> view_height v \<longrightarrow> is_proposer (ibft_validators I) (self_of I) v \<longrightarrow> proposal_at s v = None) \<and>
     (\<forall>v \<in> set (proposal_tx s). h \<le> view_height v \<longrightarrow> proposal_at s v \<noteq> None)"

lemma start_inv: "start_ok I h s mh \<Longrightarrow> node_inv I h (node_start I h s mh)"
  by (auto simp: start_ok_def node_start_def node_inv_def tasks_inv_def exited_def rounds_inv_def monitors_inv_def
      pc_inv_def latest_inv_def view_new_def MAX_ROUND_def)

lemma reachable_inv:
  assumes "start_ok I h s mh" and "node_reachable I (node_start I h s mh) n"
  shows "node_inv I h n"
  using assms(2)
proof induction
  case init
  show ?case by (rule start_inv [OF assms(1)])
next
  case (step n n')
  then show ?case using node_step_inv assms(1) by (auto simp: start_ok_def)
qed

end
