(* ===== verification/Node_History.thy ===== *)
theory Node_History
  imports Node_Invariant
begin

text \<open>
  What a node has broadcast so far. For every view it votes at most once, as proposer or with a
  prepare, and commits at most once and only to that digest; its round changes pass the
  verification of every other validator. These are invariants of all reachable states, with the
  aborted tasks of earlier rounds still running and also after the height has ended.
\<close>

text \<open>The digests proposed or prepared, and those committed to, in the order of sending.\<close>

fun prevotes :: "view \<Rightarrow> ibft_message list \<Rightarrow> bytes list" where
  "prevotes v [] = []"
| "prevotes v (Proposal p # ms) = (if ps_view p = v then ps_digest p # prevotes v ms else prevotes v ms)"
| "prevotes v (Prepare p # ms) = (if pr_view p = v then pr_digest p # prevotes v ms else prevotes v ms)"
| "prevotes v (m # ms) = prevotes v ms"

fun precommits :: "view \<Rightarrow> ibft_message list \<Rightarrow> bytes list" where
  "precommits v [] = []"
| "precommits v (Commit c # ms) = (if cm_view c = v then cm_digest c # precommits v ms else precommits v ms)"
| "precommits v (m # ms) = precommits v ms"

definition votes_match :: "view \<Rightarrow> round_pc \<Rightarrow> bytes list \<Rightarrow> bytes list \<Rightarrow> bool" where
  "votes_match v pc pre com =
     (case pc of
        BroadcastProposal p \<Rightarrow> ps_view p = v \<and> pre = [] \<and> com = []
      | AddProposal p \<Rightarrow> pre = [ps_digest p] \<and> com = []
      | BroadcastPrepare p \<Rightarrow> pr_view p = v \<and> pre = [] \<and> com = []
      | AddPrepare p \<Rightarrow> pre = [pr_digest p] \<and> com = []
      | QueryPrepare d \<Rightarrow> pre = [d] \<and> com = []
      | RecvPrepare d _ \<Rightarrow> pre = [d] \<and> com = []
      | BroadcastCommit c \<Rightarrow> cm_view c = v \<and> pre = [cm_digest c] \<and> com = []
      | AddCommit c \<Rightarrow> pre = [cm_digest c] \<and> com = [cm_digest c]
      | QueryCommit d \<Rightarrow> pre = [d] \<and> com = [d]
      | RecvCommit d _ \<Rightarrow> pre = [d] \<and> com = [d]
      | RoundDone _ \<Rightarrow> (\<exists>d. pre = [d] \<and> com = [d])
      | RoundFailed _ \<Rightarrow> pre = [] \<and> com = []
      | RoundPanicked \<Rightarrow> pre = [] \<and> com = [] \<or> (\<exists>d. pre = [d] \<and> (com = [] \<or> com = [d]))
      | _ \<Rightarrow> pre = [] \<and> com = [])"

definition history_inv :: "ibft \<Rightarrow> u64 \<Rightarrow> node \<Rightarrow> bool" where
  "history_inv I h n \<longleftrightarrow>
     (\<forall>rc. RoundChange rc \<in> set (nd_sent n) \<longrightarrow> own_round_change I h rc) \<and>
     sorted_wrt (\<lambda>t u. view_round (rt_view u) < view_round (rt_view t)) (nd_rounds n) \<and>
     (\<forall>t \<in> set (nd_rounds n). view_round (rt_view t) \<le> MAX_ROUND \<and>
        votes_match (rt_view t) (rt_pc t) (prevotes (rt_view t) (nd_sent n)) (precommits (rt_view t) (nd_sent n))) \<and>
     (\<forall>v. v \<notin> rt_view ` set (nd_rounds n) \<longrightarrow> prevotes v (nd_sent n) = [] \<and> precommits v (nd_sent n) = [])"

lemma votes_append [simp]:
  "prevotes v (xs @ ys) = prevotes v xs @ prevotes v ys" "precommits v (xs @ ys) = precommits v xs @ precommits v ys"
  by (induction v xs rule: prevotes.induct; simp) (induction v xs rule: precommits.induct; simp)

lemma votes_match_simps [simp]:
  "votes_match v Start pre com \<longleftrightarrow> pre = [] \<and> com = []"
  "votes_match v QueryRcc pre com \<longleftrightarrow> pre = [] \<and> com = []"
  "votes_match v (RecvRcc k) pre com \<longleftrightarrow> pre = [] \<and> com = []"
  "votes_match v (BroadcastProposal p) pre com \<longleftrightarrow> ps_view p = v \<and> pre = [] \<and> com = []"
  "votes_match v (AddProposal p) pre com \<longleftrightarrow> pre = [ps_digest p] \<and> com = []"
  "votes_match v QueryProposal pre com \<longleftrightarrow> pre = [] \<and> com = []"
  "votes_match v RecvProposal pre com \<longleftrightarrow> pre = [] \<and> com = []"
  "votes_match v RequeryProposal pre com \<longleftrightarrow> pre = [] \<and> com = []"
  "votes_match v (BroadcastPrepare q) pre com \<longleftrightarrow> pr_view q = v \<and> pre = [] \<and> com = []"
  "votes_match v (AddPrepare q) pre com \<longleftrightarrow> pre = [pr_digest q] \<and> com = []"
  "votes_match v (QueryPrepare d) pre com \<longleftrightarrow> pre = [d] \<and> com = []"
  "votes_match v (RecvPrepare d k) pre com \<longleftrightarrow> pre = [d] \<and> com = []"
  "votes_match v (BroadcastCommit c) pre com \<longleftrightarrow> cm_view c = v \<and> pre = [cm_digest c] \<and> com = []"
  "votes_match v (AddCommit c) pre com \<longleftrightarrow> pre = [cm_digest c] \<and> com = [cm_digest c]"
  "votes_match v (QueryCommit d) pre com \<longleftrightarrow> pre = [d] \<and> com = [d]"
  "votes_match v (RecvCommit d k) pre com \<longleftrightarrow> pre = [d] \<and> com = [d]"
  "votes_match v (RoundDone seals) pre com \<longleftrightarrow> (\<exists>d. pre = [d] \<and> com = [d])"
  "votes_match v (RoundFailed e) pre com \<longleftrightarrow> pre = [] \<and> com = []"
  "votes_match v RoundPanicked pre com \<longleftrightarrow>
     pre = [] \<and> com = [] \<or> (\<exists>d. pre = [d] \<and> (com = [] \<or> com = [d]))"
  by (simp_all add: votes_match_def)

subsection \<open>What a step of a round task sends\<close>

lemma votes_match_propose: "votes_match v (propose I v raw rcc) [] []"
  by (auto simp: propose_def proposal_into_signed_def split: option.split)

lemma votes_match_build: "votes_match v (build_and_propose I v b rcc) [] []"
  using votes_match_propose by (cases b) (simp_all add: build_and_propose_def)

lemma votes_match_prepare: "votes_match v (vote_prepare I v d) [] []"
  by (auto simp: vote_prepare_def prepare_into_signed_def prepare_new_def split: option.split)

lemma votes_match_commit: "votes_match v (vote_commit I v d) [d] []"
  by (auto simp: vote_commit_def commit_into_signed_def commit_new_def split: option.split bind_split)

lemma votes_match_start: "votes_match v (run_ibft_round_start I st b) [] []" if "srs_view st = v"
  using that by (auto simp: run_ibft_round_start_def run_proposal_0_start_def run_proposal_1_start_def
      votes_match_build)

lemma votes_match_rcc: "votes_match v (wait_rcc_taken I v b res) [] []"
  by (auto simp: wait_rcc_taken_def votes_match_propose votes_match_build
      split: prod.split option.split)

lemma votes_match_queried:
  "missing \<in> {RecvProposal, RoundPanicked} \<Longrightarrow> votes_match v (proposal_queried I v missing res) [] []"
  by (auto simp: proposal_queried_def votes_match_prepare split: option.split sum.split)

lemma votes_match_counted: "votes_match v (prepares_counted I v d k) [d] []"
  by (simp add: prepares_counted_def votes_match_commit)

lemma votes_match_taken: "votes_match v (commits_taken I v d res) [d] [d]"
  by (auto simp: commits_taken_def split: prod.split option.split)

lemma round_step_votes:
  assumes "round_step I ev t s = Some (t', s', msgs)" and "votes_match (rt_view t) (rt_pc t) pre com"
  shows "rt_view t' = rt_view t"
    and "votes_match (rt_view t) (rt_pc t') (pre @ prevotes (rt_view t) msgs) (com @ precommits (rt_view t) msgs)"
    and "w \<noteq> rt_view t \<Longrightarrow> prevotes w msgs = [] \<and> precommits w msgs = []"
    and "RoundChange rc \<notin> set msgs"
proof -
  note polls = votes_match_start votes_match_rcc votes_match_queried votes_match_counted votes_match_taken
  have "rt_view t' = rt_view t \<and>
    votes_match (rt_view t) (rt_pc t') (pre @ prevotes (rt_view t) msgs) (com @ precommits (rt_view t) msgs) \<and>
    (\<forall>w. w \<noteq> rt_view t \<longrightarrow> prevotes w msgs = [] \<and> precommits w msgs = []) \<and> RoundChange rc \<notin> set msgs"
  proof (cases ev)
    case (Poll b)
    then show ?thesis
      using assms
      by (cases "rt_pc t")
        (auto simp: round_poll_def Let_def rt_goto_def rt_enter_def shared_run_state_update_def polls split: prod.splits)
  next
    case (Recv u)
    then show ?thesis
      using assms
      by (cases "rt_pc t") (auto simp: round_recv_def counted_recv_def Let_def rt_goto_def)
  next
    case RecvError
    then show ?thesis
      using assms by (cases "rt_pc t") (auto simp: round_receiving_def rt_goto_def)
  qed
  then show "rt_view t' = rt_view t"
    and "votes_match (rt_view t) (rt_pc t') (pre @ prevotes (rt_view t) msgs) (com @ precommits (rt_view t) msgs)"
    and "w \<noteq> rt_view t \<Longrightarrow> prevotes w msgs = [] \<and> precommits w msgs = []" and "RoundChange rc \<notin> set msgs"
    by blast+
qed

subsection \<open>The history invariant\<close>

lemma history_same:
  assumes "history_inv I h n" and "nd_sent n' = nd_sent n" and "nd_rounds n' = nd_rounds n"
  shows "history_inv I h n'"
  using assms by (simp add: history_inv_def)

lemma history_round:
  assumes "history_inv I h n" and "i < length (nd_rounds n)"
    and "round_step I ev (nd_rounds n ! i) (nd_store n) = Some (t, s, msgs)"
  shows "history_inv I h (n\<lparr>nd_store := s, nd_rounds := (nd_rounds n)[i := t], nd_sent := nd_sent n @ msgs\<rparr>)"
proof -
  let ?ts = "nd_rounds n" and ?t = "nd_rounds n ! i" and ?ms = "nd_sent n @ msgs"
  have inv: "\<And>rc. RoundChange rc \<in> set (nd_sent n) \<Longrightarrow> own_round_change I h rc"
    "sorted_wrt (\<lambda>t u. view_round (rt_view u) < view_round (rt_view t)) ?ts"
    "\<And>u. u \<in> set ?ts \<Longrightarrow> view_round (rt_view u) \<le> MAX_ROUND \<and>
        votes_match (rt_view u) (rt_pc u) (prevotes (rt_view u) (nd_sent n)) (precommits (rt_view u) (nd_sent n))"
    "\<And>v. v \<notin> rt_view ` set ?ts \<Longrightarrow> prevotes v (nd_sent n) = [] \<and> precommits v (nd_sent n) = []"
    using assms(1) unfolding history_inv_def by blast+
  have mem: "?t \<in> set ?ts" using assms(2) by simp
  note step = round_step_votes [OF assms(3) conjunct2 [OF inv(3) [OF mem]]]
  have views: "map rt_view (?ts[i := t]) = map rt_view ?ts" by (rule same_views [OF assms(2) step(1)])
  then have vset: "rt_view ` set (?ts[i := t]) = rt_view ` set ?ts" by (metis set_map)
  have "sorted_wrt (\<lambda>v w. view_round w < view_round v) (map rt_view (?ts[i := t]))"
    using inv(2) unfolding views by (simp add: sorted_wrt_map)
  then have sorted: "sorted_wrt (\<lambda>t u. view_round (rt_view u) < view_round (rt_view t)) (?ts[i := t])"
    by (simp add: sorted_wrt_map)
  have tasks: "view_round (rt_view u) \<le> MAX_ROUND \<and>
      votes_match (rt_view u) (rt_pc u) (prevotes (rt_view u) ?ms) (precommits (rt_view u) ?ms)"
    if u: "u \<in> set (?ts[i := t])" for u
  proof (rule set_update_cases [OF u assms(2)])
    assume "u = t"
    then show ?thesis using step(1,2) inv(3) [OF mem] by simp
  next
    fix j assume j: "j < length ?ts" "j \<noteq> i" "u = ?ts ! j"
    then have "rt_view u \<noteq> rt_view ?t" using rounds_distinct [OF inv(2) j(1) assms(2)] by auto
    then show ?thesis using step(3) inv(3) [of u] j by simp
  qed
  have rest: "prevotes v ?ms = [] \<and> precommits v ?ms = []" if "v \<notin> rt_view ` set ?ts" for v
    using inv(4) [OF that] step(3) [of v] that mem by auto
  show ?thesis
    unfolding history_inv_def node.simps using inv(1) step(4) sorted tasks rest vset by auto
qed

lemma history_spawn:
  assumes "history_inv I h n" and "node_inv I h n" and "nd_pc n = RunSpawnRound"
  shows "history_inv I h (start_ibft_round I n)"
proof -
  have live: "\<not> exited (nd_pc n)" by (simp add: assms(3) exited_def)
  note inv = live_inv [OF assms(2) live]
  have below: "\<forall>t \<in> set (nd_rounds n). view_round (rt_view t) < view_round (nd_view n)"
    using inv(7) assms(3) by (simp add: pc_inv_def)
  then have "nd_view n \<notin> rt_view ` set (nd_rounds n)" by auto
  then show ?thesis
    using assms(1) below inv(2)
    by (auto simp: history_inv_def start_ibft_round_def Let_def round_task_new_def shared_run_state_new_def)
qed

lemma history_broadcast_rc:
  assumes "history_inv I h n" and "node_inv I h n" and "nd_pc n = RunBroadcastRc rc"
  shows "history_inv I h (n\<lparr>nd_sent := nd_sent n @ [RoundChange rc], nd_latest := Some rc,
                  nd_pc := RunStart (view_round (nd_view n) + 1)\<rparr>)"
proof -
  have live: "\<not> exited (nd_pc n)" by (simp add: assms(3) exited_def)
  have "own_round_change I h rc"
    using live_inv(1,7) [OF assms(2) live] assms(3) by (auto simp: pc_inv_def)
  then show ?thesis using assms(1) by (auto simp: history_inv_def)
qed

lemma history_run:
  assumes "history_inv I h n" and "node_inv I h n" and "run_step I ready n = Some n'"
  shows "history_inv I h n'"
proof (cases "nd_pc n")
  case (RunStart r)
  then show ?thesis
    using assms(3) history_same [OF assms(1)] by (auto simp: run_step_def run_loop_top_def Let_def split: option.splits)
next
  case RunSpawnRound
  then show ?thesis using assms(3) history_spawn [OF assms(1,2)] by (auto simp: run_step_def)
next
  case (RunBroadcastRc rc)
  then show ?thesis using assms(3) history_broadcast_rc [OF assms(1,2)] by (auto simp: run_step_def)
next
  case (RunReturn r)
  then show ?thesis
    using assms(3) history_same [OF assms(1)] by (auto simp: run_step_def split: option.splits)
qed (use assms(3) in \<open>auto simp: run_step_def run_select_def handle_round_finish_def handle_timeout_def
      timeout_take_proposal_def timeout_take_prepares_def Let_def case_prod_unfold split: option.splits
      intro: history_same [OF assms(1)]\<close>)

lemma history_step:
  assumes "node_step I n n'" and "history_inv I h n" and "node_inv I h n"
  shows "history_inv I h n'"
  using assms(1)
proof (cases rule: node_step_cases)
  case (round i ev t s msgs)
  then show ?thesis using history_round [OF assms(2)] by simp
next
  case (run ready)
  then show ?thesis using history_run [OF assms(2,3)] by simp
qed (auto simp: node_deliver_def intro: history_same [OF assms(2)])

lemma reachable_history:
  assumes "start_ok I h s mh" and "node_reachable I (node_start I h s mh) n"
  shows "history_inv I h n"
  using assms(2)
proof induction
  case init
  show ?case by (simp add: history_inv_def node_start_def)
next
  case (step n n')
  then show ?case using history_step reachable_inv [OF assms(1)] by blast
qed

end
