(* ===== verification/Round_Progress.thy ===== *)
theory Round_Progress
  imports Node_History
begin

text \<open>
  Progress of the round task: when the store holds what a round needs, polling the task a fixed
  number of times ends the round; and the counting loops do not lose a wake-up.
\<close>

subsection \<open>Concrete nodes\<close>

text \<open>The node of signer \<open>n\<close> among the mock's validators with the signers \<open>ns\<close>, for the witnesses.\<close>

definition sample_ibft :: "u8 list \<Rightarrow> u8 \<Rightarrow> ibft" where
  "sample_ibft ns n =
     \<lparr>ibft_externals = sample_externals,
      ibft_validators = mock_manager \<lparr>mock_validators = map (\<lambda>k. signer_address (sample_signer k)) ns\<rparr>,
      ibft_blocks = mock_block_service, ibft_signer = sample_signer n, base_round_time = 8000000000\<rparr>"

lemma sample_ibft_simps [simp]:
  "ibft_externals (sample_ibft ns n) = sample_externals" "ibft_signer (sample_ibft ns n) = sample_signer n"
  "ibft_blocks (sample_ibft ns n) = mock_block_service" "base_round_time (sample_ibft ns n) = 8000000000"
  "quorum (ibft_validators (sample_ibft ns n)) h = length ns * 2 div 3 + 1"
  "is_validator (ibft_validators (sample_ibft ns n)) a h \<longleftrightarrow> a \<in> (\<lambda>k. Address (replicate 24 k)) ` set ns"
  "is_proposer (ibft_validators (sample_ibft ns n)) a v \<longleftrightarrow>
     map (\<lambda>k. Address (replicate 24 k)) ns ! (unat (view_height v + ucast (view_round v)) mod length ns) = a"
  by (auto simp: sample_ibft_def mock_manager_def mock_quorum_def mock_is_validator_iff mock_is_proposer_def sample_address)

lemma sample_ibft_ok: "n \<in> set ns \<Longrightarrow> ibft_ok (sample_ibft ns n) h"
  by (auto simp: ibft_ok_def sample_address sample_externals_ok sample_signer_wf)

lemma store_inv_new: "store_inv I (messages_new (self_of I))"
  by (simp add: store_inv_def messages_new_wf store_auth_new new_laws rc_views_def) (simp add: messages_new_def)

lemma sample_start_ok:
  assumes "n \<in> set ns" and "0 < h"
  shows "start_ok (sample_ibft ns n) h (messages_new (self_of (sample_ibft ns n))) (handler_new 0 (self_of (sample_ibft ns n)))"
  using assms sample_ibft_ok [OF assms(1), of h] store_inv_new [of "sample_ibft ns n"]
  by (simp add: start_ok_def handler_new_def new_laws) (simp add: messages_new_def)

subsection \<open>The store outside a view\<close>

definition same_but :: "view \<Rightarrow> consensus_messages \<Rightarrow> consensus_messages \<Rightarrow> bool" where
  "same_but v s s' \<longleftrightarrow> round_changes_at s' = round_changes_at s \<and>
     (\<forall>w. w \<noteq> v \<longrightarrow> proposal_at s' w = proposal_at s w \<and> verification_at s' w = verification_at s w \<and>
        prepares_at s' w = prepares_at s w \<and> commits_at s' w = commits_at s w)"

lemma same_but_refl [simp]: "same_but v s s"
  by (simp add: same_but_def)

lemma same_but_trans: "same_but v s s' \<Longrightarrow> same_but v s' s'' \<Longrightarrow> same_but v s s''"
  by (simp add: same_but_def)

lemma same_but_adds:
  assumes "store_wf s"
  shows "ps_view p = v \<Longrightarrow> same_but v s (add_proposal_message p a s)"
    and "pr_view q = v \<Longrightarrow> same_but v s (add_prepare_message q a s)"
    and "cm_view c = v \<Longrightarrow> same_but v s (add_commit_message c a s)"
  using assms by (auto simp: same_but_def store_laws)

text \<open>Nothing has arrived for the view.\<close>

definition vacant :: "consensus_messages \<Rightarrow> view \<Rightarrow> bool" where
  "vacant s v \<longleftrightarrow> proposal_at s v = None \<and> verification_at s v = None \<and> prepares_at s v = [] \<and> commits_at s v = []"

lemma vacant_same: "same_but v s s' \<Longrightarrow> w \<noteq> v \<Longrightarrow> vacant s w \<Longrightarrow> vacant s' w"
  by (simp add: same_but_def vacant_def)

subsection \<open>Phases of a round\<close>

text \<open>\<open>k\<close> polls in a row; \<open>None\<close> when the task cannot be polled that often.\<close>

fun round_polls ::
    "nat \<Rightarrow> ibft \<Rightarrow> string + bytes \<Rightarrow> round_task \<Rightarrow> consensus_messages \<Rightarrow>
     (round_task \<times> consensus_messages \<times> ibft_message list) option" where
  "round_polls 0 I b t s = Some (t, s, [])"
| "round_polls (Suc k) I b t s =
     (case round_poll I b t s of
        None \<Rightarrow> None
      | Some (t', s', ms) \<Rightarrow>
          map_option (\<lambda>(t'', s'', ms'). (t'', s'', ms @ ms')) (round_polls k I b t' s'))"

definition commit_votes :: "consensus_messages \<Rightarrow> view \<Rightarrow> bytes \<Rightarrow> nat" where
  "commit_votes s v d = length (filter (\<lambda>(a, c). cm_digest c = d) (commits_at s v))"

lemma round_polls_add:
  assumes "round_polls j I b t s = Some (t1, s1, ms1)" and "round_polls k I b t1 s1 = Some (t2, s2, ms2)"
  shows "round_polls (j + k) I b t s = Some (t2, s2, ms1 @ ms2)"
  using assms by (induction j arbitrary: t s ms1) (auto split: option.splits)

lemmas task_new_simps = round_task_new_def shared_run_state_new_def shared_run_state_get_def run_state_from_u8_def
  run_ibft_round_start_def run_proposal_0_start_def run_proposal_1_start_def rt_goto_def rt_enter_def
  shared_run_state_update_def

abbreviation voting_task :: "view \<Rightarrow> bytes \<Rightarrow> round_task" where
  "voting_task v d \<equiv> rt_enter StPrepare (QueryPrepare d) (round_task_new (shared_run_state_new v))"

lemma voting_task_simps [simp]:
  "rt_view (voting_task v d) = v" "rt_pc (voting_task v d) = QueryPrepare d"
  "shared_run_state_get (rt_state (voting_task v d)) = Some StPrepare"
  by (simp_all add: task_new_simps)

text \<open>A validator that has the proposal prepares.\<close>

lemma validator_prepares:
  assumes "ibft_ok I h" and "store_inv I s" and "view_height v = h" and "view_round v \<le> MAX_ROUND"
    and "\<not> is_proposer (ibft_validators I) (self_of I) v" and "proposal_at s v = Some p"
    and "verification_at s v = None \<or> verification_at s v = Some (Inr ())" and "proposal_verify_fn I v p = Inr ()"
    and "map_of (prepares_at s v) (self_of I) = None"
  obtains m s' where
    "round_polls 4 I b (round_task_new (shared_run_state_new v)) s = Some (voting_task v (ps_digest p), s', [Prepare m])"
    "own_prepare I v m" "pr_digest m = ps_digest p" "length (ps_digest p) = 32" "store_inv I s'" "same_but v s s'"
    "proposal_at s' v = Some p" "prepares_at s' v = prepares_at s v @ [(self_of I, m)]" "commits_at s' v = commits_at s v"
proof -
  let ?t0 = "round_task_new (shared_run_state_new v)" and ?d = "ps_digest p"
  have wf: "store_wf s" by (rule store_invD(1) [OF assms(2)])
  have len: "length ?d = 32"
    using digest_length_32 proposal_verify_fn_digest [OF assms(8)] assms(1) by (auto simp: ibft_ok_def)
  obtain m where m: "vote_prepare I v ?d = BroadcastPrepare m" "own_prepare I v m" "pr_digest m = ?d"
    by (rule vote_prepare_pc [OF assms(1,5) len])
  obtain res s1 where query: "get_valid_proposal_digest v (proposal_verify_fn I v) s = (res, s1)" by fastforce
  have res: "res = Some (Inr ?d)"
    using arg_cong [where f = fst, OF query] assms(6-8) by (auto simp: get_valid_proposal_digest_result)
  have inv1: "store_inv I s1" by (rule store_effect_inv [OF proposal_query_result(1) [OF assms(2) query]])
  have s1: "s1 = snd (get_valid_proposal_digest v (proposal_verify_fn I v) s)" using query by simp
  then have same1: "same_but v s s1" using get_valid_proposal_digest_laws [OF wf, of v "proposal_verify_fn I v"]
    by (auto simp: same_but_def)
  have at1: "proposal_at s1 v = Some p" "prepares_at s1 = prepares_at s" "commits_at s1 = commits_at s"
    using get_valid_proposal_digest_laws(1,3,4) [OF wf, of v "proposal_verify_fn I v"] assms(6) s1 by simp_all
  let ?s2 = "add_prepare_message m (self_of I) s1"
  have inv2: "store_inv I ?s2"
    using m assms(1,3,4) by (intro store_effect_inv [OF add_prepare_effect [OF inv1, where W = "{}"]])
      (auto simp: own_prepare_def prepare_auth_def ibft_ok_def)
  note wf1 = store_invD(1) [OF inv1]
  have same: "same_but v s ?s2"
    by (rule same_but_trans [OF same1 same_but_adds(2) [OF wf1]]) (use m in \<open>simp add: own_prepare_def\<close>)
  have at2: "proposal_at ?s2 v = Some p" "prepares_at ?s2 v = prepares_at s v @ [(self_of I, m)]" "commits_at ?s2 v = commits_at s v"
    using m at1 assms(9) wf1 by (simp_all add: store_laws own_prepare_def)
  have "round_poll I b ?t0 s = Some (rt_goto QueryProposal ?t0, s, [])"
    using assms(5) by (simp add: round_poll_def Let_def task_new_simps)
  moreover have "round_poll I b (rt_goto QueryProposal ?t0) s = Some (rt_goto (BroadcastPrepare m) ?t0, s1, [])"
    using query res m(1) by (simp add: round_poll_def Let_def task_new_simps proposal_queried_def)
  moreover have "round_poll I b (rt_goto (BroadcastPrepare m) ?t0) s1 = Some (rt_goto (AddPrepare m) ?t0, s1, [Prepare m])"
    by (simp add: round_poll_def Let_def task_new_simps)
  moreover have "round_poll I b (rt_goto (AddPrepare m) ?t0) s1 = Some (voting_task v ?d, ?s2, [])"
    using m(3) by (simp add: round_poll_def Let_def task_new_simps)
  ultimately have "round_polls 4 I b ?t0 s = Some (voting_task v ?d, ?s2, [Prepare m])" by (simp add: numeral_eq_Suc)
  then show thesis by (rule that) (fact m(2,3) len inv2 same at2)+
qed

text \<open>With enough prepares it commits; the run state is still \<open>Prepare\<close> when the commit has been broadcast.\<close>

lemma prepared_commits:
  assumes "ibft_ok I h" and "store_inv I s" and "rt_pc t = QueryPrepare d" and "length d = 32"
    and "usize_pred (quorum_of I (rt_view t)) \<le> preps s (rt_view t) d"
  obtains c s' where "round_polls 2 I b t s = Some (rt_goto (AddCommit c) t, s', [Commit c])"
    "own_commit I (rt_view t) c" "cm_digest c = d" "store_inv I s'" "same_but (rt_view t) s s'"
    "proposal_at s' = proposal_at s" "commits_at s' = commits_at s"
proof -
  let ?v = "rt_view t"
  obtain n s1 where counted: "get_valid_prepare_count ?v (\<lambda>p. pr_digest p = d) s = (n, s1)" by fastforce
  note result = prepare_count_result [OF assms(2) counted]
  obtain c where c: "vote_commit I ?v d = BroadcastCommit c" "own_commit I ?v c" "cm_digest c = d"
    by (rule vote_commit_pc [OF assms(1,4)])
  have "s1 = snd (get_valid_prepare_count ?v (\<lambda>p. pr_digest p = d) s)" using counted by simp
  then have same: "same_but ?v s s1" "proposal_at s1 = proposal_at s" "commits_at s1 = commits_at s"
    using get_valid_prepare_count_laws(2-6) [OF store_invD(1) [OF assms(2)], of ?v "\<lambda>p. pr_digest p = d"]
    by (simp_all add: same_but_def)
  have "round_poll I b t s = Some (rt_goto (BroadcastCommit c) t, s1, [])"
    using assms(3,5) counted result(2) c(1) by (simp add: round_poll_def Let_def prepares_counted_def)
  moreover have "round_poll I b (rt_goto (BroadcastCommit c) t) s1 = Some (rt_goto (AddCommit c) t, s1, [Commit c])"
    by (simp add: round_poll_def Let_def rt_goto_def)
  ultimately have "round_polls 2 I b t s = Some (rt_goto (AddCommit c) t, s1, [Commit c])" by (simp add: numeral_eq_Suc)
  then show thesis by (rule that) (fact c(2,3) store_effect_inv [OF result(1)] same)+
qed

text \<open>A proposer that has signed its proposal broadcasts and stores it.\<close>

lemma proposal_stored:
  "round_polls 2 I b (rt_goto (BroadcastProposal p) (round_task_new (shared_run_state_new v))) s =
     Some (voting_task v (ps_digest p), add_proposal_message p (self_of I) s, [Proposal p])"
  by (simp add: numeral_eq_Suc round_poll_def Let_def rt_goto_def rt_enter_def round_task_new_def)

lemma propose_message: "propose I v raw rcc = BroadcastProposal p \<Longrightarrow> proposal_message p = proposal_new (ibft_externals I) v raw rcc"
  by (auto simp: propose_def proposal_into_signed_def split: option.splits)

text \<open>The proposer of round 0 proposes the block it has built.\<close>

lemma proposes_round_0:
  assumes "ibft_ok I h" and "view_round v = 0" and "is_proposer (ibft_validators I) (self_of I) v"
  obtains p where "round_polls 3 I (Inr raw) (round_task_new (shared_run_state_new v)) s =
      Some (voting_task v (ps_digest p), add_proposal_message p (self_of I) s, [Proposal p])"
    "own_proposal I v p" "proposal_message p = proposal_new (ibft_externals I) v raw None"
proof -
  let ?t0 = "round_task_new (shared_run_state_new v)"
  obtain p where p: "propose I v raw None = BroadcastProposal p" "own_proposal I v p" by (rule propose_pc [OF assms(1,3)])
  have "round_polls 1 I (Inr raw) ?t0 s = Some (rt_goto (BroadcastProposal p) ?t0, s, [])"
    using assms(2,3) p(1) by (simp add: round_poll_def Let_def task_new_simps build_and_propose_def)
  from round_polls_add [OF this proposal_stored] show thesis
    by (intro that [of p] p(2) propose_message [OF p(1)]) (simp add: numeral_eq_Suc)
qed

subsection \<open>The round completes\<close>

text \<open>From the commit on: the node's own commit completes a quorum of commits.\<close>

lemma commit_completes:
  assumes "ibft_ok I h" and "store_inv I s" and "view_height (rt_view t) = h" and "view_round (rt_view t) \<le> MAX_ROUND"
    and "rt_pc t = AddCommit c" and "own_commit I (rt_view t) c"
    and "map_of (commits_at s (rt_view t)) (self_of I) = None"
    and "quorum_of I (rt_view t) \<le> Suc (commit_votes s (rt_view t) (cm_digest c))"
  shows "\<exists>t' s' seals. round_polls 2 I b t s = Some (t', s', []) \<and> rt_pc t' = RoundDone seals \<and>
     rt_view t' = rt_view t \<and> seals_valid I h (cm_digest c) seals \<and> proposal_at s' = proposal_at s"
proof -
  let ?v = "rt_view t" and ?d = "cm_digest c"
  let ?t1 = "rt_enter StCommit (QueryCommit ?d) t" and ?s1 = "add_commit_message c (self_of I) s"
  have wf: "store_wf s" by (rule store_invD(1) [OF assms(2)])
  have inv: "store_inv I ?s1"
    using assms(1,3,4,6) by (intro store_effect_inv [OF add_commit_effect [OF assms(2), where W = "{}"]])
      (auto simp: own_commit_def commit_auth_def ibft_ok_def)
  obtain s2 res n where taken: "take_valid_commit_seals ?v (\<lambda>c. cm_digest c = ?d) (quorum_of I ?v) ?s1 = ((res, n), s2)"
    by (metis prod.collapse)
  note result = commit_seals_result [OF inv taken]
  have "n = commit_votes ?s1 ?v ?d"
    using arg_cong [where f = "\<lambda>r. snd (fst r)", OF taken] store_wf_adds(3) [OF wf]
    by (auto simp: store_laws Let_def hm_retain_def commit_votes_def split: if_splits)
  then have "\<not> n < quorum_of I ?v"
    using assms(6-8) wf by (simp add: commit_votes_def store_laws own_commit_def)
  then obtain seals where seals: "commits_taken I ?v ?d (res, n) = RoundDone seals" "seals_valid I h ?d seals"
    using result(3,4) assms(3) by (cases res) (auto simp: commits_taken_def)
  have "proposal_at s2 = proposal_at s"
    using arg_cong [where f = snd, OF taken] wf store_wf_adds(3) [OF wf] by (auto simp: store_laws)
  moreover have "round_poll I b t s = Some (?t1, ?s1, [])"
    using assms(5) by (simp add: round_poll_def Let_def)
  moreover have "round_poll I b ?t1 ?s1 = Some (rt_goto (RoundDone seals) ?t1, s2, [])"
    using taken seals(1) by (simp add: round_poll_def Let_def rt_enter_def shared_run_state_update_def)
  ultimately show ?thesis
    using seals(2) by (auto simp: numeral_2_eq_2 rt_goto_def rt_enter_def shared_run_state_update_def)
qed

text \<open>From the prepare phase on: enough prepares lead to the commit.\<close>

lemma prepare_completes:
  assumes "ibft_ok I h" and "store_inv I s" and "view_height (rt_view t) = h" and "view_round (rt_view t) \<le> MAX_ROUND"
    and "rt_pc t = QueryPrepare d" and "length d = 32"
    and "usize_pred (quorum_of I (rt_view t)) \<le> preps s (rt_view t) d"
    and "map_of (commits_at s (rt_view t)) (self_of I) = None"
    and "quorum_of I (rt_view t) \<le> Suc (commit_votes s (rt_view t) d)"
  shows "\<exists>t' s' c seals. round_polls 4 I b t s = Some (t', s', [Commit c]) \<and> rt_pc t' = RoundDone seals \<and>
     rt_view t' = rt_view t \<and> own_commit I (rt_view t) c \<and> cm_digest c = d \<and> seals_valid I h d seals \<and> proposal_at s' = proposal_at s"
proof -
  obtain c s1 where c: "round_polls 2 I b t s = Some (rt_goto (AddCommit c) t, s1, [Commit c])" "own_commit I (rt_view t) c" "cm_digest c = d"
    "store_inv I s1" "proposal_at s1 = proposal_at s" "commits_at s1 = commits_at s"
    by (rule prepared_commits [OF assms(1,2,5-7)])
  have "\<exists>t' s' seals. round_polls 2 I b (rt_goto (AddCommit c) t) s1 = Some (t', s', []) \<and> rt_pc t' = RoundDone seals \<and>
      rt_view t' = rt_view (rt_goto (AddCommit c) t) \<and> seals_valid I h (cm_digest c) seals \<and> proposal_at s' = proposal_at s1"
    using assms(3,4,8,9) c(2-6) by (intro commit_completes [OF assms(1)]) (simp_all add: rt_goto_def commit_votes_def)
  then obtain t' s' seals where "round_polls 2 I b (rt_goto (AddCommit c) t) s1 = Some (t', s', [])" "rt_pc t' = RoundDone seals"
    "rt_view t' = rt_view t" "seals_valid I h d seals" "proposal_at s' = proposal_at s"
    using c(3,5) by (auto simp: rt_goto_def)
  from round_polls_add [OF c(1) this(1)] this(2-) show ?thesis using c(2,3) by fastforce
qed

text \<open>A validator that is not the proposer completes the round: if the store holds a proposal of the
  view that passes (or has passed) verification, together with the node's own prepare a quorum less
  one of prepares for its digest, and together with the node's own commit a quorum of commits, then
  eight polls of the round task end the round. On the way the task broadcasts exactly one prepare and
  one commit, both for that digest, and the result is seals of a quorum of distinct validators
  over it.\<close>

lemma validator_completes_round:
  assumes "ibft_ok I h" and "store_inv I s" and "view_height v = h" and "view_round v \<le> MAX_ROUND"
    and "\<not> is_proposer (ibft_validators I) (self_of I) v"
    and "proposal_at s v = Some p" and "verification_at s v = None \<or> verification_at s v = Some (Inr ())"
    and "proposal_verify_fn I v p = Inr ()"
    and "map_of (prepares_at s v) (self_of I) = None" and "usize_pred (quorum_of I v) \<le> Suc (preps s v (ps_digest p))"
    and "map_of (commits_at s v) (self_of I) = None" and "quorum_of I v \<le> Suc (commit_votes s v (ps_digest p))"
  shows "\<exists>t s' m c seals.
     round_polls 8 I b (round_task_new (shared_run_state_new v)) s = Some (t, s', [Prepare m, Commit c]) \<and>
     rt_pc t = RoundDone seals \<and> seals_valid I h (ps_digest p) seals \<and> proposal_at s' v = Some p \<and>
     pr_view m = v \<and> pr_digest m = ps_digest p \<and> cm_view c = v \<and> cm_digest c = ps_digest p"
proof -
  let ?d = "ps_digest p"
  obtain m s2 where m: "round_polls 4 I b (round_task_new (shared_run_state_new v)) s = Some (voting_task v ?d, s2, [Prepare m])"
    "own_prepare I v m" "pr_digest m = ?d" "length ?d = 32" "store_inv I s2" "proposal_at s2 v = Some p"
    "prepares_at s2 v = prepares_at s v @ [(self_of I, m)]" "commits_at s2 v = commits_at s v"
    by (rule validator_prepares [OF assms(1-9)])
  have "\<exists>t s' c seals. round_polls 4 I b (voting_task v ?d) s2 = Some (t, s', [Commit c]) \<and> rt_pc t = RoundDone seals \<and>
     rt_view t = rt_view (voting_task v ?d) \<and> own_commit I (rt_view (voting_task v ?d)) c \<and> cm_digest c = ?d \<and>
     seals_valid I h ?d seals \<and> proposal_at s' = proposal_at s2"
    using assms m(3,4,7,8) by (intro prepare_completes [OF assms(1) m(5)]) (simp_all add: commit_votes_def preps_def)
  then obtain t s' c seals where "round_polls 4 I b (voting_task v ?d) s2 = Some (t, s', [Commit c])" "rt_pc t = RoundDone seals"
    "own_commit I v c" "cm_digest c = ?d" "seals_valid I h ?d seals" "proposal_at s' v = Some p"
    using m(6) by auto
  from round_polls_add [OF m(1) this(1)] this(2-) m(2,3) show ?thesis by (fastforce simp: own_prepare_def own_commit_def)
qed

text \<open>The proposer of round 0 completes the round: if \<open>build_block\<close> gives a block and the store
  holds a quorum less one of prepares for its digest and, together with the node's own commit, a
  quorum of commits, then seven polls end the round. The task broadcasts one proposal of that
  block and one commit, no prepare.\<close>

lemma proposer_completes_round:
  assumes "ibft_ok I h" and "store_inv I s" and "view_height v = h" and "view_round v = 0"
    and "is_proposer (ibft_validators I) (self_of I) v" and "d = digest_block (ibft_externals I) raw 0"
    and "proposal_at s v = None"
    and "usize_pred (quorum_of I v) \<le> preps s v d"
    and "map_of (commits_at s v) (self_of I) = None" and "quorum_of I v \<le> Suc (commit_votes s v d)"
  shows "\<exists>t s' p c seals.
     round_polls 7 I (Inr raw) (round_task_new (shared_run_state_new v)) s = Some (t, s', [Proposal p, Commit c]) \<and>
     rt_pc t = RoundDone seals \<and> seals_valid I h d seals \<and> proposal_at s' v = Some p \<and>
     ps_view p = v \<and> ps_digest p = d \<and> raw_block (ps_block p) = raw \<and> cm_view c = v \<and> cm_digest c = d"
proof -
  have wf: "store_wf s" by (rule store_invD(1) [OF assms(2)])
  obtain p where p: "round_polls 3 I (Inr raw) (round_task_new (shared_run_state_new v)) s =
      Some (voting_task v (ps_digest p), add_proposal_message p (self_of I) s, [Proposal p])"
    "own_proposal I v p" "proposal_message p = proposal_new (ibft_externals I) v raw None"
    by (rule proposes_round_0 [OF assms(1,4,5)])
  have digest: "ps_digest p = d" and raw: "raw_block (ps_block p) = raw"
    using assms(4,6) p(3) by (simp_all add: proposal_new_def Let_def proposed_block_digest_def)
  have len: "length d = 32" using digest_lengths(5) [of "ibft_externals I"] assms(1,6) by (simp add: ibft_ok_def externals_ok_def)
  let ?s3 = "add_proposal_message p (self_of I) s"
  have inv3: "store_inv I ?s3"
    using p(2) assms(4) by (intro store_effect_inv [OF add_proposal_effect [OF assms(2), where W = "{v}"]])
      (auto simp: own_proposal_def proposal_auth_def MAX_ROUND_def)
  have at3: "proposal_at ?s3 v = Some p" using p(2) assms(7) wf by (simp add: store_laws own_proposal_def)
  have "\<exists>t s' c seals. round_polls 4 I (Inr raw) (voting_task v d) ?s3 = Some (t, s', [Commit c]) \<and> rt_pc t = RoundDone seals \<and>
     rt_view t = rt_view (voting_task v d) \<and> own_commit I (rt_view (voting_task v d)) c \<and> cm_digest c = d \<and>
     seals_valid I h d seals \<and> proposal_at s' = proposal_at ?s3"
    using assms len by (intro prepare_completes [OF assms(1) inv3])
      (simp_all add: commit_votes_def preps_def store_laws wf MAX_ROUND_def)
  then obtain t s' c seals where "round_polls 4 I (Inr raw) (voting_task v d) ?s3 = Some (t, s', [Commit c])" "rt_pc t = RoundDone seals"
    "own_commit I v c" "cm_digest c = d" "seals_valid I h d seals" "proposal_at s' v = Some p"
    using at3 by auto
  from round_polls_add [OF p(1) [unfolded digest] this(1)] this(2-) p(2) digest raw show ?thesis
    by (fastforce simp: own_proposal_def own_commit_def)
qed

subsection \<open>No lost wake-up\<close>

text \<open>
  A task in the loop of \<open>run_commit\<close> beside others that add commits. The third component is what the
  task's receiver has still to deliver: every view notified since the subscription, in order.
\<close>

definition notified :: "consensus_messages \<Rightarrow> consensus_messages \<Rightarrow> view list" where
  "notified s s' = drop (length (commit_tx s)) (commit_tx s')"

inductive commit_wait ::
    "ibft \<Rightarrow> round_task \<times> consensus_messages \<times> view list \<Rightarrow> round_task \<times> consensus_messages \<times> view list \<Rightarrow> bool"
  for I where
  add: "commit_wait I (t, s, q) (t, add_commit_message c a s, q @ notified s (add_commit_message c a s))"
| recv: "round_recv I w t = Some t' \<Longrightarrow> commit_wait I (t, s, w # q) (t', s, q)"
| poll: "round_poll I b t s = Some (t', s', ms) \<Longrightarrow> commit_wait I (t, s, q) (t', s', q)"

definition pending :: "view \<Rightarrow> view list \<Rightarrow> nat" where
  "pending v q = length (filter (\<lambda>w. w = v) q)"

definition commit_wait_inv :: "ibft \<Rightarrow> view \<Rightarrow> bytes \<Rightarrow> round_task \<times> consensus_messages \<times> view list \<Rightarrow> bool" where
  "commit_wait_inv I v d x \<longleftrightarrow>
     (case x of (t, s, q) \<Rightarrow>
        store_wf s \<and> rt_view t = v \<and>
        (rt_pc t = QueryCommit d \<or> (\<exists>seals. rt_pc t = RoundDone seals) \<or>
         (\<exists>n. rt_pc t = RecvCommit d n \<and> n < quorum_of I v \<and> commit_votes s v d \<le> n + pending v q)))"

lemma add_commit_votes:
  assumes "store_wf s"
  shows "commit_votes (add_commit_message c a s) v d \<le> commit_votes s v d + pending v (notified s (add_commit_message c a s))"
  using assms by (auto simp: commit_votes_def pending_def notified_def store_laws)

lemma commit_query_votes:
  assumes "store_wf s" and "take_valid_commit_seals v (\<lambda>c. cm_digest c = d) q s = ((seals, n), s')"
  shows "n = commit_votes s v d" and "n < q \<Longrightarrow> commit_votes s' v d = n" and "q \<le> n \<Longrightarrow> seals \<noteq> None" and "store_wf s'"
proof -
  have s': "s' = snd (take_valid_commit_seals v (\<lambda>c. cm_digest c = d) q s)"
    and r: "(seals, n) = fst (take_valid_commit_seals v (\<lambda>c. cm_digest c = d) q s)" using assms(2) by simp_all
  show "n = commit_votes s v d" and "q \<le> n \<Longrightarrow> seals \<noteq> None"
    using r assms(1) by (auto simp: store_laws Let_def commit_votes_def hm_retain_def split: if_splits)
  show "n < q \<Longrightarrow> commit_votes s' v d = n"
    using r assms(1) by (auto simp: s' store_laws Let_def commit_votes_def hm_retain_def)
  show "store_wf s'" unfolding s' by (rule store_wf_senders(3) [OF assms(1)])
qed

lemma commit_wait_step:
  assumes "commit_wait I x y" and "commit_wait_inv I v d x"
  shows "commit_wait_inv I v d y"
  using assms
proof cases
  case (add t s q c a)
  then show ?thesis
    using assms(2) add_commit_votes [of s c a v d]
    by (auto simp: commit_wait_inv_def store_wf_adds pending_def)
next
  case (recv w t t' s q)
  then show ?thesis
    using assms(2)
    by (auto simp: commit_wait_inv_def round_recv_def counted_recv_def Let_def rt_goto_def pending_def split: if_splits)
      (metis Suc_lessI)
next
  case (poll b t s t' s' ms q)
  have wf: "store_wf s" and view: "rt_view t = v" and pc: "rt_pc t = QueryCommit d"
    using assms(2) poll by (auto simp: commit_wait_inv_def round_poll_def Let_def)
  obtain seals n where taken: "take_valid_commit_seals v (\<lambda>c. cm_digest c = d) (quorum_of I v) s = ((seals, n), s')"
    and t': "t' = rt_goto (commits_taken I v d (seals, n)) t"
    using poll(3) pc view by (auto simp: round_poll_def Let_def split: prod.splits)
  show ?thesis
    using commit_query_votes [OF wf taken] view poll(2) t'
    by (cases seals; cases "n < quorum_of I v") (auto simp: commit_wait_inv_def commits_taken_def rt_goto_def)
qed

text \<open>C26: The loop of \<open>run_commit\<close> loses no wake-up: after the task has subscribed and while others
  add commits, whenever it waits and its receiver holds no further notification for its view,
  there are fewer commits for its digest than the quorum. The loop does not wait for a quorum it
  already has.\<close>

theorem commit_loop_no_lost_wakeup:
  assumes "store_wf s" and "rt_pc t = QueryCommit d" and "(commit_wait I)\<^sup>*\<^sup>* (t, s, []) (t', s', q)"
    and "rt_pc t' = RecvCommit d n" and "rt_view t \<notin> set q"
  shows "commit_votes s' (rt_view t) d < quorum_of I (rt_view t)"
proof -
  have "commit_wait_inv I (rt_view t) d (t', s', q)"
    using assms(3)
  proof (induction rule: rtranclp_induct)
    case base
    then show ?case using assms(1,2) by (simp add: commit_wait_inv_def)
  next
    case (step y z)
    then show ?case using commit_wait_step by blast
  qed
  moreover have "pending (rt_view t) q = 0" using assms(5) by (auto simp: pending_def filter_empty_conv)
  ultimately show ?thesis using assms(4) by (auto simp: commit_wait_inv_def)
qed

theorem commit_loop_no_lost_wakeup_witness:
  "\<exists>t s'. commit_wait (sample_ibft [1] 1) (\<lparr>rt_state = shared_run_state_new (view_new 1 0), rt_pc = QueryCommit []\<rparr>,
       messages_new (Address []), []) (t, s', []) \<and> rt_pc t = RecvCommit [] 0 \<and>
     commit_votes s' (view_new 1 0) [] < quorum_of (sample_ibft [1] 1) (view_new 1 0)"
proof -
  let ?I = "sample_ibft [1] 1" and ?v = "view_new 1 0" and ?s = "messages_new (Address [])"
  let ?t = "\<lparr>rt_state = shared_run_state_new ?v, rt_pc = QueryCommit []\<rparr>"
  have wf: "store_wf ?s" by (rule messages_new_wf)
  obtain seals n s' where taken: "take_valid_commit_seals ?v (\<lambda>c. cm_digest c = []) (quorum_of ?I ?v) ?s = ((seals, n), s')"
    by (metis prod.collapse)
  have "n = 0" using commit_query_votes(1) [OF wf taken] by (simp add: commit_votes_def new_laws)
  then have "round_poll ?I (Inl []) ?t ?s = Some (rt_goto (RecvCommit [] 0) ?t, s', [])"
    using taken by (simp add: round_poll_def Let_def shared_run_state_new_def commits_taken_def)
  then have wait: "commit_wait ?I (?t, ?s, []) (rt_goto (RecvCommit [] 0) ?t, s', [])" by (rule commit_wait.poll)
  have "commit_votes s' (rt_view ?t) [] < quorum_of ?I (rt_view ?t)"
    by (rule commit_loop_no_lost_wakeup [OF wf _ r_into_rtranclp [of "commit_wait ?I", OF wait], where n = 0])
      (simp_all add: rt_goto_def)
  then show ?thesis using wait by (intro exI conjI) (assumption, simp_all add: rt_goto_def shared_run_state_new_def)
qed

end
