(* ===== verification/Node_Properties.thy ===== *)
theory Node_Properties
  imports Round_Progress
begin

text \<open>
  What a node that runs one height guarantees in every reachable state, from any admissible start:
  certified blocks, no panic, no equivocation, valid round changes, bounded rounds; and that a node
  whose store holds what round 0 needs finishes the height with the proposed block.
\<close>

subsection \<open>Blocks\<close>

text \<open>A node broadcasts its block once, on the way out.\<close>

definition blocks_inv :: "node \<Rightarrow> bool" where
  "blocks_inv n =
     (case nd_pc n of
        RunReturn (Some b) \<Rightarrow> nd_blocks n = [b]
      | RunPrune b \<Rightarrow> nd_blocks n = [b]
      | RunExit (Some b) \<Rightarrow> nd_blocks n = [b]
      | RunPanicked \<Rightarrow> length (nd_blocks n) \<le> 1
      | _ \<Rightarrow> nd_blocks n = [])"

lemma blocks_inv_same:
  "blocks_inv n \<Longrightarrow> nd_blocks n' = nd_blocks n \<Longrightarrow> nd_pc n' = nd_pc n \<Longrightarrow> blocks_inv n'"
  by (simp only: blocks_inv_def)

lemma select_keeps_blocks: "nd_blocks (run_select k ready n) = nd_blocks n"
  by (simp add: run_select_def)

lemma blocks_inv_run:
  assumes "blocks_inv n" and "run_step I ready n = Some n'"
  shows "blocks_inv n'"
proof (cases "nd_pc n")
  case (RunReturn r)
  then show ?thesis using assms by (auto simp: blocks_inv_def run_step_def split: option.splits)
next
  case (RunSelect k)
  then show ?thesis
    using assms by (auto simp: blocks_inv_def run_step_def select_keeps_blocks intro: run_select_rule)
next
  case RunTimeout
  then show ?thesis
    using assms by (auto simp: blocks_inv_def run_step_def handle_timeout_def broadcast_rc_def Let_def
        split: list.split option.split run_state.split)
qed (use assms in \<open>auto simp: blocks_inv_def run_step_def run_loop_top_def start_ibft_round_def handle_round_finish_def
      timeout_take_proposal_def timeout_take_prepares_def broadcast_rc_def Let_def case_prod_unfold
      split: option.splits\<close>)

lemma reachable_blocks:
  assumes "node_reachable I (node_start I h s mh) n"
  shows "blocks_inv n"
  using assms
proof induction
  case init
  show ?case by (simp add: blocks_inv_def node_start_def)
next
  case (step n n')
  from step(2) show ?case
    using step(3) by (cases rule: node_step_cases) (auto simp: node_deliver_def intro: blocks_inv_run blocks_inv_same)
qed

text \<open>C1: Every block a node broadcasts or returns at a height is certified: its proof holds seals
  of at least a quorum of distinct validators of the height over the digest of the raw block and
  its round. A node broadcasts at most one block, and the one it returns is the one it
  broadcast. This holds in every reachable state, whatever messages are delivered and however the
  steps of the handler, of the spawned tasks and of the run loop interleave.\<close>

theorem finalized_blocks_certified:
  assumes "start_ok I h s mh" and "node_reachable I (node_start I h s mh) n"
  shows "length (nd_blocks n) \<le> 1 \<and>
    (\<forall>b. nd_pc n = RunExit (Some b) \<longrightarrow> nd_blocks n = [b]) \<and>
    (\<forall>b \<in> set (nd_blocks n). \<exists>as.
       signed_by (\<lambda>seal. signature_recover_from_prehash (ibft_externals I) seal
            (digest_block (ibft_externals I) (final_raw_block b) (proof_round (final_proof b))))
         (proof_seals (final_proof b)) as \<and>
       distinct as \<and> (\<forall>a \<in> set as. is_validator (ibft_validators I) a h) \<and>
       quorum (ibft_validators I) h \<le> length as)"
proof -
  have "length (nd_blocks n) \<le> 1 \<and> (\<forall>b. nd_pc n = RunExit (Some b) \<longrightarrow> nd_blocks n = [b])"
    using reachable_blocks [OF assms(2)] by (auto simp: blocks_inv_def split: run_pc.splits option.splits)
  moreover have "\<forall>b \<in> set (nd_blocks n). block_valid I h b"
    using reachable_inv [OF assms] by (simp add: node_inv_def)
  ultimately show ?thesis
    unfolding block_valid_def seals_valid_def using signed_by_length by metis
qed

subsection \<open>Panics\<close>

text \<open>C12: The run loop of a height panics only after the last round: no \<open>expect\<close>, assertion or
  index of \<open>run\<close>, \<open>start_ibft_round\<close>, \<open>handle_round_finish\<close>, \<open>handle_timeout\<close> or \<open>update_height\<close>
  fails before round \<open>MAX_ROUND\<close> has timed out and its round change has been broadcast.\<close>

theorem run_panics_only_after_last_round:
  assumes "start_ok I h s mh" and "node_reachable I (node_start I h s mh) n" and "nd_pc n = RunPanicked"
  shows "view_round (nd_view n) = MAX_ROUND \<and> (\<exists>rc. nd_latest n = Some rc \<and> view_round (rcs_view rc) = MAX_ROUND + 1)"
  using reachable_inv [OF assms(1,2)] assms(3)
  by (auto simp: node_inv_def tasks_inv_def exited_def pc_inv_def latest_inv_def)

text \<open>C13: Until the height has ended, no spawned task panics, unless its receiver is closed or has
  lagged: neither a round task nor a monitor, neither of the current round nor an aborted one of an
  earlier round. So no signature, no store query and no index in them fails.\<close>

theorem tasks_do_not_panic:
  assumes "start_ok I h s mh" and "node_reachable I (node_start I h s mh) n" and "\<not> exited (nd_pc n)"
    and "ev \<noteq> RecvError"
  shows "(\<forall>i t s' msgs. i < length (nd_rounds n) \<longrightarrow>
       event_from ev (round_channel (rt_pc (nd_rounds n ! i)) (nd_store n)) \<longrightarrow>
       round_step I ev (nd_rounds n ! i) (nd_store n) = Some (t, s', msgs) \<longrightarrow> rt_pc t \<noteq> RoundPanicked) \<and>
    (\<forall>m m' s'. m \<in> set (nd_proposal_monitors n) \<union> set (nd_rcc_monitors n) \<longrightarrow>
       event_from ev (monitor_channel (mt_kind m) (nd_store n)) \<longrightarrow>
       monitor_step I ev m (nd_store n) = Some (m', s') \<longrightarrow> mt_pc m' \<noteq> MonitorPanicked)"
proof -
  have inv: "node_inv I h n" by (rule reachable_inv [OF assms(1,2)])
  have ok: "ibft_ok I h" using assms(1) by (simp add: start_ok_def)
  have "monitor_auth h m" if "m \<in> set (nd_proposal_monitors n) \<union> set (nd_rcc_monitors n)" for m
    using that live_inv(5,6) [OF inv assms(3)] by (auto simp: monitors_inv_def)
  then show ?thesis
    using round_rule_inv(2) [OF ok inv _ _ _ assms(3)] monitor_step_kept(2) [OF live_inv(3) [OF inv assms(3)]] assms(4)
    by blast
qed

subsection \<open>Rounds\<close>

lemma decreasing_length:
  assumes "sorted_wrt (\<lambda>x y. y < x) (map f xs)" and "\<forall>x \<in> set xs. f x \<le> (k::nat)"
  shows "length xs \<le> Suc k"
proof -
  have "distinct (map f xs)" using assms(1) by (induction xs) auto
  then have "length xs = card (f ` set xs)" by (metis distinct_card length_map set_map)
  also have "\<dots> \<le> card {..k}" using assms(2) by (intro card_mono) auto
  finally show ?thesis by simp
qed

text \<open>C17: A height runs every round at most once and in increasing order, whether a round ends by
  timeout or by a jump to a later one, never beyond \<open>MAX_ROUND\<close>: at most 22 round tasks are ever
  spawned for it.\<close>

theorem rounds_increase:
  assumes "start_ok I h s mh" and "node_reachable I (node_start I h s mh) n"
  shows "sorted_wrt (\<lambda>t u. view_round (rt_view u) < view_round (rt_view t)) (nd_rounds n) \<and>
    (\<forall>t \<in> set (nd_rounds n). view_round (rt_view t) \<le> MAX_ROUND) \<and> length (nd_rounds n) \<le> 22"
proof -
  have inv: "sorted_wrt (\<lambda>t u. view_round (rt_view u) < view_round (rt_view t)) (nd_rounds n)"
    "\<forall>t \<in> set (nd_rounds n). view_round (rt_view t) \<le> MAX_ROUND"
    using reachable_history [OF assms] by (auto simp: history_inv_def)
  have "length (nd_rounds n) \<le> Suc 21"
    by (rule decreasing_length [where f = "\<lambda>t. unat (view_round (rt_view t))"])
      (use inv in \<open>auto simp: sorted_wrt_map word_less_nat_alt word_le_nat_alt MAX_ROUND_def\<close>)
  then show ?thesis using inv by simp
qed

subsection \<open>Votes\<close>

lemma single_votes:
  assumes "start_ok I h s mh" and "node_reachable I (node_start I h s mh) n"
  shows "length (prevotes v (nd_sent n)) \<le> 1 \<and>
    (precommits v (nd_sent n) = [] \<or> precommits v (nd_sent n) = prevotes v (nd_sent n))"
proof (cases "v \<in> rt_view ` set (nd_rounds n)")
  case True
  then obtain t where t: "t \<in> set (nd_rounds n)" "rt_view t = v" by blast
  then have "votes_match v (rt_pc t) (prevotes v (nd_sent n)) (precommits v (nd_sent n))"
    using reachable_history [OF assms] by (auto simp: history_inv_def)
  then show ?thesis by (cases "rt_pc t") auto
qed (use reachable_history [OF assms] in \<open>auto simp: history_inv_def\<close>)

text \<open>C9: A node does not equivocate: for every view it proposes or prepares at most one digest, once,
  and if it commits, it commits once and to that digest. This covers all messages of the height,
  also those of aborted tasks that still run.\<close>

theorem no_equivocation:
  assumes "start_ok I h s mh" and "node_reachable I (node_start I h s mh) n"
  shows "length (prevotes v (nd_sent n)) \<le> 1 \<and>
    (precommits v (nd_sent n) = [] \<or> precommits v (nd_sent n) = prevotes v (nd_sent n))"
  by (rule single_votes [OF assms])

lemma commit_state_quorum:
  assumes "start_ok I h s mh" and "node_reachable I (node_start I h s mh) n" and "nd_pc n = RunSelect k"
    and "nd_rounds n = t # ts" and "shared_run_state_get (rt_state t) = Some StCommit"
  shows "\<exists>p a as. proposal_at (nd_store n) (nd_view n) = Some p \<and> proposal_verify_block_digest (ibft_externals I) p \<and>
    proposal_recover_signer (ibft_externals I) p = Inr a \<and> is_proposer (ibft_validators I) a (nd_view n) \<and>
    distinct (a # as) \<and> usize_pred (quorum_of I (nd_view n)) \<le> length as \<and>
    (\<forall>b \<in> set as. is_validator (ibft_validators I) b h \<and>
       (\<exists>m. (b, m) \<in> set (prepares_at (nd_store n) (nd_view n)) \<and> pr_digest m = ps_digest p \<and>
            prepare_recover_signer (ibft_externals I) m = Inr b))"
proof -
  have live: "\<not> exited (nd_pc n)" by (simp add: assms(3) exited_def)
  note inv = live_inv [OF reachable_inv [OF assms(1,2)] live]
  note sinv = store_invD [OF inv(3)]
  let ?v = "nd_view n"
  have t: "rt_view t = ?v" "round_auth I h t" "round_backed I (nd_store n) t" "srs_run_state (rt_state t) = 2"
    using inv(4,7) assms(3-5)
    by (auto simp: pc_inv_def current_def rounds_inv_def shared_run_state_get_def run_state_from_u8_def split: if_splits)
  obtain d where "prepared I (nd_store n) (rt_view t) d" by (rule round_backed_commit [OF t(2-4)])
  then obtain p where p: "proposal_at (nd_store n) ?v = Some p" "ps_digest p = d"
    "proposal_verify_block_digest (ibft_externals I) p" "usize_pred (quorum_of I ?v) \<le> preps (nd_store n) ?v d"
    unfolding prepared_def backed_def t(1) by blast
  obtain a where a: "proposal_recover_signer (ibft_externals I) p = Inr a" "is_proposer (ibft_validators I) a ?v"
    using store_authD(1) [OF sinv(2) p(1)] by (auto simp: proposal_auth_def)
  let ?ps = "filter (\<lambda>(a, m). pr_digest m = d) (prepares_at (nd_store n) ?v)"
  have "\<not> is_proposer (ibft_validators I) b ?v \<and> is_validator (ibft_validators I) b h \<and>
       (\<exists>m. (b, m) \<in> set (prepares_at (nd_store n) ?v) \<and> pr_digest m = d \<and>
            prepare_recover_signer (ibft_externals I) m = Inr b)" if "b \<in> set (map fst ?ps)" for b
    using that store_authD(2) [OF sinv(2), of b _ ?v] inv(1) by (fastforce simp: prepare_auth_def)
  moreover have "distinct (map fst ?ps)"
    using store_wfD(9) [OF sinv(1), of ?v] by (simp add: hm_wf_def distinct_map_fst_filter)
  ultimately show ?thesis
    using p a by (intro exI [of _ p] exI [of _ a] exI [of _ "map fst ?ps"]) (auto simp: preps_def)
qed

text \<open>C10: A node in the commit state of its current round is prepared: the store holds the proposal
  of the view, signed by its proposer, whose digest is the digest of its block, and prepares for that
  digest of a quorum less one of distinct validators other than the proposer. So the node commits
  only to a prepared block, and \<open>handle_timeout\<close> finds the certificate it takes.\<close>

theorem commit_state_is_prepared:
  assumes "start_ok I h s mh" and "node_reachable I (node_start I h s mh) n" and "nd_pc n = RunSelect k"
    and "nd_rounds n = t # ts" and "shared_run_state_get (rt_state t) = Some StCommit"
  shows "\<exists>p a as. proposal_at (nd_store n) (nd_view n) = Some p \<and> proposal_verify_block_digest (ibft_externals I) p \<and>
    proposal_recover_signer (ibft_externals I) p = Inr a \<and> is_proposer (ibft_validators I) a (nd_view n) \<and>
    distinct (a # as) \<and> usize_pred (quorum_of I (nd_view n)) \<le> length as \<and>
    (\<forall>b \<in> set as. is_validator (ibft_validators I) b h \<and>
       (\<exists>m. (b, m) \<in> set (prepares_at (nd_store n) (nd_view n)) \<and> pr_digest m = ps_digest p \<and>
            prepare_recover_signer (ibft_externals I) m = Inr b))"
  by (rule commit_state_quorum [OF assms])

text \<open>C11: Every round change a node broadcasts passes the verification of the other validators:
  it is signed by the node, is for a round of the height above 0, and the prepared
  certificate it may carry is valid. That includes round changes that are updated and signed again
  in a later round.\<close>

theorem round_changes_sent_are_valid:
  assumes "start_ok I h s mh" and "node_reachable I (node_start I h s mh) n" and "RoundChange rc \<in> set (nd_sent n)"
  shows "rc_recover_signer (ibft_externals I) rc = Inr (self_of I) \<and> view_height (rcs_view rc) = h \<and>
    view_round (rcs_view rc) \<noteq> 0 \<and> round_change_verify_fn (ibft_externals I) (ibft_validators I) h rc"
  using reachable_history [OF assms(1,2)] assms(3) unfolding history_inv_def own_round_change_def by blast

subsection \<open>A height that finishes in round 0\<close>

text \<open>
  Schedules. \<open>R\<close> is any set of states that is closed under the steps a node takes by itself while it runs and is not
  cancelled: the reachable states of the node alone, or those of the node as a part of a network.
\<close>

definition leaves :: "run_pc \<Rightarrow> bool" where
  "leaves pc \<longleftrightarrow> pc = RunReturn None \<or> exited pc"

lemma leaves_simps [simp]:
  "\<not> leaves (RunStart r)" "\<not> leaves RunSpawnRound" "\<not> leaves (RunSelect k)" "\<not> leaves (RunFinish x)" "\<not> leaves (RunBroadcastBlock b)"
  "\<not> leaves (RunReturn (Some b))" "\<not> leaves (RunPrune b)" "\<not> leaves RunTimeout" "\<not> leaves (RunBroadcastRc rc)"
  by (simp_all add: leaves_def exited_def)

locale scheduled =
  fixes I :: ibft and built :: "bytes \<Rightarrow> bool" and R :: "node \<Rightarrow> bool"
  assumes internal_steps: "R n \<Longrightarrow> node_builds I built n n' \<Longrightarrow> \<not> leaves (nd_pc n') \<Longrightarrow> R n'"
begin

lemma scheduled_run:
  assumes "R n" and "run_step I ready n = Some n'" and "\<not> leaves (nd_pc n')"
  shows "R n'"
  by (rule internal_steps [OF assms(1) node_builds.run [OF assms(2)] assms(3)])

lemma scheduled_polls:
  assumes "round_polls k I b t s = Some (t', s', msgs)" and "R n" and "nd_store n = s" and "nd_rounds n = t # ts"
    and "\<not> leaves (nd_pc n)" and "\<And>raw. b = Inr raw \<Longrightarrow> built raw"
  shows "R (n\<lparr>nd_store := s', nd_rounds := t' # ts, nd_sent := nd_sent n @ msgs\<rparr>)"
  using assms
proof (induction k arbitrary: t s n msgs)
  case 0
  then have "n\<lparr>nd_store := s', nd_rounds := t' # ts, nd_sent := nd_sent n @ msgs\<rparr> = n" by (cases n) simp
  then show ?case using 0(2) by simp
next
  case (Suc k)
  obtain t1 s1 ms1 ms2 where poll: "round_poll I b t s = Some (t1, s1, ms1)"
    and rest: "round_polls k I b t1 s1 = Some (t', s', ms2)" and msgs: "msgs = ms1 @ ms2"
    using Suc.prems(1) by (auto split: option.splits)
  let ?n = "n\<lparr>nd_store := s1, nd_rounds := t1 # ts, nd_sent := nd_sent n @ ms1\<rparr>"
  have "node_builds I built n (n\<lparr>nd_store := s1, nd_rounds := (nd_rounds n)[0 := t1], nd_sent := nd_sent n @ ms1\<rparr>)"
    by (rule node_builds.round [where ev = "Poll b"]) (use Suc.prems poll in \<open>simp_all add: event_from_def\<close>)
  then have "R ?n" using internal_steps [OF Suc.prems(2)] Suc.prems(4,5) by simp
  from Suc.IH [OF rest this] show ?case using msgs Suc.prems(5,6) by simp
qed

text \<open>From the start of the height the run loop reaches the \<open>select!\<close> of round 0, and its task can be polled.\<close>

lemma scheduled_round_0:
  assumes "R (node_start I h s mh)" and "quorum (ibft_validators I) h \<noteq> 0" and "v = view_new h 0"
    and "round_polls k I b (round_task_new (shared_run_state_new v)) s = Some (t, s', msgs)"
    and "\<And>raw. b = Inr raw \<Longrightarrow> built raw"
  shows "\<exists>n. R n \<and> nd_pc n = RunSelect 0 \<and> nd_view n = v \<and> nd_store n = s' \<and>
     nd_sent n = msgs \<and> nd_blocks n = [] \<and> nd_handler n = mh \<and> nd_rounds n = [t] \<and> nd_latest n = None \<and>
     nd_proposal_monitors n = [monitor_new FutureProposal v] \<and> nd_rcc_monitors n = [monitor_new FutureRcc v]"
proof -
  define n1 where "n1 = run_loop_top I 0 (node_start I h s mh)"
  define n2 where "n2 = start_ibft_round I n1"
  obtain d where d: "get_round_timeout (base_round_time I) 0 = Some d" by (auto simp: get_round_timeout_eq)
  have n1: "nd_pc n1 = RunSpawnRound" "nd_view n1 = v" "nd_store n1 = s" "nd_sent n1 = []" "nd_blocks n1 = []"
    "nd_handler n1 = mh" "nd_rounds n1 = []" "nd_latest n1 = None"
    "nd_proposal_monitors n1 = [monitor_new FutureProposal v]" "nd_rcc_monitors n1 = [monitor_new FutureRcc v]"
    using assms(3) d by (simp_all add: n1_def run_loop_top_def Let_def node_start_def view_new_def MAX_ROUND_def)
  have n2: "nd_pc n2 = RunSelect 0" "nd_view n2 = v" "nd_store n2 = s" "nd_sent n2 = []" "nd_blocks n2 = []"
    "nd_handler n2 = mh" "nd_rounds n2 = [round_task_new (shared_run_state_new v)]" "nd_latest n2 = None"
    "nd_proposal_monitors n2 = [monitor_new FutureProposal v]" "nd_rcc_monitors n2 = [monitor_new FutureRcc v]"
    using n1 assms(3) by (simp_all add: n2_def start_ibft_round_def Let_def view_new_def)
  have "R n1"
    by (rule scheduled_run [OF assms(1)]) (use assms(2) n1(1) in \<open>simp_all add: run_step_def node_start_def n1_def\<close>)
  moreover have "run_step I False n1 = Some n2" by (simp add: run_step_def n1(1) n2_def)
  ultimately have "R n2" by (rule scheduled_run) (simp add: n2(1))
  from scheduled_polls [OF assms(4) this n2(3,7) _ assms(5)] n2
  have "R (n2\<lparr>nd_store := s', nd_rounds := [t], nd_sent := nd_sent n2 @ msgs\<rparr>)" by simp
  then show ?thesis using n2 by (intro exI conjI) (assumption, simp_all)
qed

text \<open>A round task of round 0 that ends its round lets the run loop finish the height.\<close>

lemma scheduled_finish:
  assumes "R n3" and "nd_pc n3 = RunSelect 0" and "nd_rounds n3 = t # ts" and "rt_pc t = RoundDone seals" and "nd_blocks n3 = []"
    and "store_wf (nd_store n3)" and "proposal_at (nd_store n3) (nd_view n3) = Some p"
    and "handler_height (nd_handler n3) < view_height (nd_view n3)"
  shows "\<exists>n n'. R n \<and> run_step I False n = Some n' \<and> nd_pc n' = RunExit (Some (finalized_block_new (ps_block p) seals)) \<and>
     nd_blocks n' = [finalized_block_new (ps_block p) seals] \<and> nd_sent n' = nd_sent n3 \<and>
     handler_height (nd_handler n') = view_height (nd_view n3) \<and> nd_view n' = nd_view n3"
proof -
  let ?b = "finalized_block_new (ps_block p) seals" and ?h = "view_height (nd_view n3)"
  let ?mh = "(nd_handler n3)\<lparr>handler_height := ?h\<rparr>"
  have "R (n3\<lparr>nd_pc := RunSelect 1\<rparr>)"
    by (rule scheduled_run [OF assms(1), where ready = False]) (simp_all add: run_step_def assms(2) run_select_def)
  then have "R (n3\<lparr>nd_pc := RunFinish seals\<rparr>)"
    by (rule scheduled_run [where ready = False]) (simp_all add: run_step_def assms(3,4) run_select_def)
  moreover obtain s4 where "take_proposal_message (nd_view n3) (nd_store n3) = (Some p, s4)"
    using assms(6,7) by (metis prod.collapse take_proposal_laws(1))
  ultimately have "R (n3\<lparr>nd_store := s4, nd_pc := RunBroadcastBlock ?b\<rparr>)"
    by (elim scheduled_run [where ready = False]) (simp_all add: run_step_def handle_round_finish_def)
  then have "R (n3\<lparr>nd_store := s4, nd_blocks := [?b], nd_pc := RunReturn (Some ?b)\<rparr>)"
    by (elim scheduled_run [where ready = False]) (simp_all add: run_step_def assms(5))
  then have "R (n3\<lparr>nd_store := s4, nd_blocks := [?b], nd_handler := ?mh, nd_pc := RunPrune ?b\<rparr>)" (is "R ?n")
    by (elim scheduled_run [where ready = False]) (use assms(8) in \<open>simp_all add: run_step_def handler_update_height_def\<close>)
  then show ?thesis
    by (intro exI [of _ ?n] exI [of _ "?n\<lparr>nd_store := handler_prune ?mh s4, nd_pc := RunExit (Some ?b)\<rparr>"])
      (simp add: run_step_def)
qed

text \<open>The \<open>select!\<close> with no task done: its branches are polled up to the round changes, and the timer may fire.\<close>

lemma scheduled_passes:
  assumes "R n" and "nd_pc n = RunSelect 0"
    and "nd_rounds n = t # ts" and "\<And>seals. rt_pc t \<noteq> RoundDone seals"
    and "nd_proposal_monitors n = p # ps" and "\<And>r. mt_pc p \<noteq> MonitorDone r"
  shows "R (n\<lparr>nd_pc := RunSelect 3\<rparr>)"
    and "nd_rcc_monitors n = m # ms \<Longrightarrow> (\<And>r. mt_pc m \<noteq> MonitorDone r) \<Longrightarrow> R (n\<lparr>nd_pc := RunTimeout\<rparr>)"
proof -
  have "R (n\<lparr>nd_pc := RunSelect 1\<rparr>)"
    by (rule scheduled_run [OF assms(1), where ready = False]) (simp_all add: run_step_def run_select_def assms(2))
  then have "R (n\<lparr>nd_pc := RunSelect 2\<rparr>)"
    by (elim scheduled_run [where ready = False]) (use assms(3,4) in \<open>cases "rt_pc t"; simp add: run_step_def run_select_def\<close>, simp)
  then show 3: "R (n\<lparr>nd_pc := RunSelect 3\<rparr>)"
    by (elim scheduled_run [where ready = False]) (use assms(5,6) in \<open>cases "mt_pc p"; simp add: run_step_def run_select_def\<close>, simp)
  assume m: "nd_rcc_monitors n = m # ms" "\<And>r. mt_pc m \<noteq> MonitorDone r"
  have "R (n\<lparr>nd_pc := RunSelect 4\<rparr>)"
    by (rule scheduled_run [OF 3, where ready = False]) (use m in \<open>cases "mt_pc m"; simp add: run_step_def run_select_def\<close>, simp)
  then show "R (n\<lparr>nd_pc := RunTimeout\<rparr>)"
    by (elim scheduled_run [where ready = True]) (simp_all add: run_step_def run_select_def)
qed

text \<open>
  A timeout of a round in which the node has not got to the commit state, before any round change: the node asks for
  the next round without a certificate and goes on to it.
\<close>

lemma scheduled_timeout:
  assumes "R n" and "ibft_ok I h" and "nd_pc n = RunTimeout" and "nd_rounds n = t # ts"
    and "shared_run_state_get (rt_state t) \<in> {Some StProposal, Some StPrepare}" and "nd_latest n = None"
    and "view_height (nd_view n) = h" and "view_round (nd_view n) < MAX_ROUND" and "v = view_new h (view_round (nd_view n) + 1)"
  shows "\<exists>n' rc. R n' \<and> nd_pc n' = RunSelect 0 \<and> nd_view n' = v \<and> nd_rounds n' = round_task_new (shared_run_state_new v) # t # ts \<and>
    nd_proposal_monitors n' = monitor_new FutureProposal v # nd_proposal_monitors n \<and>
    nd_rcc_monitors n' = monitor_new FutureRcc v # nd_rcc_monitors n \<and> nd_blocks n' = nd_blocks n \<and> nd_handler n' = nd_handler n \<and>
    nd_sent n' = nd_sent n @ [RoundChange rc] \<and> rcs_view rc = v \<and> rcs_prepared rc = None \<and>
    nd_store n' = (if is_proposer (ibft_validators I) (self_of I) v then add_round_change_message rc (self_of I) (nd_store n) else nd_store n)"
proof -
  let ?r = "view_round (nd_view n) + 1"
  obtain rc where rc: "rc_into_signed (ibft_externals I) (rc_new v None) (ibft_signer I) = Some rc" "rcs_view rc = v" "rcs_prepared rc = None"
    unfolding assms(9) by (rule plain_round_change [OF assms(2,7), of None]) (use assms(8) in simp_all)
  have "handle_timeout I n = n\<lparr>nd_pc := RunBroadcastRc rc\<rparr>"
    using assms(4-7,9) rc(1) by (auto simp: handle_timeout_def Let_def broadcast_rc_def)
  then have "R (n\<lparr>nd_pc := RunBroadcastRc rc\<rparr>)"
    by (intro scheduled_run [OF assms(1)]) (simp_all add: run_step_def assms(3))
  then have "R (n\<lparr>nd_sent := nd_sent n @ [RoundChange rc], nd_latest := Some rc, nd_pc := RunStart ?r\<rparr>)" (is "R ?n1")
    by (rule scheduled_run) (simp_all add: run_step_def)
  moreover define n2 where "n2 = run_loop_top I ?r ?n1"
  moreover have le: "?r \<le> MAX_ROUND" using assms(8) inc_le by blast
  then obtain d where d: "get_round_timeout (base_round_time I) ?r = Some d" by (auto simp: get_round_timeout_eq)
  have n2: "nd_pc n2 = RunSpawnRound" "nd_view n2 = v" "nd_store n2 = nd_store n" "nd_sent n2 = nd_sent n @ [RoundChange rc]"
    "nd_blocks n2 = nd_blocks n" "nd_handler n2 = nd_handler n" "nd_rounds n2 = t # ts" "nd_latest n2 = Some rc"
    "nd_proposal_monitors n2 = monitor_new FutureProposal v # nd_proposal_monitors n" "nd_rcc_monitors n2 = monitor_new FutureRcc v # nd_rcc_monitors n"
    using assms(4,7,9) d le by (simp_all add: n2_def run_loop_top_def Let_def not_less)
  ultimately have "R n2" using scheduled_run [of ?n1 False n2] by (simp add: run_step_def)
  moreover have "run_step I False n2 = Some (start_ibft_round I n2)" by (simp add: run_step_def n2(1))
  ultimately have "R (start_ibft_round I n2)" by (rule scheduled_run) (simp add: start_ibft_round_def Let_def)
  moreover have "view_round v \<noteq> 0" using next_round(2) [OF less_imp_le [OF assms(8)]] assms(9) by (simp add: view_new_def)
  ultimately show ?thesis
    using n2 rc(2,3) by (intro exI [of _ "start_ibft_round I n2"] exI [of _ rc]) (simp add: start_ibft_round_def Let_def rc_clone_id)
qed

end

interpretation reach: scheduled I "\<lambda>_. True" "node_reachable I n0" for I n0
  by unfold_locales (blast intro: node_reachable.step node_step.internal)

lemma run_steps:
  assumes "node_reachable I n0 n" and "run_step I ready n = Some n'"
  shows "node_reachable I n0 n'"
  by (rule node_reachable.step [OF assms(1) node_step_internal(4) [OF assms(2)]])

lemma round_0_polls:
  assumes "start_ok I h s mh" and "v = view_new h 0"
    and "round_polls k I b (round_task_new (shared_run_state_new v)) s = Some (t, s', msgs)"
  shows "\<exists>n. node_reachable I (node_start I h s mh) n \<and> nd_pc n = RunSelect 0 \<and> nd_view n = v \<and> nd_store n = s' \<and>
     nd_sent n = msgs \<and> nd_blocks n = [] \<and> nd_handler n = mh \<and> nd_rounds n = [t] \<and> nd_latest n = None \<and>
     nd_proposal_monitors n = [monitor_new FutureProposal v] \<and> nd_rcc_monitors n = [monitor_new FutureRcc v]"
  by (rule reach.scheduled_round_0 [OF node_reachable.init]) (use assms in \<open>simp_all add: start_ok_def\<close>)

lemma round_0_done_finishes:
  assumes "start_ok I h s mh" and "v = view_new h 0"
    and "round_polls k I b (round_task_new (shared_run_state_new v)) s = Some (t, s', msgs)"
    and "rt_pc t = RoundDone seals" and "proposal_at s' v = Some p"
  shows "\<exists>n. node_reachable I (node_start I h s mh) n \<and>
     nd_pc n = RunExit (Some (finalized_block_new (ps_block p) seals)) \<and>
     nd_blocks n = [finalized_block_new (ps_block p) seals] \<and> nd_sent n = msgs \<and> handler_height (nd_handler n) = h \<and> nd_view n = v"
proof -
  obtain n where r: "node_reachable I (node_start I h s mh) n" and n: "nd_pc n = RunSelect 0" "nd_rounds n = [t]" "nd_blocks n = []"
    "nd_view n = v" "nd_store n = s'" "nd_sent n = msgs" "nd_handler n = mh"
    using round_0_polls [OF assms(1-3)] by blast
  have "\<not> exited (nd_pc n)" by (simp add: n(1) exited_def)
  then have "store_wf (nd_store n)" using store_invD(1) [OF live_inv(3) [OF reachable_inv [OF assms(1) r]]] by simp
  then show ?thesis
    using reach.scheduled_finish [OF r n(1,2) assms(4) n(3)] assms(1,2,5) n(4-7) run_steps by (simp add: start_ok_def view_new_def) blast
qed

text \<open>C14: A validator that is not the proposer of round 0 finishes the height: if its store holds the
  proposal, which passes verification, and together with the node's own votes a quorum less one of
  prepares and a quorum of commits for its digest, then there is a schedule on which it sends exactly one
  prepare and one commit for that digest, broadcasts and returns the proposed block with
  the seals of a quorum, and raises the height of its handler.\<close>

theorem validator_finalizes:
  assumes "start_ok I h s mh" and "v = view_new h 0" and "\<not> is_proposer (ibft_validators I) (self_of I) v"
    and "proposal_at s v = Some p" and "verification_at s v = None \<or> verification_at s v = Some (Inr ())"
    and "proposal_verify_fn I v p = Inr ()"
    and "map_of (prepares_at s v) (self_of I) = None" and "usize_pred (quorum_of I v) \<le> Suc (preps s v (ps_digest p))"
    and "map_of (commits_at s v) (self_of I) = None" and "quorum_of I v \<le> Suc (commit_votes s v (ps_digest p))"
  shows "\<exists>n m c seals. node_reachable I (node_start I h s mh) n \<and>
     nd_pc n = RunExit (Some (finalized_block_new (ps_block p) seals)) \<and>
     nd_blocks n = [finalized_block_new (ps_block p) seals] \<and> seals_valid I h (ps_digest p) seals \<and>
     nd_sent n = [Prepare m, Commit c] \<and> pr_digest m = ps_digest p \<and> cm_digest c = ps_digest p \<and>
     handler_height (nd_handler n) = h"
proof -
  have ok: "ibft_ok I h" "store_inv I s" and view: "view_height v = h" "view_round v \<le> MAX_ROUND"
    using assms(1,2) by (simp_all add: start_ok_def view_new_def MAX_ROUND_def)
  obtain t s' m c seals where
    polls: "round_polls 8 I (Inl []) (round_task_new (shared_run_state_new v)) s = Some (t, s', [Prepare m, Commit c])"
      "rt_pc t = RoundDone seals" "proposal_at s' v = Some p"
    and votes: "seals_valid I h (ps_digest p) seals" "pr_digest m = ps_digest p" "cm_digest c = ps_digest p"
    using validator_completes_round [OF ok view assms(3-10)] by blast
  show ?thesis using round_0_done_finishes [OF assms(1,2) polls] votes by blast
qed

text \<open>Two validators: the second has proposed, and its proposal and commit are in the store of the first.\<close>

definition pair_proposal :: proposal_signed where
  "pair_proposal = sample_proposal 2 (proposal_new sample_externals (view_new 1 0) [1, 2, 3] None)"

definition pair_store :: "commit_signed \<Rightarrow> consensus_messages" where
  "pair_store c = add_commit_message c (Address (replicate 24 2))
     (add_proposal_message pair_proposal (Address (replicate 24 2)) (messages_new (Address (replicate 24 1))))"

lemma pair_proposal_simps [simp]:
  "proposal_message pair_proposal = proposal_new sample_externals (view_new 1 0) [1, 2, 3] None"
  "proposal_recover_signer sample_externals pair_proposal = Inr (Address (replicate 24 2))"
  by (simp_all add: pair_proposal_def)

lemma pair_verified: "proposal_verify_fn (sample_ibft [1, 2] n) (view_new 1 0) pair_proposal = Inr ()"
  by (simp add: proposal_verify_fn_def proposal_0_accepts_iff proposal_new_digest view_new_def mock_block_service_def
      mock_verify_block_def)

lemma pair_commit:
  obtains c where "own_commit (sample_ibft [1, 2] 2) (view_new 1 0) c" "cm_digest c = ps_digest pair_proposal"
proof -
  have "length (ps_digest pair_proposal) = 32"
    using digest_length_32 [OF sample_externals_ok] proposal_verify_fn_digest [OF pair_verified, unfolded sample_ibft_simps]
    by blast
  moreover have "ibft_ok (sample_ibft [1, 2] 2) 1" by (simp add: sample_ibft_ok)
  ultimately show thesis using vote_commit_pc that by metis
qed

lemma pair_store_at:
  assumes "own_commit (sample_ibft [1, 2] 2) (view_new 1 0) c"
  shows "proposal_at (pair_store c) w = (if w = view_new 1 0 then Some pair_proposal else None)"
    and "verification_at (pair_store c) (view_new 1 0) = None" and "prepares_at (pair_store c) (view_new 1 0) = []"
    and "commits_at (pair_store c) (view_new 1 0) = [(Address (replicate 24 2), c)]"
proof -
  have wf: "store_wf (messages_new a)" for a by (rule messages_new_wf)
  show "proposal_at (pair_store c) w = (if w = view_new 1 0 then Some pair_proposal else None)"
    and "verification_at (pair_store c) (view_new 1 0) = None" and "prepares_at (pair_store c) (view_new 1 0) = []"
    and "commits_at (pair_store c) (view_new 1 0) = [(Address (replicate 24 2), c)]"
    using assms by (simp_all add: pair_store_def store_laws new_laws wf store_wf_adds own_commit_def)
qed

lemma pair_start:
  assumes "own_commit (sample_ibft [1, 2] 2) (view_new 1 0) c" and "cm_digest c = ps_digest pair_proposal"
  shows "start_ok (sample_ibft [1, 2] 1) 1 (pair_store c) (handler_new 0 (Address (replicate 24 1)))"
proof -
  let ?I = "sample_ibft [1, 2] 1" and ?a = "Address (replicate 24 2)"
  have new: "store_inv ?I (messages_new (Address (replicate 24 1)))"
    using store_inv_new [of ?I] by (simp add: sample_address)
  have "store_inv ?I (add_proposal_message pair_proposal ?a (messages_new (Address (replicate 24 1))))"
    by (intro store_effect_inv [OF add_proposal_effect [OF new, where W = "{view_new 1 0}"]])
      (simp_all add: proposal_auth_def view_new_def MAX_ROUND_def sample_address)
  then have "store_inv ?I (pair_store c)"
    unfolding pair_store_def
    using assms by (intro store_effect_inv [OF add_commit_effect [where W = "{}"]])
      (auto simp: own_commit_def commit_auth_def view_new_def MAX_ROUND_def sample_address)
  moreover have "set (proposal_tx (pair_store c)) \<subseteq> {view_new 1 0}"
    by (auto simp: pair_store_def add_commit_message_def add_proposal_message_def messages_new_def Let_def
        split: prod.splits option.splits if_splits)
  ultimately show ?thesis
    using sample_ibft_ok [of 1 "[1, 2]" 1] pair_store_at(1) [OF assms(1)]
    by (auto simp: start_ok_def handler_new_def sample_address view_new_def)
qed

theorem validator_finalizes_witness:
  "\<exists>s mh n b. node_reachable (sample_ibft [1, 2] 1) (node_start (sample_ibft [1, 2] 1) 1 s mh) n \<and>
     nd_pc n = RunExit (Some b) \<and> final_raw_block b = [1, 2, 3] \<and> length (nd_sent n) = 2"
proof -
  let ?I = "sample_ibft [1, 2] 1" and ?p = pair_proposal
  obtain c where c: "own_commit (sample_ibft [1, 2] 2) (view_new 1 0) c" "cm_digest c = ps_digest ?p" by (rule pair_commit)
  note start = pair_start [OF c]
  have "\<exists>n m c' seals. node_reachable ?I (node_start ?I 1 (pair_store c) (handler_new 0 (Address (replicate 24 1)))) n \<and>
     nd_pc n = RunExit (Some (finalized_block_new (ps_block ?p) seals)) \<and>
     nd_blocks n = [finalized_block_new (ps_block ?p) seals] \<and> seals_valid ?I 1 (ps_digest ?p) seals \<and>
     nd_sent n = [Prepare m, Commit c'] \<and> pr_digest m = ps_digest ?p \<and> cm_digest c' = ps_digest ?p \<and>
     handler_height (nd_handler n) = 1"
    using c pair_store_at [OF c(1)] pair_verified
    by (intro validator_finalizes [OF start refl]) (simp_all add: sample_address commit_votes_def preps_def usize_pred_def view_new_def)
  then obtain n seals where n: "node_reachable ?I (node_start ?I 1 (pair_store c) (handler_new 0 (Address (replicate 24 1)))) n"
    "nd_pc n = RunExit (Some (finalized_block_new (ps_block ?p) seals))" "length (nd_sent n) = 2" by force
  moreover have "final_raw_block (finalized_block_new (ps_block ?p) seals) = [1, 2, 3]"
    by (simp add: finalized_block_new_def)
  ultimately show ?thesis by blast
qed

text \<open>C15: The proposer of round 0 finishes the height: if \<open>build_block\<close> gives the block \<open>raw\<close> and the
  store holds a quorum less one of prepares and, with the node's own commit, a quorum of commits for its
  digest, then there is a schedule on which it sends one proposal of that block and one commit,
  and broadcasts and returns that block with the seals of a quorum.\<close>

theorem proposer_finalizes:
  assumes "start_ok I h s mh" and "v = view_new h 0" and "is_proposer (ibft_validators I) (self_of I) v"
    and "d = digest_block (ibft_externals I) raw 0" and "usize_pred (quorum_of I v) \<le> preps s v d"
    and "map_of (commits_at s v) (self_of I) = None" and "quorum_of I v \<le> Suc (commit_votes s v d)"
  shows "\<exists>n p c b. node_reachable I (node_start I h s mh) n \<and> nd_pc n = RunExit (Some b) \<and> nd_blocks n = [b] \<and>
     final_raw_block b = raw \<and> seals_valid I h d (proof_seals (final_proof b)) \<and>
     nd_sent n = [Proposal p, Commit c] \<and> ps_digest p = d \<and> cm_digest c = d \<and> handler_height (nd_handler n) = h"
proof -
  have ok: "ibft_ok I h" "store_inv I s" and view: "view_height v = h" "view_round v = 0" "proposal_at s v = None"
    using assms(1-3) by (auto simp: start_ok_def view_new_def)
  obtain t s' p c seals where
    polls: "round_polls 7 I (Inr raw) (round_task_new (shared_run_state_new v)) s = Some (t, s', [Proposal p, Commit c])"
      "rt_pc t = RoundDone seals" "proposal_at s' v = Some p"
    and votes: "seals_valid I h d seals" "raw_block (ps_block p) = raw" "ps_digest p = d" "cm_digest c = d"
    using proposer_completes_round [OF ok view(1,2) assms(3,4) view(3) assms(5-7)] by blast
  show ?thesis
    using round_0_done_finishes [OF assms(1,2) polls] votes
    by (fastforce simp: finalized_block_new_def finalization_proof_new_def)
qed

theorem proposer_finalizes_witness:
  "\<exists>n b. node_reachable (sample_ibft [1] 1) (node_start (sample_ibft [1] 1) 1 (messages_new (Address (replicate 24 1)))
       (handler_new 0 (Address (replicate 24 1)))) n \<and> nd_pc n = RunExit (Some b) \<and> final_raw_block b = [1, 2, 3]"
proof -
  have "start_ok (sample_ibft [1] 1) 1 (messages_new (Address (replicate 24 1))) (handler_new 0 (Address (replicate 24 1)))"
    using sample_start_ok [of 1 "[1]" 1] by (simp add: sample_address)
  from proposer_finalizes [OF this refl, of "digest_block sample_externals [1, 2, 3] 0" "[1, 2, 3]"]
  show ?thesis by (force simp: sample_address usize_pred_def new_laws)
qed

subsection \<open>Timeouts\<close>

lemma not_panicked:
  assumes "node_inv I h n" and "\<And>rc. nd_latest n = Some rc \<Longrightarrow> view_round (rcs_view rc) \<le> MAX_ROUND"
  shows "nd_pc n \<noteq> RunPanicked"
proof
  assume "nd_pc n = RunPanicked"
  then obtain rc where "nd_latest n = Some rc" "view_round (rcs_view rc) = MAX_ROUND + 1"
    using assms(1) by (auto simp: node_inv_def tasks_inv_def exited_def latest_inv_def)
  then show False using assms(2) by (fastforce simp: MAX_ROUND_def)
qed

text \<open>A timeout ends with the broadcast of a round change for the next round, in every run state.\<close>

lemma timeout_chain:
  assumes "ibft_ok I h" and "node_inv I h n" and "nd_pc n = RunTimeout"
  shows "\<exists>n' rc. node_reachable I n n' \<and> nd_pc n' = RunStart (view_round (nd_view n) + 1) \<and> nd_view n' = nd_view n \<and>
     nd_latest n' = Some rc \<and> nd_sent n' = nd_sent n @ [RoundChange rc] \<and>
     rcs_view rc = view_new h (view_round (nd_view n) + 1)"
proof -
  have live: "\<not> exited (nd_pc n)" by (simp add: assms(3) exited_def)
  note inv = live_inv [OF assms(2) live]
  have latest: "view_round (rcs_view rc) \<le> MAX_ROUND" if "nd_latest n = Some rc" for rc
    using inv(2,8) assms(3) that by (auto simp: latest_inv_def)
  have send: ?thesis
    if "node_reachable I n m" and "node_inv I h m" and "nd_pc m = RunBroadcastRc rc" and "nd_view m = nd_view n"
      and "nd_sent m = nd_sent n" for m rc
  proof -
    have "\<not> exited (nd_pc m)" using that(3) by (simp add: exited_def)
    then have "rcs_view rc = view_new h (view_round (nd_view n) + 1)"
      using live_inv(1,7) [OF that(2)] that(3,4) by (auto simp: pc_inv_def)
    moreover have "node_reachable I n (m\<lparr>nd_sent := nd_sent m @ [RoundChange rc], nd_latest := Some rc,
        nd_pc := RunStart (view_round (nd_view m) + 1)\<rparr>)"
      by (rule run_steps [OF that(1)]) (simp add: run_step_def that(3))
    ultimately show ?thesis
      using that(4,5) by (intro exI conjI) (assumption, simp_all)
  qed
  define n1 where "n1 = handle_timeout I n"
  have n1: "nd_view n1 = nd_view n" "nd_sent n1 = nd_sent n" "nd_latest n1 = nd_latest n"
    by (simp_all add: n1_def handle_timeout_def Let_def)
  have r1: "node_reachable I n n1"
    by (rule run_steps [OF node_reachable.init]) (simp add: run_step_def assms(3) n1_def)
  have i1: "node_inv I h n1" unfolding n1_def by (rule timeout_inv [OF assms])
  have "nd_pc n1 \<noteq> RunPanicked" by (rule not_panicked [OF i1]) (simp add: n1(3) latest)
  then have "nd_pc n1 = RunTakeProposal \<or> (\<exists>rc. nd_pc n1 = RunBroadcastRc rc)"
    by (auto simp: n1_def handle_timeout_def broadcast_rc_def Let_def split: list.splits option.splits run_state.splits)
  then show ?thesis
  proof
    assume pc1: "nd_pc n1 = RunTakeProposal"
    define n2 where "n2 = timeout_take_proposal n1"
    have n2: "nd_view n2 = nd_view n" "nd_sent n2 = nd_sent n" "nd_latest n2 = nd_latest n"
      by (simp_all add: n2_def timeout_take_proposal_def case_prod_unfold n1 split: option.split)
    have r2: "node_reachable I n n2" by (rule run_steps [OF r1]) (simp add: run_step_def pc1 n2_def)
    have i2: "node_inv I h n2" unfolding n2_def by (rule take_proposal_step_inv [OF i1 pc1])
    have "nd_pc n2 \<noteq> RunPanicked" by (rule not_panicked [OF i2]) (simp add: n2(3) latest)
    then obtain p where pc2: "nd_pc n2 = RunTakePrepares p"
      by (auto simp: n2_def timeout_take_proposal_def case_prod_unfold split: option.splits)
    define n3 where "n3 = timeout_take_prepares I p n2"
    have n3: "nd_view n3 = nd_view n" "nd_sent n3 = nd_sent n" "nd_latest n3 = nd_latest n"
      by (simp_all add: n3_def timeout_take_prepares_def case_prod_unfold n2 Let_def)
    have r3: "node_reachable I n n3" by (rule run_steps [OF r2]) (simp add: run_step_def pc2 n3_def)
    have i3: "node_inv I h n3" unfolding n3_def by (rule take_prepares_step_inv [OF assms(1) i2 pc2])
    have "nd_pc n3 \<noteq> RunPanicked" by (rule not_panicked [OF i3]) (simp add: n3(3) latest)
    then obtain rc where "nd_pc n3 = RunBroadcastRc rc"
      by (auto simp: n3_def timeout_take_prepares_def broadcast_rc_def case_prod_unfold Let_def split: option.splits if_splits)
    then show ?thesis by (rule send [OF r3 i3 _ n3(1,2)])
  qed (use send [OF r1 i1 _ n1(1,2)] in blast)
qed

text \<open>C16: A node whose round has timed out moves on: from every reachable state in which the timeout
  branch was taken, the run loop broadcasts one round change of the height for the next round, which becomes
  its latest one, and goes on to that round. No step of it fails, in whatever state the
  round was.\<close>

theorem timeout_moves_on:
  assumes "start_ok I h s mh" and "node_reachable I (node_start I h s mh) n" and "nd_pc n = RunTimeout"
  shows "\<exists>n' rc. node_reachable I n n' \<and> nd_pc n' = RunStart (view_round (nd_view n) + 1) \<and>
     nd_latest n' = Some rc \<and> nd_sent n' = nd_sent n @ [RoundChange rc] \<and>
     rcs_view rc = view_new h (view_round (nd_view n) + 1)"
proof -
  have "ibft_ok I h" using assms(1) by (simp add: start_ok_def)
  from timeout_chain [OF this reachable_inv [OF assms(1,2)] assms(3)] show ?thesis by blast
qed

subsection \<open>Witnesses: a height with one validator\<close>

definition sample_start :: node where
  "sample_start = node_start (sample_ibft [1] 1) 1 (messages_new (Address (replicate 24 1)))
     (handler_new 0 (Address (replicate 24 1)))"

lemma sample_started:
  "start_ok (sample_ibft [1] 1) 1 (messages_new (Address (replicate 24 1))) (handler_new 0 (Address (replicate 24 1)))"
  using sample_start_ok [of 1 "[1]" 1] by (simp add: sample_address)

lemma sample_polls:
  obtains t s' p c seals where
    "round_polls 7 (sample_ibft [1] 1) (Inr [1, 2, 3]) (round_task_new (shared_run_state_new (view_new 1 0)))
       (messages_new (Address (replicate 24 1))) = Some (t, s', [Proposal p, Commit c])"
    "rt_pc t = RoundDone seals" "proposal_at s' (view_new 1 0) = Some p" "cm_view c = view_new 1 0"
proof -
  have "store_inv (sample_ibft [1] 1) (messages_new (Address (replicate 24 1)))"
    using store_inv_new [of "sample_ibft [1] 1"] by (simp add: sample_address)
  from proposer_completes_round [OF sample_ibft_ok [of 1 "[1]" 1] this, of "view_new 1 0" _ "[1, 2, 3]"]
  show thesis using that by (force simp: view_new_def sample_address new_laws usize_pred_def)
qed

text \<open>The node that has finished the height, and the one whose task has ended its round.\<close>

lemma sample_finished:
  obtains n b p c where "node_reachable (sample_ibft [1] 1) sample_start n" "nd_pc n = RunExit (Some b)" "nd_blocks n = [b]"
    "nd_sent n = [Proposal p, Commit c]" "cm_view c = view_new 1 0" "nd_view n = view_new 1 0"
proof -
  obtain t s' p c seals where
    polls: "round_polls 7 (sample_ibft [1] 1) (Inr [1, 2, 3]) (round_task_new (shared_run_state_new (view_new 1 0)))
       (messages_new (Address (replicate 24 1))) = Some (t, s', [Proposal p, Commit c])"
    "rt_pc t = RoundDone seals" "proposal_at s' (view_new 1 0) = Some p" and c: "cm_view c = view_new 1 0"
    by (rule sample_polls)
  show thesis using round_0_done_finishes [OF sample_started refl polls] that c unfolding sample_start_def by blast
qed

lemma sample_committed:
  obtains n t where "node_reachable (sample_ibft [1] 1) sample_start n" "nd_pc n = RunSelect 0" "nd_rounds n = [t]"
    "shared_run_state_get (rt_state t) = Some StCommit"
proof -
  obtain t s' p c seals where
    polls: "round_polls 7 (sample_ibft [1] 1) (Inr [1, 2, 3]) (round_task_new (shared_run_state_new (view_new 1 0)))
       (messages_new (Address (replicate 24 1))) = Some (t, s', [Proposal p, Commit c])"
    "rt_pc t = RoundDone seals"
    by (rule sample_polls)
  obtain n where n: "node_reachable (sample_ibft [1] 1) sample_start n" "nd_pc n = RunSelect 0" "nd_rounds n = [t]"
    using round_0_polls [OF sample_started refl polls(1)] unfolding sample_start_def by blast
  have "node_inv (sample_ibft [1] 1) 1 n"
    by (rule reachable_inv [OF sample_started n(1) [unfolded sample_start_def]])
  then have "round_auth (sample_ibft [1] 1) 1 t"
    using n(2,3) by (simp add: node_inv_def tasks_inv_def exited_def rounds_inv_def)
  then have "srs_run_state (rt_state t) = 2" using polls(2) by (simp add: round_auth_def pc_auth_def)
  then show thesis using that n by (simp add: shared_run_state_get_def run_state_from_u8_def)
qed

lemmas select_passes = reach.scheduled_passes

text \<open>Rounds that time out one after the other.\<close>

lemma round_times_out:
  assumes "node_reachable I n0 n" and "nd_pc n = RunStart r" and "r \<le> MAX_ROUND"
  shows "\<exists>n'. node_reachable I n0 n' \<and> nd_pc n' = RunTimeout \<and> view_round (nd_view n') = r \<and>
     nd_sent n' = nd_sent n \<and> nd_latest n' = nd_latest n \<and> (\<exists>t ts. nd_rounds n' = t # ts \<and> rt_pc t = Start)"
proof -
  let ?r = "node_reachable I n0"
  define n2 where "n2 = start_ibft_round I (run_loop_top I r n)"
  obtain d where d: "get_round_timeout (base_round_time I) r = Some d"
    using assms(3) by (auto simp: get_round_timeout_eq)
  have "?r (run_loop_top I r n)" by (rule run_steps [OF assms(1)]) (simp add: run_step_def assms(2))
  then have r2: "?r n2"
    by (rule run_steps) (use assms(3) d in \<open>simp add: run_step_def n2_def run_loop_top_def Let_def\<close>)
  have n2: "nd_pc n2 = RunSelect 0" "view_round (nd_view n2) = r" "nd_sent n2 = nd_sent n" "nd_latest n2 = nd_latest n" "\<exists>t ts. nd_rounds n2 = t # ts \<and> rt_pc t = Start"
    "\<exists>m ms. nd_proposal_monitors n2 = m # ms \<and> mt_pc m = MonitorStart"
    "\<exists>m ms. nd_rcc_monitors n2 = m # ms \<and> mt_pc m = MonitorStart"
    using assms(3) d by (auto simp: n2_def start_ibft_round_def run_loop_top_def Let_def monitor_new_def round_task_new_def view_new_def)
  obtain t ts p ps m ms where "nd_rounds n2 = t # ts" "rt_pc t = Start" "nd_proposal_monitors n2 = p # ps" "mt_pc p = MonitorStart"
    "nd_rcc_monitors n2 = m # ms" "mt_pc m = MonitorStart" using n2(5-7) by blast
  then have "?r (n2\<lparr>nd_pc := RunTimeout\<rparr>)" using select_passes(2) [OF r2 n2(1)] by simp
  then show ?thesis using n2(2-5) by (intro exI [of _ "n2\<lparr>nd_pc := RunTimeout\<rparr>"]) auto
qed

lemma reachable_trans:
  assumes "node_reachable I n n'" and "node_reachable I n0 n"
  shows "node_reachable I n0 n'"
  using assms by (induction) (auto intro: node_reachable.step)

lemma rounds_time_out:
  assumes "start_ok I h s mh" and "k \<le> 21"
  shows "\<exists>n. node_reachable I (node_start I h s mh) n \<and> nd_pc n = RunTimeout \<and> view_round (nd_view n) = of_nat k"
  using assms(2)
proof (induction k)
  case 0
  have "nd_pc (node_start I h s mh) = RunStart 0" using assms(1) by (simp add: node_start_def start_ok_def)
  from round_times_out [OF node_reachable.init this] show ?case by (auto simp: MAX_ROUND_def)
next
  case (Suc k)
  then obtain n where n: "node_reachable I (node_start I h s mh) n" "nd_pc n = RunTimeout" "view_round (nd_view n) = of_nat k"
    by auto
  have "ibft_ok I h" using assms(1) by (simp add: start_ok_def)
  from timeout_chain [OF this reachable_inv [OF assms(1) n(1)] n(2)]
  obtain n' where n': "node_reachable I (node_start I h s mh) n'" "nd_pc n' = RunStart (of_nat (Suc k))"
    using n reachable_trans by (fastforce simp: add.commute)
  have "(of_nat (Suc k) :: u8) \<le> MAX_ROUND"
    using Suc.prems by (simp add: MAX_ROUND_def word_le_nat_alt unat_of_nat del: of_nat_Suc)
  from round_times_out [OF n' this] show ?case by auto
qed

lemma sample_timed_out:
  obtains n where "node_reachable (sample_ibft [1] 1) sample_start n" "nd_pc n = RunTimeout" "view_round (nd_view n) = 21"
  using rounds_time_out [OF sample_started, of 21] unfolding sample_start_def by auto

lemma sample_round_change:
  obtains n rc where "node_reachable (sample_ibft [1] 1) sample_start n" "nd_pc n = RunStart 22" "RoundChange rc \<in> set (nd_sent n)"
proof -
  obtain n where n: "node_reachable (sample_ibft [1] 1) sample_start n" "nd_pc n = RunTimeout" "view_round (nd_view n) = 21"
    by (rule sample_timed_out)
  have "node_inv (sample_ibft [1] 1) 1 n"
    by (rule reachable_inv [OF sample_started n(1) [unfolded sample_start_def]])
  from timeout_chain [OF sample_ibft_ok [of 1 "[1]" 1] this n(2)] show thesis
    using that n reachable_trans [OF _ n(1)] by fastforce
qed

theorem finalized_blocks_certified_witness:
  "\<exists>n b as. node_reachable (sample_ibft [1] 1) sample_start n \<and> nd_blocks n = [b] \<and> distinct as \<and> 1 \<le> length as \<and>
     signed_by (\<lambda>seal. signature_recover_from_prehash sample_externals seal
        (digest_block sample_externals (final_raw_block b) (proof_round (final_proof b)))) (proof_seals (final_proof b)) as"
proof -
  obtain n b where n: "node_reachable (sample_ibft [1] 1) sample_start n" "nd_blocks n = [b]" using sample_finished by blast
  from finalized_blocks_certified [OF sample_started n(1) [unfolded sample_start_def]] n show ?thesis by fastforce
qed

theorem run_panics_only_after_last_round_witness:
  "\<exists>n. node_reachable (sample_ibft [1] 1) sample_start n \<and> nd_pc n = RunPanicked \<and> view_round (nd_view n) = MAX_ROUND"
proof -
  obtain n where n: "node_reachable (sample_ibft [1] 1) sample_start n" "nd_pc n = RunStart 22" by (rule sample_round_change)
  have r: "node_reachable (sample_ibft [1] 1) sample_start (n\<lparr>nd_pc := RunPanicked\<rparr>)"
    by (rule run_steps [OF n(1)]) (simp add: run_step_def n(2) run_loop_top_def MAX_ROUND_def)
  from run_panics_only_after_last_round [OF sample_started r [unfolded sample_start_def]]
  have "view_round (nd_view (n\<lparr>nd_pc := RunPanicked\<rparr>)) = MAX_ROUND" by simp
  then show ?thesis using r by (intro exI conjI) (assumption, simp_all)
qed

theorem tasks_do_not_panic_witness:
  "\<exists>n t s' msgs. node_reachable (sample_ibft [1] 1) sample_start n \<and> length (nd_rounds n) = 1 \<and>
     round_step (sample_ibft [1] 1) (Poll (Inr [1, 2, 3])) (nd_rounds n ! 0) (nd_store n) = Some (t, s', msgs) \<and>
     rt_pc t \<noteq> RoundPanicked"
proof -
  let ?I = "sample_ibft [1] 1" and ?t = "round_task_new (shared_run_state_new (view_new 1 0))" and ?ev = "Poll (Inr [1, 2, 3])"
  obtain n where n: "node_reachable ?I sample_start n" "nd_pc n = RunSelect 0" "nd_rounds n = [?t]"
    using round_0_polls [OF sample_started refl round_polls.simps(1)] unfolding sample_start_def by blast
  obtain t s' msgs where step: "round_step ?I ?ev (nd_rounds n ! 0) (nd_store n) = Some (t, s', msgs)"
    by (simp add: n(3) round_poll_def Let_def round_task_new_def)
  have "\<not> exited (nd_pc n)" by (simp add: n(2) exited_def)
  then have "rt_pc t \<noteq> RoundPanicked"
    using tasks_do_not_panic [OF sample_started n(1) [unfolded sample_start_def], of ?ev] step n(3)
    by (auto simp: event_from_def)
  then show ?thesis using n step by auto
qed

theorem rounds_increase_witness:
  "\<exists>n. node_reachable (sample_ibft [1] 1) sample_start n \<and> length (nd_rounds n) = 1 \<and>
     (\<forall>t \<in> set (nd_rounds n). view_round (rt_view t) \<le> MAX_ROUND)"
proof -
  obtain n t where n: "node_reachable (sample_ibft [1] 1) sample_start n" "nd_rounds n = [t]" by (rule sample_committed)
  from rounds_increase [OF sample_started n(1) [unfolded sample_start_def]] n show ?thesis by auto
qed

theorem no_equivocation_witness:
  "\<exists>n. node_reachable (sample_ibft [1] 1) sample_start n \<and> precommits (view_new 1 0) (nd_sent n) \<noteq> [] \<and>
     precommits (view_new 1 0) (nd_sent n) = prevotes (view_new 1 0) (nd_sent n)"
proof -
  obtain n p c where n: "node_reachable (sample_ibft [1] 1) sample_start n" "nd_sent n = [Proposal p, Commit c]"
    "cm_view c = view_new 1 0" using sample_finished by blast
  then have "precommits (view_new 1 0) (nd_sent n) \<noteq> []" by simp
  with no_equivocation [OF sample_started n(1) [unfolded sample_start_def], of "view_new 1 0"] n(1) show ?thesis by blast
qed

theorem commit_state_is_prepared_witness:
  "\<exists>n p. node_reachable (sample_ibft [1] 1) sample_start n \<and> nd_pc n = RunSelect 0 \<and>
     proposal_at (nd_store n) (nd_view n) = Some p \<and> proposal_verify_block_digest sample_externals p"
proof -
  obtain n t where n: "node_reachable (sample_ibft [1] 1) sample_start n" "nd_pc n = RunSelect 0" "nd_rounds n = [t]"
    "shared_run_state_get (rt_state t) = Some StCommit" by (rule sample_committed)
  from commit_state_is_prepared [OF sample_started n(1) [unfolded sample_start_def] n(2-4)] n(1,2) show ?thesis by auto
qed

theorem round_changes_sent_are_valid_witness:
  "\<exists>n rc. node_reachable (sample_ibft [1] 1) sample_start n \<and> RoundChange rc \<in> set (nd_sent n) \<and>
     round_change_verify_fn sample_externals (ibft_validators (sample_ibft [1] 1)) 1 rc"
proof -
  obtain n rc where n: "node_reachable (sample_ibft [1] 1) sample_start n" "RoundChange rc \<in> set (nd_sent n)"
    by (rule sample_round_change)
  from round_changes_sent_are_valid [OF sample_started n(1) [unfolded sample_start_def] n(2)] n show ?thesis by auto
qed

theorem timeout_moves_on_witness:
  "\<exists>n n' rc. node_reachable (sample_ibft [1] 1) sample_start n \<and> node_reachable (sample_ibft [1] 1) n n' \<and>
     nd_pc n' = RunStart 22 \<and> nd_latest n' = Some rc \<and> rcs_view rc = view_new 1 22"
proof -
  obtain n where n: "node_reachable (sample_ibft [1] 1) sample_start n" "nd_pc n = RunTimeout" "view_round (nd_view n) = 21"
    by (rule sample_timed_out)
  from timeout_moves_on [OF sample_started n(1) [unfolded sample_start_def] n(2)] n show ?thesis by fastforce
qed

end
