(* ===== verification/Engine.thy ===== *)
theory Engine
  imports Node_Properties
begin

text \<open>
  \<open>ConsensusEngine\<close> (\<open>engine.rs\<close>): one message store shared by the handler and the consensus, and
  heights run one after the other. The handler of the background task delivers messages during a
  height and between heights.
\<close>

subsection \<open>The engine\<close>

record consensus_engine =
  engine_messages :: consensus_messages
  engine_handler :: message_handler
  engine_ibft :: ibft

definition ibft_new ::
    "externals \<Rightarrow> validator_manager \<Rightarrow> block_service \<Rightarrow> signer \<Rightarrow> nat \<Rightarrow> ibft" where
  "ibft_new E V B sg time =
     \<lparr>ibft_externals = E, ibft_validators = V, ibft_blocks = B, ibft_signer = sg, base_round_time = time\<rparr>"

definition engine_new ::
    "externals \<Rightarrow> validator_manager \<Rightarrow> block_service \<Rightarrow> u64 \<Rightarrow> signer \<Rightarrow> nat \<Rightarrow> consensus_engine" where
  "engine_new E V B h sg time =
     \<lparr>engine_messages = messages_new (signer_address sg), engine_handler = handler_new h (signer_address sg),
      engine_ibft = ibft_new E V B sg time\<rparr>"

text \<open>\<open>run_height\<close> starts the node of the height on the engine's store and handler.\<close>

definition run_height_start :: "u64 \<Rightarrow> consensus_engine \<Rightarrow> node" where
  "run_height_start h e = node_start (engine_ibft e) h (engine_messages e) (engine_handler e)"

text \<open>What the engine is left with when \<open>run_height\<close> has returned.\<close>

definition run_height_end :: "node \<Rightarrow> consensus_engine \<Rightarrow> consensus_engine" where
  "run_height_end n e = e\<lparr>engine_messages := nd_store n, engine_handler := nd_handler n\<rparr>"

definition engine_deliver :: "ibft_message \<Rightarrow> consensus_engine \<Rightarrow> consensus_engine" where
  "engine_deliver m e = e\<lparr>engine_messages :=
     snd (handle_consensus_message (ibft_externals (engine_ibft e)) (ibft_validators (engine_ibft e))
            (engine_handler e) m (engine_messages e))\<rparr>"

text \<open>
  A run of the engine: consecutive heights, each until \<open>run_height\<close> returns a block, with the
  handler delivering messages in between. The state is the next height, the engine and the
  blocks so far.
\<close>

inductive engine_run :: "consensus_engine \<Rightarrow> u64 \<Rightarrow> u64 \<Rightarrow> consensus_engine \<Rightarrow> finalized_block list \<Rightarrow> bool" for e0 h0 where
  start: "engine_run e0 h0 h0 e0 []"
| deliver: "engine_run e0 h0 h e bs \<Longrightarrow> engine_run e0 h0 h (engine_deliver m e) bs"
| height: "engine_run e0 h0 h e bs \<Longrightarrow> node_reachable (engine_ibft e) (run_height_start h e) n \<Longrightarrow>
    run_step (engine_ibft e) ready n = Some n' \<Longrightarrow> nd_pc n' = RunExit (Some b) \<Longrightarrow> h < h + 1 \<Longrightarrow>
    engine_run e0 h0 (h + 1) (run_height_end n' e) (bs @ [b])"

subsection \<open>Heights compose\<close>

definition engine_ok :: "u64 \<Rightarrow> consensus_engine \<Rightarrow> bool" where
  "engine_ok h e \<longleftrightarrow> start_ok (engine_ibft e) h (engine_messages e) (engine_handler e)"

lemma new_engine_ok:
  assumes "ibft_ok (ibft_new E V B sg time) h" and "quorum V h \<noteq> 0" and "h0 < h"
  shows "engine_ok h (engine_new E V B h0 sg time)"
  using assms store_inv_new [of "ibft_new E V B sg time"]
  by (simp add: engine_ok_def engine_new_def start_ok_def ibft_new_def handler_new_def new_laws)
    (simp add: messages_new_def)

lemma engine_ibft_deliver [simp]: "engine_ibft (engine_deliver m e) = engine_ibft e"
  by (simp add: engine_deliver_def)

lemma engine_deliver_ok:
  assumes "engine_ok h e"
  shows "engine_ok h (engine_deliver m e)"
proof -
  let ?I = "engine_ibft e" and ?s = "engine_messages (engine_deliver m e)"
  have ok: "ibft_ok ?I h" "store_inv ?I (engine_messages e)" "handler_address (engine_handler e) = self_of ?I"
    using assms by (simp_all add: engine_ok_def start_ok_def)
  have eff: "store_effect ?I {} (engine_messages e) ?s"
    unfolding engine_deliver_def by (simp add: deliver_effect [OF ok])
  show ?thesis
    unfolding engine_ok_def start_ok_def
    using assms store_effect_inv [OF eff] store_effectD(1,2,4) [OF eff]
    by (simp add: engine_ok_def start_ok_def engine_deliver_def) blast
qed

lemma prune_store_inv:
  assumes "store_inv I s"
  shows "store_inv I (messages_prune h s)"
proof -
  note inv = store_invD [OF assms] and tx = txs_eq_D [OF txs_queries(10) [of h s]]
  have "rc_views (messages_prune h s) \<subseteq> rc_views s"
    by (auto simp: rc_views_def messages_prune_def view_get_prune split: if_splits)
  then show ?thesis
    using inv unfolding store_inv_def tx
    by (auto simp: prune_laws store_wf_prune store_auth_queries split: if_splits)
qed

text \<open>Only \<open>RunReturn\<close> leads to the pruning, and only the pruning to the exit with a block.\<close>

lemma run_select_pc: "nd_pc (run_select k ready n) \<noteq> RunExit (Some b) \<and> nd_pc (run_select k ready n) \<noteq> RunPrune b"
  by (rule run_select_rule) simp_all

lemma handle_timeout_pc: "nd_pc (handle_timeout I n) \<noteq> RunExit (Some b) \<and> nd_pc (handle_timeout I n) \<noteq> RunPrune b"
  by (simp add: handle_timeout_def broadcast_rc_def Let_def split: list.split option.split run_state.split)

lemma run_step_exit:
  assumes "run_step I ready n = Some n'"
  shows "nd_pc n' = RunExit (Some b) \<Longrightarrow> nd_pc n = RunPrune b"
    and "nd_pc n' = RunPrune b \<Longrightarrow> handler_height (nd_handler n') = view_height (nd_view n')"
proof -
  have "(nd_pc n' = RunExit (Some b) \<longrightarrow> nd_pc n = RunPrune b) \<and>
    (nd_pc n' = RunPrune b \<longrightarrow> handler_height (nd_handler n') = view_height (nd_view n'))"
  proof (cases "nd_pc n")
    case (RunSelect k)
    then show ?thesis using assms run_select_pc [of k ready n b] by (auto simp: run_step_def)
  next
    case RunTimeout
    then show ?thesis using assms handle_timeout_pc [of I n b] by (auto simp: run_step_def)
  next
    case (RunReturn r)
    then show ?thesis using assms by (auto simp: run_step_def handler_update_height_def split: option.splits if_splits)
  qed (use assms in \<open>auto simp: run_step_def run_loop_top_def start_ibft_round_def handle_round_finish_def
      timeout_take_proposal_def timeout_take_prepares_def broadcast_rc_def Let_def case_prod_unfold
      split: option.splits if_splits\<close>)
  then show "nd_pc n' = RunExit (Some b) \<Longrightarrow> nd_pc n = RunPrune b"
    and "nd_pc n' = RunPrune b \<Longrightarrow> handler_height (nd_handler n') = view_height (nd_view n')" by blast+
qed

lemma prune_height:
  assumes "node_reachable I (node_start I h s mh) n" and "nd_pc n = RunPrune b"
  shows "handler_height (nd_handler n) = view_height (nd_view n)"
  using assms
proof induction
  case init
  then show ?case by (simp add: node_start_def split: if_splits)
next
  case (step n n')
  from step(2) show ?case
    using step(3,4) by (cases rule: node_step_cases) (auto simp: node_deliver_def dest: run_step_exit(2))
qed

text \<open>The store and the handler a height leaves behind are an admissible start of every later height.\<close>

lemma exit_start_ok:
  assumes "start_ok I h s mh" and "node_reachable I (node_start I h s mh) n"
    and "run_step I ready n = Some n'" and "nd_pc n' = RunExit (Some b)" and "h < k"
    and "ibft_ok I k" and "quorum (ibft_validators I) k \<noteq> 0"
  shows "start_ok I k (nd_store n') (nd_handler n')"
proof -
  have pc: "nd_pc n = RunPrune b" by (rule run_step_exit(1) [OF assms(3,4)])
  have live: "\<not> exited (nd_pc n)" by (simp add: pc exited_def)
  have ninv: "node_inv I h n" by (rule reachable_inv [OF assms(1,2)])
  note inv = live_inv [OF ninv live] and rinv = rounds_invD [OF live_inv(4) [OF ninv live]]
  let ?mh = "nd_handler n" and ?s = "nd_store n"
  have mh: "handler_address ?mh = self_of I" "handler_height ?mh = h"
    using ninv prune_height [OF assms(2) pc] inv(1) by (simp_all add: node_inv_def)
  have n': "nd_store n' = messages_prune (h + 1) ?s" "nd_handler n' = ?mh"
    using assms(3) pc mh(2) by (auto simp: run_step_def handler_prune_def)
  have later: "h + 1 \<le> view_height v \<and> h \<le> view_height v \<and> v \<notin> rt_view ` set (nd_rounds n)" if "k \<le> view_height v" for v
  proof -
    have "h < view_height v" using assms(5) that by (rule less_le_trans)
    then show ?thesis using rinv(1) inc_le by (auto simp: round_auth_def)
  qed
  have "proposal_at ?s v = None" if "k \<le> view_height v" "is_proposer (ibft_validators I) (self_of I) v" for v
    using rinv(4) that later by blast
  moreover have "proposal_at ?s v \<noteq> None" if "k \<le> view_height v" "v \<in> set (proposal_tx ?s)" for v
    using rinv(5) [OF that(2)] later [OF that(1)] by blast
  ultimately show ?thesis
    unfolding start_ok_def n' using assms(5-7) mh prune_store_inv [OF inv(3)] later txs_eq_D(1) [OF txs_queries(10) [of "h + 1" ?s]]
    by (auto simp: prune_laws)
qed

lemma engine_run_ok:
  assumes "engine_run e0 h0 h e bs" and "engine_ok h0 e0"
    and "\<And>k. ibft_ok (engine_ibft e0) k" and "\<And>k. quorum (ibft_validators (engine_ibft e0)) k \<noteq> 0"
  shows "engine_ibft e = engine_ibft e0 \<and> engine_ok h e \<and> h = h0 + of_nat (length bs) \<and>
     (\<forall>i < length bs. block_valid (engine_ibft e0) (h0 + of_nat i) (bs ! i))"
  using assms(1)
proof induction
  case start
  show ?case using assms(2) by simp
next
  case (deliver h e bs m)
  then show ?case using engine_deliver_ok [of h e m] by auto
next
  case (height h e bs n ready n' b)
  let ?I = "engine_ibft e"
  have start: "start_ok ?I h (engine_messages e) (engine_handler e)" using height.IH by (auto simp: engine_ok_def)
  have reach: "node_reachable ?I (node_start ?I h (engine_messages e) (engine_handler e)) n"
    using height.hyps(2) by (simp add: run_height_start_def)
  have pc: "nd_pc n = RunPrune b" by (rule run_step_exit(1) [OF height.hyps(3,4)])
  have "block_valid ?I h b"
    using reachable_inv [OF start reach] pc by (auto simp: node_inv_def tasks_inv_def exited_def pc_inv_def)
  moreover have "start_ok ?I (h + 1) (nd_store n') (nd_handler n')"
    using exit_start_ok [OF start reach height.hyps(3,4,5)] assms(3,4) height.IH by simp
  ultimately show ?case
    using height.IH by (auto simp: engine_ok_def run_height_end_def nth_append less_Suc_eq)
qed

text \<open>C2: An engine that is created at height \<open>h0\<close> and runs one height after the other returns
  certified blocks only: the \<open>i\<close>-th block it returns carries seals of a quorum of distinct
  validators of height \<open>h0 + 1 + i\<close> over the digest of its raw block and round. Each height leaves
  the shared store and the handler in a state from which the next height may start, so every
  guarantee of a single height holds for all of them.\<close>

theorem engine_chain_certified:
  assumes "\<And>k. ibft_ok (ibft_new E V B sg time) k" and "\<And>k. quorum V k \<noteq> 0" and "h0 < h0 + 1"
    and "engine_run (engine_new E V B h0 sg time) (h0 + 1) h e bs"
  shows "h = h0 + 1 + of_nat (length bs) \<and>
    start_ok (ibft_new E V B sg time) h (engine_messages e) (engine_handler e) \<and>
    (\<forall>i < length bs. \<exists>as.
       signed_by (\<lambda>seal. signature_recover_from_prehash E seal
            (digest_block E (final_raw_block (bs ! i)) (proof_round (final_proof (bs ! i)))))
         (proof_seals (final_proof (bs ! i))) as \<and>
       distinct as \<and> (\<forall>a \<in> set as. is_validator V a (h0 + 1 + of_nat i)) \<and>
       quorum V (h0 + 1 + of_nat i) \<le> length as)"
proof -
  let ?e = "engine_new E V B h0 sg time" and ?I = "ibft_new E V B sg time"
  have I: "engine_ibft ?e = ?I" by (simp add: engine_new_def)
  have "engine_ok (h0 + 1) ?e" by (rule new_engine_ok [OF assms(1-3)])
  then have run: "engine_ibft e = ?I \<and> engine_ok h e \<and> h = h0 + 1 + of_nat (length bs) \<and>
     (\<forall>i < length bs. block_valid ?I (h0 + 1 + of_nat i) (bs ! i))"
    using engine_run_ok [OF assms(4)] assms(1,2) unfolding I by (auto simp: ibft_new_def)
  have "\<exists>as. signed_by (\<lambda>seal. signature_recover_from_prehash E seal
            (digest_block E (final_raw_block b) (proof_round (final_proof b)))) (proof_seals (final_proof b)) as \<and>
       distinct as \<and> (\<forall>a \<in> set as. is_validator V a k) \<and> quorum V k \<le> length as" if "block_valid ?I k b" for k b
    using that unfolding block_valid_def seals_valid_def ibft_new_def by simp (metis signed_by_length)
  then show ?thesis using run by (auto simp: engine_ok_def)
qed

lemma exit_step:
  assumes "node_reachable I (node_start I h s mh) n" and "nd_pc n = RunExit (Some b)"
  shows "\<exists>m ready m'. node_reachable I (node_start I h s mh) m \<and> run_step I ready m = Some m' \<and> nd_pc m' = RunExit (Some b)"
  using assms
proof induction
  case init
  then show ?case by (simp add: node_start_def split: if_splits)
next
  case (step n n')
  from step(2) show ?case
    using step by (cases rule: node_step_cases) (auto simp: node_deliver_def)
qed

theorem engine_chain_certified_witness:
  "\<exists>e b. engine_run (engine_new sample_externals (ibft_validators (sample_ibft [1] 1)) mock_block_service 0 (sample_signer 1) 8000000000)
       1 2 e [b] \<and> start_ok (sample_ibft [1] 1) 2 (engine_messages e) (engine_handler e)"
proof -
  let ?V = "ibft_validators (sample_ibft [1] 1)"
  let ?e = "engine_new sample_externals ?V mock_block_service 0 (sample_signer 1) 8000000000"
  have I: "ibft_new sample_externals ?V mock_block_service (sample_signer 1) 8000000000 = sample_ibft [1] 1"
    by (simp add: ibft_new_def sample_ibft_def)
  have e: "engine_ibft ?e = sample_ibft [1] 1" "run_height_start 1 ?e = sample_start"
    using I by (simp_all add: engine_new_def run_height_start_def sample_start_def sample_address)
  obtain n b where n: "node_reachable (sample_ibft [1] 1) sample_start n" "nd_pc n = RunExit (Some b)"
    by (rule sample_finished)
  obtain m ready m' where m: "node_reachable (sample_ibft [1] 1) sample_start m" "run_step (sample_ibft [1] 1) ready m = Some m'"
    "nd_pc m' = RunExit (Some b)"
    using exit_step [OF n(1) [unfolded sample_start_def] n(2)] unfolding sample_start_def by blast
  have run: "engine_run ?e 1 2 (run_height_end m' ?e) [b]"
    using engine_run.height [OF engine_run.start [of ?e 1], of m ready m' b] m by (simp add: e)
  have "start_ok (sample_ibft [1] 1) 2 (engine_messages (run_height_end m' ?e)) (engine_handler (run_height_end m' ?e))"
    using engine_chain_certified [of sample_externals ?V mock_block_service "sample_signer 1" 8000000000 0 2 "run_height_end m' ?e" "[b]"]
      run by (simp add: I sample_ibft_ok)
  then show ?thesis using run by blast
qed

end
