(* ===== verification/Vote_Provenance.thy ===== *)
theory Vote_Provenance
  imports Engine
begin

text \<open>
  Where the votes behind a commit come from. \<open>V a v d\<close> says that the validator \<open>a\<close> has voted for
  the digest \<open>d\<close> in the view \<open>v\<close>, as proposer or with a prepare. If a node is only given votes that
  were cast, everything it stores, prepares, commits to and finalizes rests on votes that
  were cast. The invariant also covers the tasks that still run after the height has ended.
\<close>

type_synonym votes = "address \<Rightarrow> view \<Rightarrow> bytes \<Rightarrow> bool"

text \<open>The proposer of the view has voted for the digest; a quorum has.\<close>

definition vouched :: "votes \<Rightarrow> ibft \<Rightarrow> view \<Rightarrow> bytes \<Rightarrow> bool" where
  "vouched V I v d \<longleftrightarrow> (\<exists>a. is_proposer (ibft_validators I) a v \<and> V a v d)"

definition supported :: "votes \<Rightarrow> validator_manager \<Rightarrow> view \<Rightarrow> bytes \<Rightarrow> bool" where
  "supported V M v d \<longleftrightarrow>
     (\<exists>a as. is_proposer M a v \<and> V a v d \<and> distinct (a # as) \<and> usize_pred (quorum M (view_height v)) \<le> length as \<and>
        (\<forall>b \<in> set as. is_validator M b (view_height v) \<and> V b v d))"

definition store_votes :: "votes \<Rightarrow> externals \<Rightarrow> u64 \<Rightarrow> consensus_messages \<Rightarrow> bool" where
  "store_votes V E h s \<longleftrightarrow>
     (\<forall>v. view_height v = h \<longrightarrow>
        (\<forall>a m. (a, m) \<in> set (prepares_at s v) \<longrightarrow> V a v (pr_digest m)) \<and>
        (\<forall>p a. proposal_at s v = Some p \<longrightarrow> proposal_recover_signer E p = Inr a \<longrightarrow> V a v (ps_digest p)))"

definition pc_votes :: "votes \<Rightarrow> ibft \<Rightarrow> view \<Rightarrow> round_pc \<Rightarrow> bool" where
  "pc_votes V I v pc =
     (case pc of
        AddProposal p \<Rightarrow> V (self_of I) v (ps_digest p)
      | BroadcastPrepare p \<Rightarrow> vouched V I v (pr_digest p)
      | AddPrepare p \<Rightarrow> vouched V I v (pr_digest p) \<and> V (self_of I) v (pr_digest p)
      | QueryPrepare d \<Rightarrow> vouched V I v d
      | RecvPrepare d _ \<Rightarrow> vouched V I v d
      | BroadcastCommit c \<Rightarrow> supported V (ibft_validators I) v (cm_digest c)
      | _ \<Rightarrow> True)"

text \<open>The votes a list of messages casts, and the messages that cast no vote in another's name, not even inside a certificate.\<close>

definition casts :: "ibft_message list \<Rightarrow> address \<Rightarrow> votes \<Rightarrow> bool" where
  "casts msgs a V \<longleftrightarrow> (\<forall>v. \<forall>d \<in> set (prevotes v msgs). V a v d)"

definition certificate_unforged :: "votes \<Rightarrow> externals \<Rightarrow> prepared_certificate \<Rightarrow> bool" where
  "certificate_unforged V E pc \<longleftrightarrow>
     (\<forall>q \<in> set (pc_prepares pc). \<forall>a. prepare_recover_signer E q = Inr a \<longrightarrow> V a (pr_view q) (pr_digest q))"

definition unforged :: "votes \<Rightarrow> externals \<Rightarrow> ibft_message \<Rightarrow> bool" where
  "unforged V E m =
     (case m of
        Proposal p \<Rightarrow>
          (\<forall>a. proposal_recover_signer E p = Inr a \<longrightarrow> V a (ps_view p) (ps_digest p)) \<and>
          (\<forall>rcc x pc. proposal_rcc (proposal_message p) = Some rcc \<longrightarrow> x \<in> set (rcc_messages rcc) \<longrightarrow>
             rcm_certificate x = Some pc \<longrightarrow> certificate_unforged V E pc)
      | Prepare p \<Rightarrow> (\<forall>a. prepare_recover_signer E p = Inr a \<longrightarrow> V a (pr_view p) (pr_digest p))
      | Commit c \<Rightarrow> True
      | RoundChange rc \<Rightarrow> (\<forall>pp. rcs_prepared rc = Some pp \<longrightarrow> certificate_unforged V E (pp_certificate pp)))"

definition block_digest :: "externals \<Rightarrow> finalized_block \<Rightarrow> bytes" where
  "block_digest E b = digest_block E (final_raw_block b) (proof_round (final_proof b))"

text \<open>The blocks a node has broadcast or is about to broadcast or return.\<close>

definition node_blocks :: "node \<Rightarrow> finalized_block set" where
  "node_blocks n = set (nd_blocks n) \<union>
     (case nd_pc n of RunBroadcastBlock b \<Rightarrow> {b} | RunReturn (Some b) \<Rightarrow> {b} | RunPrune b \<Rightarrow> {b} | RunExit (Some b) \<Rightarrow> {b} | _ \<Rightarrow> {})"

definition node_votes :: "votes \<Rightarrow> ibft \<Rightarrow> u64 \<Rightarrow> node \<Rightarrow> bool" where
  "node_votes V I h n \<longleftrightarrow>
     store_inv I (nd_store n) \<and> store_votes V (ibft_externals I) h (nd_store n) \<and>
     (\<forall>t \<in> set (nd_rounds n). round_auth I h t \<and> pc_votes V I (rt_view t) (rt_pc t)) \<and>
     (\<forall>m \<in> set (nd_proposal_monitors n) \<union> set (nd_rcc_monitors n). monitor_auth h m) \<and>
     (\<forall>v. \<forall>d \<in> set (precommits v (nd_sent n)). supported V (ibft_validators I) v d) \<and>
     (\<forall>b \<in> node_blocks n. supported V (ibft_validators I) (nd_view n) (block_digest (ibft_externals I) b))"

lemma node_votesD:
  assumes "node_votes V I h n"
  shows "store_inv I (nd_store n)" and "store_votes V (ibft_externals I) h (nd_store n)"
    and "t \<in> set (nd_rounds n) \<Longrightarrow> round_auth I h t" and "t \<in> set (nd_rounds n) \<Longrightarrow> pc_votes V I (rt_view t) (rt_pc t)"
    and "m \<in> set (nd_proposal_monitors n) \<Longrightarrow> monitor_auth h m" and "m \<in> set (nd_rcc_monitors n) \<Longrightarrow> monitor_auth h m"
    and "d \<in> set (precommits v (nd_sent n)) \<Longrightarrow> supported V (ibft_validators I) v d"
    and "b \<in> node_blocks n \<Longrightarrow> supported V (ibft_validators I) (nd_view n) (block_digest (ibft_externals I) b)"
  using assms unfolding node_votes_def by blast+

subsection \<open>More votes\<close>

lemma supported_mono:
  assumes "\<And>a v d. V a v d \<Longrightarrow> W a v d" and "supported V M v d"
  shows "supported W M v d"
  using assms unfolding supported_def by meson

lemma vouched_mono: "(\<And>a v d. V a v d \<Longrightarrow> W a v d) \<Longrightarrow> vouched V I v d \<Longrightarrow> vouched W I v d"
  unfolding vouched_def by blast

lemma pc_votes_mono:
  assumes "\<And>a v d. V a v d \<Longrightarrow> W a v d" and "pc_votes V I v pc"
  shows "pc_votes W I v pc"
  using assms supported_mono [of V W] vouched_mono [of V W] by (cases pc) (auto simp: pc_votes_def)

lemma node_votes_mono:
  assumes "\<And>a v d. V a v d \<Longrightarrow> W a v d" and "node_votes V I h n"
  shows "node_votes W I h n"
  using assms(2) supported_mono [of V W, OF assms(1)] pc_votes_mono [of V W, OF assms(1)] assms(1)
  unfolding node_votes_def store_votes_def by blast

subsection \<open>The store\<close>

text \<open>Queries, takes and pruning add no proposal and no prepare.\<close>

definition store_shrinks :: "consensus_messages \<Rightarrow> consensus_messages \<Rightarrow> bool" where
  "store_shrinks s s' \<longleftrightarrow>
     (\<forall>v p. proposal_at s' v = Some p \<longrightarrow> proposal_at s v = Some p) \<and> (\<forall>v. set (prepares_at s' v) \<subseteq> set (prepares_at s v))"

lemma store_shrinks_refl [simp]: "store_shrinks s s"
  by (simp add: store_shrinks_def)

lemma store_votes_shrinks: "store_votes V E h s \<Longrightarrow> store_shrinks s s' \<Longrightarrow> store_votes V E h s'"
  unfolding store_votes_def store_shrinks_def by blast

lemma shrinking_queries:
  assumes "store_wf s"
  shows "store_shrinks s (snd (get_valid_proposal_digest v f s))"
    and "store_shrinks s (snd (take_proposal_message v s))"
    and "store_shrinks s (snd (get_valid_prepare_count v g s))"
    and "store_shrinks s (snd (take_valid_prepare_messages v g s))"
    and "store_shrinks s (snd (take_valid_commit_seals v k q s))"
    and "store_shrinks s (snd (take_valid_round_change_messages v l q s))"
    and "store_shrinks s (snd (get_valid_round_change_count v l s))"
    and "store_shrinks s (snd (has_proposal_by_round h s))"
    and "store_shrinks s (snd (round_change_count_by_round h s))"
    and "store_shrinks s (messages_prune h s)"
    and "store_shrinks s (add_commit_message c a s)"
    and "store_shrinks s (add_round_change_message rc a s)"
  by (auto simp: store_shrinks_def store_laws assms hm_retain_def split: if_splits)

lemma store_votes_add:
  assumes "store_wf s" and "store_votes V E h s"
  shows "\<lbrakk>\<And>a. proposal_recover_signer E p = Inr a \<Longrightarrow> V a (ps_view p) (ps_digest p)\<rbrakk> \<Longrightarrow>
      store_votes V E h (add_proposal_message p b s)"
    and "V b (pr_view q) (pr_digest q) \<Longrightarrow> store_votes V E h (add_prepare_message q b s)"
  using assms by (auto simp: store_votes_def store_laws split: if_splits)

lemma deliver_votes:
  assumes "ibft_ok I h" and "node_inv I h n" and "node_votes V I h n" and "unforged V (ibft_externals I) m"
  shows "node_votes V I h (node_deliver I m n)"
proof -
  note inv = node_votesD(1,2) [OF assms(3)]
  let ?s = "nd_store (node_deliver I m n)"
  have "store_inv I ?s"
    unfolding node_deliver_def
    using store_effect_inv [OF deliver_effect [OF assms(1) inv(1), of "nd_handler n"]] assms(2)
    by (simp add: node_inv_def)
  moreover have "store_votes V (ibft_externals I) h ?s"
    using inv(2) assms(4) store_votes_add [OF store_invD(1) [OF inv(1)] inv(2)]
      store_votes_shrinks [OF inv(2) shrinking_queries(11) [OF store_invD(1) [OF inv(1)]]]
      store_votes_shrinks [OF inv(2) shrinking_queries(12) [OF store_invD(1) [OF inv(1)]]]
    by (cases m) (auto simp: node_deliver_def unforged_def Let_def split: sum.split)
  ultimately show ?thesis
    using assms(3) by (simp add: node_votes_def node_deliver_def node_blocks_def)
qed

subsection \<open>Round tasks\<close>

lemma queried_auth:
  assumes "ibft_ok I h" and "store_inv I s" and "\<not> is_proposer (ibft_validators I) (self_of I) v"
    and "get_valid_proposal_digest v (proposal_verify_fn I v) s = (res, s')" and "missing \<in> {RecvProposal, RoundPanicked}"
  shows "pc_auth I v 0 (proposal_queried I v missing res)"
proof (cases "\<exists>d. res = Some (Inr d)")
  case True
  then obtain d where d: "res = Some (Inr d)" by blast
  then have "length d = 32"
    using proposal_query_result(3) [OF assms(2,4)] assms(1) digest_length_32 by (auto simp: backed_def ibft_ok_def)
  then obtain p where "vote_prepare I v d = BroadcastPrepare p" "own_prepare I v p"
    by (rule vote_prepare_pc [OF assms(1,3)])
  then show ?thesis by (simp add: d proposal_queried_def pc_auth_def)
next
  case False
  then show ?thesis
    using assms(3,5) by (auto simp: proposal_queried_def pc_auth_def split: option.split sum.split)
qed

lemma rcc_auth:
  assumes "ibft_ok I h" and "is_proposer (ibft_validators I) (self_of I) v"
  shows "pc_auth I v 0 (wait_rcc_taken I v b res)"
proof -
  have "pc_auth I v 0 (propose I v raw rcc)" for raw rcc
    by (rule propose_pc [OF assms, of raw rcc]) (simp add: pc_auth_def)
  then show ?thesis
    using assms(2) by (auto simp: wait_rcc_taken_def build_and_propose_def pc_auth_def split: prod.split option.split sum.split)
qed

text \<open>A task keeps itself and the store authentic, also after what it relied on was taken or pruned.\<close>

lemma round_poll_safe:
  assumes "ibft_ok I h" and "store_inv I s" and "round_auth I h t" and "round_poll I b t s = Some (t', s', msgs)"
  shows "store_inv I s' \<and> round_auth I h t'"
proof (cases "rt_pc t")
  case Start
  have "round_store I (messages_new (self_of I)) t" by (simp add: round_store_def Start store_laws)
  from start_kept(1) [OF assms(1) store_inv_new assms(3) this Start] show ?thesis
    using assms(2,4) Start by (auto simp: round_poll_def Let_def round_kept_def)
next
  case QueryRcc
  then show ?thesis
    using assms store_effect_inv [OF query_round_changes_inv(1) [OF assms(2)]]
    by (auto simp: round_poll_def Let_def rt_goto_def round_auth_def pc_auth_def [where pc = QueryRcc] case_prod_unfold
        intro: rcc_auth)
next
  case QueryProposal
  then show ?thesis
    using assms queried_auth [OF assms(1,2)] store_effect_inv [OF proposal_query_result(1) [OF assms(2)]]
    by (auto simp: round_poll_def Let_def rt_goto_def round_auth_def pc_auth_def [where pc = QueryProposal] split: prod.splits)
next
  case RequeryProposal
  then show ?thesis
    using assms queried_auth [OF assms(1,2)] store_effect_inv [OF proposal_query_result(1) [OF assms(2)]]
    by (auto simp: round_poll_def Let_def rt_goto_def round_auth_def pc_auth_def [where pc = RequeryProposal] split: prod.splits)
next
  case (AddProposal p)
  then have own: "own_proposal I (rt_view t) p" and "view_round (rt_view t) \<le> MAX_ROUND"
    using assms(3) by (auto simp: round_auth_def pc_auth_def)
  then have "store_effect I {rt_view t} s (add_proposal_message p (self_of I) s)" and "length (ps_digest p) = 32"
    using assms(1) digest_length_32
    by (auto simp: own_proposal_def proposal_auth_def ibft_ok_def intro!: add_proposal_effect [OF assms(2)])
  then show ?thesis
    using AddProposal assms(3,4)
    by (auto simp: round_poll_def Let_def round_auth_def rt_enter_def shared_run_state_update_def pc_auth_def
        intro: store_effect_inv)
next
  case (QueryPrepare d)
  then show ?thesis
    using assms(4) query_prepare_kept(1) [OF assms(1-3) QueryPrepare] store_effect_inv
    by (auto simp: round_poll_def Let_def round_kept_def split: prod.splits)
next
  case (QueryCommit d)
  then show ?thesis
    using assms(4) query_commit_kept(1) [OF assms(2,3) QueryCommit] store_effect_inv
    by (auto simp: round_poll_def Let_def round_kept_def split: prod.splits)
next
  case (AddPrepare p)
  then show ?thesis
    using assms(4) add_prepare_kept [OF assms(1-3) AddPrepare] store_effect_inv
    by (auto simp: round_poll_def Let_def round_kept_def)
next
  case (AddCommit c)
  then show ?thesis
    using assms(4) add_commit_kept [OF assms(1-3) AddCommit] store_effect_inv
    by (auto simp: round_poll_def Let_def round_kept_def)
qed (use assms(2-4) in \<open>auto simp: round_poll_def Let_def round_auth_def rt_goto_def pc_auth_def\<close>)

lemma round_step_safe:
  assumes "ibft_ok I h" and "store_inv I s" and "round_auth I h t" and "round_step I ev t s = Some (t', s', msgs)"
  shows "store_inv I s'" and "round_auth I h t'"
proof -
  have "store_inv I s' \<and> round_auth I h t'"
  proof (cases ev)
    case (Poll b)
    then show ?thesis using round_poll_safe [OF assms(1-3)] assms(4) by simp
  next
    case (Recv w)
    then show ?thesis
      using assms(2-4)
      by (cases "rt_pc t") (auto simp: round_recv_def counted_recv_def Let_def rt_goto_def round_auth_def pc_auth_def)
  next
    case RecvError
    then show ?thesis
      using assms(2-4)
      by (cases "rt_pc t") (auto simp: round_receiving_def rt_goto_def round_auth_def pc_auth_def)
  qed
  then show "store_inv I s'" and "round_auth I h t'" by blast+
qed

text \<open>A verified proposal in the store was vouched for, and enough prepares for it make a quorum.\<close>

lemma stored_proposal_vouched:
  assumes "store_inv I s" and "store_votes V (ibft_externals I) (view_height v) s" and "proposal_at s v = Some p"
  shows "vouched V I v (ps_digest p)"
  using store_authD(1) [OF store_invD(2) [OF assms(1)] assms(3)] assms(2,3)
  unfolding proposal_auth_def store_votes_def vouched_def by blast

lemma counted_prepares_supported:
  assumes "store_inv I s" and "store_votes V (ibft_externals I) (view_height v) s" and "vouched V I v d"
    and "usize_pred (quorum_of I v) \<le> preps s v d"
  shows "supported V (ibft_validators I) v d"
proof -
  note inv = store_invD [OF assms(1)]
  obtain a where a: "is_proposer (ibft_validators I) a v" "V a v d" using assms(3) by (auto simp: vouched_def)
  let ?as = "map fst (filter (\<lambda>(a, m). pr_digest m = d) (prepares_at s v))"
  have "is_validator (ibft_validators I) b (view_height v) \<and> \<not> is_proposer (ibft_validators I) b v \<and> V b v d"
    if "b \<in> set ?as" for b
    using that store_authD(2) [OF inv(2), of b _ v] assms(2) by (fastforce simp: prepare_auth_def store_votes_def)
  moreover have "distinct ?as"
    using store_wfD(9) [OF inv(1), of v] by (simp add: hm_wf_def distinct_map_fst_filter)
  ultimately show ?thesis
    using a assms(4) unfolding supported_def by (intro exI [of _ a] exI [of _ ?as]) (auto simp: preps_def)
qed

text \<open>Where the queries of a task lead.\<close>

lemma pc_votes_propose: "pc_votes V I v (propose I v raw rcc)"
  by (simp add: propose_def pc_votes_def split: option.split)

lemma pc_votes_build: "pc_votes V I v (build_and_propose I v b rcc)"
  using pc_votes_propose by (cases b) (simp_all add: build_and_propose_def pc_votes_def [where pc = "RoundFailed _"])

lemma pc_votes_start: "pc_votes V I (srs_view st) (run_ibft_round_start I st b)"
  using pc_votes_build
  by (auto simp: run_ibft_round_start_def run_proposal_0_start_def run_proposal_1_start_def
      pc_votes_def [where pc = QueryProposal] pc_votes_def [where pc = QueryRcc] pc_votes_def [where pc = RoundPanicked])

lemma pc_votes_rcc: "pc_votes V I v (wait_rcc_taken I v b res)"
  using pc_votes_build pc_votes_propose
  by (auto simp: wait_rcc_taken_def pc_votes_def [where pc = "RecvRcc _"] pc_votes_def [where pc = RoundPanicked]
      split: prod.split option.split)

lemma pc_votes_queried:
  assumes "missing \<in> {RecvProposal, RoundPanicked}" and "\<And>d. res = Some (Inr d) \<Longrightarrow> vouched V I v d"
  shows "pc_votes V I v (proposal_queried I v missing res)"
  using assms
  by (auto simp: proposal_queried_def vote_prepare_def prepare_into_signed_def prepare_new_def pc_votes_def
      split: option.split sum.split)

lemma pc_votes_counted:
  assumes "vouched V I v d" and "usize_pred (quorum_of I v) \<le> k \<Longrightarrow> supported V (ibft_validators I) v d"
  shows "pc_votes V I v (prepares_counted I v d k)"
  using assms
  by (auto simp: prepares_counted_def vote_commit_def commit_into_signed_def commit_new_def pc_votes_def
      split: option.split bind_split)

lemma query_proposal_provenance:
  assumes "store_inv I s" and "store_votes V (ibft_externals I) (view_height v) s"
    and "get_valid_proposal_digest v (proposal_verify_fn I v) s = (res, s')" and "missing \<in> {RecvProposal, RoundPanicked}"
  shows "store_votes V (ibft_externals I) (view_height v) s' \<and> pc_votes V I v (proposal_queried I v missing res)"
proof -
  have res: "res = fst (get_valid_proposal_digest v (proposal_verify_fn I v) s)"
    and s': "s' = snd (get_valid_proposal_digest v (proposal_verify_fn I v) s)" using assms(3) by simp_all
  have "vouched V I v d" if "res = Some (Inr d)" for d
    using that stored_proposal_vouched [OF assms(1,2)]
    by (auto simp: res get_valid_proposal_digest_result split: option.splits sum.splits)
  then show ?thesis
    unfolding s' using pc_votes_queried [OF assms(4)] store_votes_shrinks [OF assms(2)] shrinking_queries(1)
      store_invD(1) [OF assms(1)] by blast
qed

lemma query_prepare_provenance:
  assumes "store_inv I s" and "store_votes V (ibft_externals I) (view_height v) s" and "vouched V I v d"
    and "get_valid_prepare_count v (\<lambda>p. pr_digest p = d) s = (k, s')"
  shows "store_votes V (ibft_externals I) (view_height v) s' \<and> pc_votes V I v (prepares_counted I v d k)"
proof -
  have "k = preps s v d" and s': "s' = snd (get_valid_prepare_count v (\<lambda>p. pr_digest p = d) s)"
    using prepare_count_result(2) [OF assms(1,4)] assms(4) by simp_all
  then show ?thesis
    unfolding s' using pc_votes_counted [OF assms(3)] counted_prepares_supported [OF assms(1-3)]
      store_votes_shrinks [OF assms(2)] shrinking_queries(3) store_invD(1) [OF assms(1)] by blast
qed

lemma round_poll_provenance:
  assumes "store_inv I s" and "store_votes V (ibft_externals I) h s" and "round_auth I h t"
    and "pc_votes V I (rt_view t) (rt_pc t)" and "round_poll I b t s = Some (t', s', msgs)" and "casts msgs (self_of I) V"
  shows "store_votes V (ibft_externals I) h s' \<and> pc_votes V I (rt_view t') (rt_pc t') \<and>
    (\<forall>v. \<forall>d \<in> set (precommits v msgs). supported V (ibft_validators I) v d)"
proof -
  note wf = store_invD(1) [OF assms(1)]
  note shrinks = store_votes_shrinks [OF assms(2)] and shrinking = shrinking_queries [OF wf]
  have h: "view_height (rt_view t) = h" using assms(3) by (simp add: round_auth_def)
  note simps = round_poll_def Let_def rt_goto_def rt_enter_def shared_run_state_update_def
    and auth = pc_votes_def casts_def round_auth_def pc_auth_def own_proposal_def own_prepare_def own_commit_def
  show ?thesis
  proof (cases "rt_pc t")
    case Start
    then show ?thesis using assms(2,5) by (auto simp: simps pc_votes_start)
  next
    case QueryRcc
    then show ?thesis using assms(5) shrinks [OF shrinking(6)] by (auto simp: simps case_prod_unfold intro: pc_votes_rcc)
  next
    case (AddProposal p)
    then show ?thesis using assms(3-5) store_votes_add(1) [OF wf assms(2), of p] by (auto simp: simps auth vouched_def)
  next
    case QueryProposal
    then show ?thesis
      using assms(5) query_proposal_provenance [OF assms(1) assms(2) [folded h], of _ _ RecvProposal] h
      by (auto simp: simps split: prod.splits)
  next
    case RequeryProposal
    then show ?thesis
      using assms(5) query_proposal_provenance [OF assms(1) assms(2) [folded h], of _ _ RoundPanicked] h
      by (auto simp: simps split: prod.splits)
  next
    case (AddPrepare p)
    then show ?thesis using assms(3-5) store_votes_add(2) [OF wf assms(2), of "self_of I" p] by (auto simp: simps auth)
  next
    case (QueryPrepare d)
    then have "vouched V I (rt_view t) d" using assms(4) by (simp add: pc_votes_def)
    then show ?thesis
      using assms(5) QueryPrepare query_prepare_provenance [OF assms(1) assms(2) [folded h]] h
      by (auto simp: simps split: prod.splits)
  next
    case (AddCommit c)
    then show ?thesis using assms(5) shrinks [OF shrinking(11)] by (auto simp: simps pc_votes_def)
  next
    case (QueryCommit d)
    then show ?thesis
      using assms(5) shrinks [OF shrinking(5)]
      by (auto simp: simps case_prod_unfold commits_taken_def pc_votes_def split: option.split)
  qed (use assms(2-6) in \<open>auto simp: simps auth split: if_splits\<close>)
qed

lemma round_step_provenance:
  assumes "store_inv I s" and "store_votes V (ibft_externals I) h s" and "round_auth I h t"
    and "pc_votes V I (rt_view t) (rt_pc t)" and "round_step I ev t s = Some (t', s', msgs)" and "casts msgs (self_of I) V"
  shows "store_votes V (ibft_externals I) h s'" and "pc_votes V I (rt_view t') (rt_pc t')"
    and "d \<in> set (precommits v msgs) \<Longrightarrow> supported V (ibft_validators I) v d"
proof -
  have "store_votes V (ibft_externals I) h s' \<and> pc_votes V I (rt_view t') (rt_pc t') \<and>
    (\<forall>v. \<forall>d \<in> set (precommits v msgs). supported V (ibft_validators I) v d)"
  proof (cases ev)
    case (Poll b)
    then show ?thesis using round_poll_provenance [OF assms(1-4) _ assms(6)] assms(5) by simp
  next
    case (Recv w)
    then show ?thesis
      using assms(2,4,5) by (cases "rt_pc t") (auto simp: round_recv_def counted_recv_def Let_def rt_goto_def pc_votes_def)
  next
    case RecvError
    then show ?thesis
      using assms(2,5) by (cases "rt_pc t") (auto simp: round_receiving_def rt_goto_def pc_votes_def)
  qed
  then show "store_votes V (ibft_externals I) h s'" and "pc_votes V I (rt_view t') (rt_pc t')"
    and "d \<in> set (precommits v msgs) \<Longrightarrow> supported V (ibft_validators I) v d" by blast+
qed

subsection \<open>Nodes\<close>

lemma round_rule_votes:
  assumes "ibft_ok I h" and "node_votes V I h n" and "i < length (nd_rounds n)"
    and "round_step I ev (nd_rounds n ! i) (nd_store n) = Some (t, s, msgs)" and "casts msgs (self_of I) V"
  shows "node_votes V I h (n\<lparr>nd_store := s, nd_rounds := (nd_rounds n)[i := t], nd_sent := nd_sent n @ msgs\<rparr>)"
proof -
  note inv = node_votesD [OF assms(2)]
  have mem: "nd_rounds n ! i \<in> set (nd_rounds n)" using assms(3) by simp
  note safe = round_step_safe [OF assms(1) inv(1) inv(3) [OF mem] assms(4)]
    and votes = round_step_provenance [OF inv(1,2) inv(3,4) [OF mem] assms(4,5)]
  have "round_auth I h u \<and> pc_votes V I (rt_view u) (rt_pc u)" if "u \<in> set ((nd_rounds n)[i := t])" for u
    using that set_update_subset_insert [of "nd_rounds n" i t] safe(2) votes(2) inv(3,4) by blast
  then show ?thesis
    using safe(1) votes(1,3) inv(5-8) unfolding node_votes_def by (auto simp: node_blocks_def)
qed

lemma monitor_shrinks:
  assumes "store_wf s" and "monitor_step I ev m s = Some (m', s')"
  shows "store_shrinks s s'"
proof -
  note shrinking = shrinking_queries [OF assms(1)]
  have "store_shrinks s s'" if "proposal_monitor_poll I v pc s = Some (pc', s')" for v pc pc'
    using that shrinking(1,8)
    by (cases pc; auto simp: proposal_monitor_poll_def Let_def case_prod_unfold split: option.splits list.splits)
  moreover have "store_shrinks s s'" if "rcc_monitor_poll I v pc s = Some (pc', s')" for v pc pc'
    using that shrinking(7,9)
    by (cases pc; auto simp: rcc_monitor_poll_def Let_def case_prod_unfold split: option.splits list.splits)
  ultimately show ?thesis
    using assms(2) by (cases ev) (auto split: monitor_kind.splits monitor_pc.splits)
qed

text \<open>A step that changes neither the rounds nor what was sent.\<close>

lemma node_votes_other:
  assumes "node_votes V I h n" and "store_inv I (nd_store n')" and "store_shrinks (nd_store n) (nd_store n')"
    and "nd_rounds n' = nd_rounds n" and "\<And>v. precommits v (nd_sent n') = precommits v (nd_sent n)"
    and "\<And>m. m \<in> set (nd_proposal_monitors n') \<union> set (nd_rcc_monitors n') \<Longrightarrow> monitor_auth h m"
    and "\<And>b. b \<in> node_blocks n' \<Longrightarrow> supported V (ibft_validators I) (nd_view n') (block_digest (ibft_externals I) b)"
  shows "node_votes V I h n'"
  using node_votesD [OF assms(1)] assms(2,4-7) store_votes_shrinks [OF _ assms(3)] unfolding node_votes_def by auto

lemma monitor_rule_votes:
  assumes "node_votes V I h n" and "m \<in> set (nd_proposal_monitors n) \<union> set (nd_rcc_monitors n)"
    and "event_from ev (monitor_channel (mt_kind m) (nd_store n))" and "monitor_step I ev m (nd_store n) = Some (m', s)"
  shows "store_inv I s" and "store_shrinks (nd_store n) s" and "monitor_auth h m'"
proof -
  note inv = node_votesD [OF assms(1)]
  have "monitor_auth h m" using assms(2) inv(5,6) by blast
  from monitor_step_kept(1) [OF inv(1) this assms(3,4)] show "store_inv I s" and "monitor_auth h m'"
    by (auto simp: monitor_kept_def store_effect_def)
  show "store_shrinks (nd_store n) s" by (rule monitor_shrinks [OF store_invD(1) [OF inv(1)] assms(4)])
qed

lemma reorder_shrinks:
  assumes "reordered s s'"
  shows "store_shrinks s s'"
proof -
  have "set (prepares_at s' v) = set (prepares_at s v)" for v
    using assms unfolding reordered_def by (meson mset_eq_setD)
  moreover have "proposal_at s' = proposal_at s"
    using assms by (simp add: reordered_def fun_eq_iff proposal_at_def)
  ultimately show ?thesis by (simp add: store_shrinks_def)
qed

text \<open>What a step of the run loop does to the store, to the rounds and to the blocks.\<close>

lemma run_shrinks:
  assumes "store_wf (nd_store n)" and "run_step I ready n = Some n'"
  shows "store_shrinks (nd_store n) (nd_store n')" and "precommits v (nd_sent n') = precommits v (nd_sent n)"
proof -
  note shrinking = shrinking_queries [OF assms(1)]
  have "store_shrinks (nd_store n) (nd_store n') \<and> precommits v (nd_sent n') = precommits v (nd_sent n)"
  proof (cases "nd_pc n")
    case (RunReturn r)
    then show ?thesis using assms(2) by (auto simp: run_step_def split: option.splits)
  qed (use assms(2) shrinking(2,4,10,12) in \<open>auto simp: run_step_def run_loop_top_def start_ibft_round_def run_select_def
      handle_round_finish_def handle_timeout_def timeout_take_proposal_def timeout_take_prepares_def handler_prune_def
      Let_def case_prod_unfold split: option.splits\<close>)
  then show "store_shrinks (nd_store n) (nd_store n')" and "precommits v (nd_sent n') = precommits v (nd_sent n)" by blast+
qed

lemma run_rounds:
  assumes "run_step I ready n = Some n'" and "t \<in> set (nd_rounds n')"
  shows "t \<in> set (nd_rounds n) \<or> rt_pc t = Start"
proof (cases "nd_pc n")
  case (RunReturn r)
  then show ?thesis using assms by (auto simp: run_step_def split: option.splits)
qed (use assms in \<open>auto simp: run_step_def run_loop_top_def start_ibft_round_def run_select_def handle_round_finish_def
      handle_timeout_def timeout_take_proposal_def timeout_take_prepares_def round_task_new_def
      Let_def case_prod_unfold split: option.splits if_splits\<close>)

definition has_block :: "finalized_block \<Rightarrow> run_pc \<Rightarrow> bool" where
  "has_block b pc \<longleftrightarrow> pc \<in> {RunBroadcastBlock b, RunReturn (Some b), RunPrune b, RunExit (Some b)}"

lemma node_blocks_iff: "b \<in> node_blocks n \<longleftrightarrow> b \<in> set (nd_blocks n) \<or> has_block b (nd_pc n)"
  by (auto simp: node_blocks_def has_block_def split: run_pc.splits option.splits)

lemma run_select_no_block: "\<not> has_block b (nd_pc (run_select k ready n))"
  by (rule run_select_rule) (simp_all add: has_block_def)

lemma handle_timeout_no_block:
  "\<not> has_block b (nd_pc (handle_timeout I n))"
  by (simp add: has_block_def handle_timeout_def broadcast_rc_def Let_def split: list.split option.split run_state.split)

lemma step_blocks [simp]:
  "node_blocks (run_select k ready n) = set (nd_blocks n)"
  "node_blocks (handle_timeout I n) = set (nd_blocks n)"
  "node_blocks (run_loop_top I r n) = set (nd_blocks n)"
  "node_blocks (start_ibft_round I n) = set (nd_blocks n)"
  "node_blocks (timeout_take_proposal n) = set (nd_blocks n)"
  "node_blocks (timeout_take_prepares I p n) = set (nd_blocks n)"
proof -
  show "node_blocks (run_select k ready n) = set (nd_blocks n)"
    using run_select_no_block select_keeps_blocks by (simp only: set_eq_iff node_blocks_iff) blast
  have "nd_blocks (handle_timeout I n) = nd_blocks n" by (simp add: handle_timeout_def Let_def)
  then show "node_blocks (handle_timeout I n) = set (nd_blocks n)"
    using handle_timeout_no_block by (simp only: set_eq_iff node_blocks_iff) blast
qed (simp_all add: node_blocks_def run_loop_top_def start_ibft_round_def timeout_take_proposal_def
    timeout_take_prepares_def broadcast_rc_def Let_def case_prod_unfold split: option.split)

lemma step_views [simp]:
  "nd_view (run_select k ready n) = nd_view n" "nd_view (handle_timeout I n) = nd_view n"
  "nd_view (timeout_take_proposal n) = nd_view n" "nd_view (timeout_take_prepares I p n) = nd_view n"
  by (simp_all add: run_select_def handle_timeout_def timeout_take_proposal_def timeout_take_prepares_def Let_def
      case_prod_unfold split: option.split)

lemma run_blocks:
  assumes "blocks_inv n" and "run_step I ready n = Some n'" and "b \<in> node_blocks n'"
  shows "b \<in> node_blocks n \<and> nd_view n' = nd_view n \<or>
    (\<exists>seals. nd_pc n = RunFinish seals \<and> nd_pc n' = RunBroadcastBlock b \<and> n' = handle_round_finish seals n)"
proof (cases "nd_pc n")
  case (RunFinish seals)
  then show ?thesis
    using assms by (auto simp: blocks_inv_def run_step_def node_blocks_def handle_round_finish_def case_prod_unfold
        split: option.splits)
next
  case (RunReturn r)
  then show ?thesis using assms by (auto simp: blocks_inv_def node_blocks_def run_step_def split: option.splits)
next
  case (RunBroadcastBlock x)
  then show ?thesis using assms by (auto simp: node_blocks_def run_step_def)
next
  case (RunBroadcastRc rc)
  then show ?thesis using assms by (auto simp: node_blocks_def run_step_def)
next
  case (RunPrune x)
  then show ?thesis using assms by (auto simp: node_blocks_def run_step_def)
qed (use assms in \<open>auto simp: blocks_inv_def run_step_def\<close>)

lemma handle_round_finish_view: "nd_view (handle_round_finish seals n) = nd_view n"
  by (simp add: handle_round_finish_def case_prod_unfold split: option.split)

text \<open>The run loop exits from \<open>RunReturn\<close> or with the pruning only.\<close>

lemma run_step_exits:
  assumes "run_step I ready n = Some n'" and "exited (nd_pc n')"
  shows "nd_pc n = RunReturn None \<or> (\<exists>b. nd_pc n = RunPrune b)"
proof -
  have "\<not> exited (nd_pc (run_select k ready n))" for k
    by (rule run_select_rule) (simp_all add: exited_def)
  moreover have "\<not> exited (nd_pc (handle_timeout I n))"
    by (simp add: exited_def handle_timeout_def broadcast_rc_def Let_def split: list.split option.split run_state.split)
  ultimately show ?thesis
    using assms
    by (cases "nd_pc n") (auto simp: run_step_def exited_def run_loop_top_def start_ibft_round_def handle_round_finish_def
        timeout_take_proposal_def timeout_take_prepares_def broadcast_rc_def Let_def case_prod_unfold
        split: option.splits if_splits)
qed

lemma finish_supported:
  assumes "node_inv I h n" and "node_votes V I h n" and "nd_pc n = RunFinish seals"
    and "nd_pc (handle_round_finish seals n) = RunBroadcastBlock b"
  shows "supported V (ibft_validators I) (nd_view n) (block_digest (ibft_externals I) b)"
proof -
  have live: "\<not> exited (nd_pc n)" by (simp add: assms(3) exited_def)
  note inv = live_inv [OF assms(1) live] and votes = node_votesD(1,2) [OF assms(2)]
  let ?v = "nd_view n" and ?s = "nd_store n"
  obtain d where d: "prepared I ?s ?v d"
    using inv(7) assms(3) by (auto simp: pc_inv_def current_def round_backed_def pc_backed_def)
  then obtain p where p: "proposal_at ?s ?v = Some p" "ps_digest p = d" "proposal_verify_block_digest (ibft_externals I) p"
    by (auto simp: prepared_def backed_def)
  have "b = finalized_block_new (ps_block p) seals"
    using assms(4) take_proposal_laws(1) [OF store_invD(1) [OF inv(3)], of ?v] p(1)
    by (auto simp: handle_round_finish_def case_prod_unfold split: option.splits)
  then have "block_digest (ibft_externals I) b = d"
    using p(2,3) by (simp add: block_digest_def finalized_block_new_def finalization_proof_new_def proposal_verify_block_digest_def proposed_block_digest_def)
  moreover have h: "view_height ?v = h" by (rule inv(1))
  ultimately show ?thesis
    using counted_prepares_supported [OF votes(1) votes(2) [folded h]] stored_proposal_vouched [OF votes(1) votes(2) [folded h] p(1)]
      p(2) d by (simp add: prepared_def)
qed

lemma run_rule_votes:
  assumes "ibft_ok I h" and "node_inv I h n" and "blocks_inv n" and "node_votes V I h n" and "run_step I ready n = Some n'"
  shows "node_votes V I h n'"
proof -
  note votes = node_votesD [OF assms(4)]
  note wf = store_invD(1) [OF votes(1)]
  have inv': "node_inv I h n'" by (rule run_rule_inv [OF assms(1,2,5)])
  have exit: "exited (nd_pc n') \<Longrightarrow> store_inv I (nd_store n') \<and> nd_rounds n' = nd_rounds n \<and>
      nd_proposal_monitors n' = nd_proposal_monitors n \<and> nd_rcc_monitors n' = nd_rcc_monitors n"
    using assms(5) run_step_exits votes(1) prune_store_inv by (fastforce simp: run_step_def handler_prune_def split: option.splits)
  have "store_inv I (nd_store n') \<and> (\<forall>t \<in> set (nd_rounds n'). round_auth I h t) \<and>
      (\<forall>m \<in> set (nd_proposal_monitors n') \<union> set (nd_rcc_monitors n'). monitor_auth h m)"
  proof (cases "exited (nd_pc n')")
    case True
    then show ?thesis using exit votes(3,5,6) by auto
  next
    case False
    show ?thesis using live_inv(3-6) [OF inv' False] by (auto simp: rounds_inv_def monitors_inv_def)
  qed
  moreover have "pc_votes V I (rt_view t) (rt_pc t)" if "t \<in> set (nd_rounds n')" for t
    using run_rounds [OF assms(5) that] votes(4) by (auto simp: pc_votes_def [where pc = Start])
  moreover have "supported V (ibft_validators I) (nd_view n') (block_digest (ibft_externals I) b)" if "b \<in> node_blocks n'" for b
    using run_blocks [OF assms(3,5) that] votes(8) finish_supported [OF assms(2,4)] handle_round_finish_view by auto
  moreover have "store_votes V (ibft_externals I) h (nd_store n')"
    by (rule store_votes_shrinks [OF votes(2) run_shrinks(1) [OF wf assms(5)]])
  ultimately show ?thesis
    using votes(7) run_shrinks(2) [OF wf assms(5)] unfolding node_votes_def by simp
qed

text \<open>Every step of a node that is given only votes that were cast.\<close>

lemma internal_votes:
  assumes "node_internal I n n'" and "ibft_ok I h" and "node_inv I h n" and "blocks_inv n" and "node_votes V I h n"
    and "casts (nd_sent n') (self_of I) V"
  shows "node_votes V I h n'"
  using assms(1)
proof cases
  case (round i ev t s msgs)
  have "casts msgs (self_of I) V" using assms(6) round(1) by (auto simp: casts_def)
  then show ?thesis using round_rule_votes [OF assms(2,5) round(2,4)] round(1) by simp
next
  case (proposal_monitor i ev m s)
  note step = monitor_rule_votes [OF assms(5) _ proposal_monitor(3,4)]
  show ?thesis
    by (rule node_votes_other [OF assms(5)])
      (use step proposal_monitor(1,2) node_votesD(5,6,8) [OF assms(5)] set_update_subset_insert in
        \<open>fastforce simp: node_blocks_def\<close>)+
next
  case (rcc_monitor i ev m s)
  note step = monitor_rule_votes [OF assms(5) _ rcc_monitor(3,4)]
  show ?thesis
    by (rule node_votes_other [OF assms(5)])
      (use step rcc_monitor(1,2) node_votesD(5,6,8) [OF assms(5)] set_update_subset_insert in
        \<open>fastforce simp: node_blocks_def\<close>)+
next
  case (run ready)
  then show ?thesis using run_rule_votes [OF assms(2-5)] by simp
next
  case (reorder s)
  then show ?thesis
    using node_votesD(5,6,8) [OF assms(5)] store_effect_inv [OF reorder_effect [OF node_votesD(1) [OF assms(5)]]]
    by (intro node_votes_other [OF assms(5)]) (auto simp: reorder_shrinks node_blocks_def)
qed

end
