(* ===== verification/Agreement.thy ===== *)
theory Agreement
  imports Node_Properties
begin

text \<open>
  Agreement between nodes. Several nodes run one height with the validators of the mock; fewer than a
  third of them are faulty and may send anything. The nodes that are not faulty run the modelled code, and the
  network delivers in their name only what they have sent.
\<close>

definition honest_node :: "ibft \<Rightarrow> u64 \<Rightarrow> node \<Rightarrow> bool" where
  "honest_node I h n \<longleftrightarrow> (\<exists>s mh. start_ok I h s mh \<and> node_reachable I (node_start I h s mh) n)"

text \<open>The node waits in the \<open>select!\<close> of a view whose round task is in the commit state.\<close>

definition committing :: "node \<Rightarrow> view \<Rightarrow> bool" where
  "committing n v \<longleftrightarrow>
     nd_view n = v \<and> (\<exists>k. nd_pc n = RunSelect k) \<and>
     (\<exists>t ts. nd_rounds n = t # ts \<and> shared_run_state_get (rt_state t) = Some StCommit)"

text \<open>
  No forged votes among honest nodes: a prepare or a proposal of the view that an honest node has
  stored for an honest sender was sent by it.
\<close>

definition delivered_only_sent :: "externals \<Rightarrow> view \<Rightarrow> address set \<Rightarrow> (address \<Rightarrow> node) \<Rightarrow> bool" where
  "delivered_only_sent E v honest net \<longleftrightarrow>
     (\<forall>x \<in> honest. \<forall>a \<in> honest.
        (\<forall>m. (a, m) \<in> set (prepares_at (nd_store (net x)) v) \<longrightarrow> pr_digest m \<in> set (prevotes v (nd_sent (net a)))) \<and>
        (\<forall>p. proposal_at (nd_store (net x)) v = Some p \<longrightarrow> proposal_recover_signer E p = Inr a \<longrightarrow>
           ps_digest p \<in> set (prevotes v (nd_sent (net a)))))"

text \<open>The votes behind a committing node: a quorum of validators, the honest ones with their own vote.\<close>

lemma committing_quorum:
  assumes "honest_node I h n" and "committing n v" and "ibft_validators I = mock_manager m" and "mock_validators m \<noteq> []"
  shows "\<exists>p Q. proposal_at (nd_store n) v = Some p \<and> proposal_verify_block_digest (ibft_externals I) p \<and>
    Q \<subseteq> set (mock_validators m) \<and> mock_quorum m h \<le> card Q \<and>
    (\<forall>b \<in> Q. proposal_recover_signer (ibft_externals I) p = Inr b \<or>
       (\<exists>r. (b, r) \<in> set (prepares_at (nd_store n) v) \<and> pr_digest r = ps_digest p))"
proof -
  obtain s mh where start: "start_ok I h s mh" "node_reachable I (node_start I h s mh) n"
    using assms(1) by (auto simp: honest_node_def)
  obtain k t ts where c: "nd_pc n = RunSelect k" "nd_rounds n = t # ts" "shared_run_state_get (rt_state t) = Some StCommit"
    and v: "nd_view n = v" using assms(2) by (auto simp: committing_def)
  obtain p a as where p: "proposal_at (nd_store n) v = Some p" "proposal_verify_block_digest (ibft_externals I) p"
    "proposal_recover_signer (ibft_externals I) p = Inr a" "is_proposer (ibft_validators I) a v" "distinct (a # as)"
    and len: "usize_pred (quorum_of I v) \<le> length as"
    and as: "\<forall>b \<in> set as. is_validator (ibft_validators I) b h \<and>
       (\<exists>r. (b, r) \<in> set (prepares_at (nd_store n) v) \<and> pr_digest r = ps_digest p \<and>
            prepare_recover_signer (ibft_externals I) r = Inr b)"
    using commit_state_quorum [OF start c] unfolding v by blast
  have "a \<in> set (mock_validators m)"
    using p(4) assms(3,4) by (auto simp: mock_manager_def mock_is_proposer_def Let_def)
  then have "set (a # as) \<subseteq> set (mock_validators m)"
    using as assms(3) by (auto simp: mock_manager_def mock_is_validator_iff)
  moreover have "view_height v = h"
    using reachable_inv [OF start] v by (simp add: node_inv_def)
  then have "mock_quorum m h \<le> card (set (a # as))"
    using len distinct_card [OF p(5)] assms(3) by (simp add: mock_manager_def mock_quorum_def)
  ultimately show ?thesis
    using p as by (intro exI [of _ p] exI [of _ "set (a # as)"]) auto
qed

text \<open>Nodes agree within a view: if fewer than a third of the mock's validators are faulty, any two
  honest nodes that are in the commit state of the same view hold proposals with the same digest, so
  the same raw block and round, unless SHA-256 collides on them. Hence no two honest nodes
  commit to, or finalize, different blocks in one round.\<close>

theorem committing_nodes_agree:
  assumes "distinct (mock_validators m)" and "3 * card (set (mock_validators m) \<inter> faulty) < length (mock_validators m)"
    and "\<And>a. a \<in> set (mock_validators m) - faulty \<Longrightarrow>
      honest_node (I a) h (net a) \<and> ibft_externals (I a) = E \<and> ibft_validators (I a) = mock_manager m"
    and "delivered_only_sent E v (set (mock_validators m) - faulty) net"
    and "x \<in> set (mock_validators m) - faulty" and "y \<in> set (mock_validators m) - faulty"
    and "committing (net x) v" and "committing (net y) v"
  shows "\<exists>p q. proposal_at (nd_store (net x)) v = Some p \<and> proposal_at (nd_store (net y)) v = Some q \<and>
    ps_digest p = ps_digest q \<and>
    (ps_block p = ps_block q \<or>
     sha256_collision E (codec_serialize E (BTuple [BBytes (raw_block (ps_block p)), BU8 (block_round (ps_block p))]))
       (codec_serialize E (BTuple [BBytes (raw_block (ps_block q)), BU8 (block_round (ps_block q))])))"
proof -
  let ?H = "set (mock_validators m) - faulty"
  define votes where "votes b d \<longleftrightarrow> b \<in> faulty \<or> b \<in> ?H \<and> d \<in> set (prevotes v (nd_sent (net b)))" for b d
  have ne: "mock_validators m \<noteq> []" using assms(2) by auto
  have quorum: "\<exists>p Q. proposal_at (nd_store (net z)) v = Some p \<and> proposal_verify_block_digest E p \<and>
      Q \<subseteq> set (mock_validators m) \<and> mock_quorum m h \<le> card Q \<and> (\<forall>b \<in> Q. votes b (ps_digest p))"
    if z: "z \<in> ?H" and c: "committing (net z) v" for z
  proof -
    have node: "honest_node (I z) h (net z)" "ibft_externals (I z) = E" "ibft_validators (I z) = mock_manager m"
      using assms(3) [OF z] by simp_all
    obtain p Q where p: "proposal_at (nd_store (net z)) v = Some p" "proposal_verify_block_digest E p"
      "Q \<subseteq> set (mock_validators m)" "mock_quorum m h \<le> card Q"
      and Q: "\<forall>b \<in> Q. proposal_recover_signer E p = Inr b \<or>
         (\<exists>r. (b, r) \<in> set (prepares_at (nd_store (net z)) v) \<and> pr_digest r = ps_digest p)"
      using committing_quorum [OF node(1) c node(3) ne, unfolded node(2)] by (elim exE conjE) (rule that)
    have "votes b (ps_digest p)" if b: "b \<in> Q" for b
    proof (cases "b \<in> faulty")
      case False
      then have H: "b \<in> ?H" using b p(3) by blast
      have sent: "\<And>r. (b, r) \<in> set (prepares_at (nd_store (net z)) v) \<Longrightarrow> pr_digest r \<in> set (prevotes v (nd_sent (net b)))"
        and own: "proposal_recover_signer E p = Inr b \<Longrightarrow> ps_digest p \<in> set (prevotes v (nd_sent (net b)))"
        using assms(4) z H p(1) unfolding delivered_only_sent_def by blast+
      have "ps_digest p \<in> set (prevotes v (nd_sent (net b)))" using bspec [OF Q b] sent own by metis
      then show ?thesis using H by (simp add: votes_def)
    qed (simp add: votes_def)
    then show ?thesis using p by blast
  qed
  obtain p Q where p: "proposal_at (nd_store (net x)) v = Some p" "proposal_verify_block_digest E p"
    "Q \<subseteq> set (mock_validators m)" "mock_quorum m h \<le> card Q" "\<And>b. b \<in> Q \<Longrightarrow> votes b (ps_digest p)"
    using quorum [OF assms(5,7)] by blast
  obtain q R where q: "proposal_at (nd_store (net y)) v = Some q" "proposal_verify_block_digest E q"
    "R \<subseteq> set (mock_validators m)" "mock_quorum m h \<le> card R" "\<And>b. b \<in> R \<Longrightarrow> votes b (ps_digest q)"
    using quorum [OF assms(6,8)] by blast
  have single: "d = e" if "b \<notin> faulty" "votes b d" "votes b e" for b d e
  proof -
    have b: "b \<in> ?H" using that by (auto simp: votes_def)
    obtain s mh where "start_ok (I b) h s mh" "node_reachable (I b) (node_start (I b) h s mh) (net b)"
      using assms(3) [OF b] unfolding honest_node_def by blast
    from single_votes [OF this, of v] show ?thesis
      using that by (auto simp: votes_def le_Suc_eq length_Suc_conv)
  qed
  have digest: "ps_digest p = ps_digest q"
    by (rule quorum_system.votes_agree [OF mock_quorum_system [OF assms(1,2), of h] p(3) q(3) p(4) q(4) p(5) q(5) single])
  have "borsh_ok E"
    using assms(3) [OF assms(5)] by (auto simp: honest_node_def start_ok_def ibft_ok_def externals_ok_def)
  moreover have "digest_block E (raw_block (ps_block p)) (block_round (ps_block p)) =
      digest_block E (raw_block (ps_block q)) (block_round (ps_block q))"
    using digest p(2) q(2) by (simp add: proposal_verify_block_digest_def proposed_block_digest_def)
  ultimately show ?thesis
    using digest_block_eq p(1) q(1) digest by (metis proposed_block.equality unit.exhaust)
qed

text \<open>One validator that is in the commit state, without faulty ones.\<close>

theorem committing_nodes_agree_witness:
  "\<exists>n p. honest_node (sample_ibft [1] 1) 1 n \<and> committing n (view_new 1 0) \<and> proposal_at (nd_store n) (view_new 1 0) = Some p"
proof -
  let ?I = "sample_ibft [1] 1" and ?v = "view_new 1 0" and ?m = "\<lparr>mock_validators = [Address (replicate 24 1)]\<rparr>"
  let ?a = "Address (replicate 24 1)"
  obtain t s' p c seals where
    polls: "round_polls 7 ?I (Inr [1, 2, 3]) (round_task_new (shared_run_state_new ?v)) (messages_new ?a) =
       Some (t, s', [Proposal p, Commit c])" "rt_pc t = RoundDone seals" "proposal_at s' ?v = Some p"
    by (rule sample_polls)
  obtain n where n: "node_reachable ?I sample_start n" "nd_pc n = RunSelect 0" "nd_view n = ?v" "nd_store n = s'"
    "nd_sent n = [Proposal p, Commit c]" "nd_rounds n = [t]"
    using round_0_polls [OF sample_started refl polls(1)] unfolding sample_start_def by blast
  have honest: "honest_node ?I 1 n" using n(1) sample_started unfolding honest_node_def sample_start_def by blast
  have inv: "node_inv ?I 1 n" by (rule reachable_inv [OF sample_started n(1) [unfolded sample_start_def]])
  have live: "\<not> exited (nd_pc n)" by (simp add: n(2) exited_def)
  have "srs_run_state (rt_state t) = 2"
    using rounds_invD(1) [OF live_inv(4) [OF inv live]] n(6) polls(2) by (simp add: round_auth_def pc_auth_def)
  then have committing: "committing n ?v"
    using n by (simp add: committing_def shared_run_state_get_def run_state_from_u8_def)
  note sinv = store_invD [OF live_inv(3) [OF inv live]]
  have "prepares_at s' ?v = []"
  proof (rule ccontr)
    assume "prepares_at s' ?v \<noteq> []"
    then obtain b r where "(b, r) \<in> set (prepares_at s' ?v)" by (cases "prepares_at s' ?v") auto
    then show False using store_authD(2) [OF sinv(2), of b r ?v] n(4) by (auto simp: prepare_auth_def)
  qed
  moreover have "ps_view p = ?v" using store_wf_filed(1) [OF sinv(1)] n(4) polls(3) by simp
  ultimately have "delivered_only_sent sample_externals ?v (set (mock_validators ?m) - {}) (\<lambda>_. n)"
    using n polls(3) by (simp add: delivered_only_sent_def)
  from committing_nodes_agree [where I = "\<lambda>_. ?I" and net = "\<lambda>_. n" and h = 1 and x = ?a and y = ?a, OF _ _ _ this]
  have "\<exists>p. proposal_at (nd_store n) ?v = Some p"
    using honest committing by (force simp: sample_ibft_def sample_address)
  then show ?thesis using honest committing by blast
qed

end
