(* ===== verification/Network.thy ===== *)
theory Network
  imports Vote_Provenance Agreement
begin

text \<open>
  Validators that run one height together. Each validator that is not faulty runs the modelled
  code from an admissible start; the network may deliver any message to any of them, in any order, any
  number of times or never, except that it cannot make up votes of the honest: a proposal or
  prepare that recovers to an honest validator, also one inside a certificate, carries a digest
  which that validator has voted for in that view. Faulty validators may send whatever they can sign, and
  messages of other heights are not restricted at all.
\<close>

type_synonym network = "address \<Rightarrow> node"

definition net_votes :: "u64 \<Rightarrow> address set \<Rightarrow> network \<Rightarrow> votes" where
  "net_votes h honest net a v d \<longleftrightarrow> (a \<in> honest \<longrightarrow> view_height v = h \<longrightarrow> d \<in> set (prevotes v (nd_sent (net a))))"

text \<open>\<open>ok\<close> may restrict further what is delivered; most theorems hold for any.\<close>

inductive net_step ::
    "(address \<Rightarrow> ibft) \<Rightarrow> address set \<Rightarrow> u64 \<Rightarrow> (ibft_message \<Rightarrow> bool) \<Rightarrow> network \<Rightarrow> network \<Rightarrow> bool"
  for I honest h ok where
  deliver: "x \<in> honest \<Longrightarrow> unforged (net_votes h honest net) (ibft_externals (I x)) m \<Longrightarrow> ok m \<Longrightarrow>
    net_step I honest h ok net (net(x := node_deliver (I x) m (net x)))"
| internal: "x \<in> honest \<Longrightarrow> node_internal (I x) (net x) n \<Longrightarrow> net_step I honest h ok net (net(x := n))"

inductive net_reachable ::
    "(address \<Rightarrow> ibft) \<Rightarrow> address set \<Rightarrow> u64 \<Rightarrow> (ibft_message \<Rightarrow> bool) \<Rightarrow> network \<Rightarrow> network \<Rightarrow> bool"
  for I honest h ok net0 where
  init: "net_reachable I honest h ok net0 net0"
| step: "net_reachable I honest h ok net0 net \<Longrightarrow> net_step I honest h ok net net' \<Longrightarrow> net_reachable I honest h ok net0 net'"

text \<open>
  The start of the height: every honest validator signs with its own key, and no store holds a vote of an honest
  validator for the height yet. Messages of the faulty may already be there.
\<close>

definition net_start :: "(address \<Rightarrow> ibft) \<Rightarrow> u64 \<Rightarrow> (address \<Rightarrow> consensus_messages) \<Rightarrow> (address \<Rightarrow> message_handler) \<Rightarrow> network" where
  "net_start I h s mh x = node_start (I x) h (s x) (mh x)"

definition net_start_ok ::
    "externals \<Rightarrow> validator_manager \<Rightarrow> (address \<Rightarrow> ibft) \<Rightarrow> address set \<Rightarrow> u64 \<Rightarrow> (address \<Rightarrow> consensus_messages) \<Rightarrow>
     (address \<Rightarrow> message_handler) \<Rightarrow> bool" where
  "net_start_ok E M I honest h s mh \<longleftrightarrow>
     (\<forall>x \<in> honest. ibft_externals (I x) = E \<and> ibft_validators (I x) = M \<and> self_of (I x) = x \<and>
        start_ok (I x) h (s x) (mh x) \<and> store_votes (\<lambda>a v d. a \<notin> honest) E h (s x))"

lemma net_start_okD:
  assumes "net_start_ok E M I honest h s mh" and "x \<in> honest"
  shows "ibft_externals (I x) = E" and "ibft_validators (I x) = M" and "self_of (I x) = x"
    and "start_ok (I x) h (s x) (mh x)" and "store_votes (\<lambda>a v d. a \<notin> honest) E h (s x)"
  using assms unfolding net_start_ok_def by blast+

subsection \<open>The invariant of the network\<close>

lemma internal_sent:
  assumes "node_internal I n n'"
  shows "\<exists>ms. nd_sent n' = nd_sent n @ ms"
  using assms
proof cases
  case (run ready)
  then show ?thesis
    by (cases "nd_pc n") (auto simp: run_step_def run_loop_top_def start_ibft_round_def run_select_def handle_round_finish_def
        handle_timeout_def timeout_take_proposal_def timeout_take_prepares_def Let_def case_prod_unfold split: option.splits)
qed auto

lemma net_votes_grow:
  assumes "net_votes h honest net a v d" and "\<exists>ms. nd_sent n = nd_sent (net x) @ ms"
  shows "net_votes h honest (net(x := n)) a v d"
  using assms by (auto simp: net_votes_def)

definition net_inv ::
    "(address \<Rightarrow> ibft) \<Rightarrow> address set \<Rightarrow> u64 \<Rightarrow> network \<Rightarrow> network \<Rightarrow> bool" where
  "net_inv I honest h net0 net \<longleftrightarrow>
     (\<forall>x \<in> honest. node_reachable (I x) (net0 x) (net x) \<and> node_votes (net_votes h honest net) (I x) h (net x))"

lemma start_votes:
  assumes "start_ok I h s mh" and "store_votes V (ibft_externals I) h s"
  shows "node_votes V I h (node_start I h s mh)"
  using assms by (simp add: start_ok_def node_votes_def node_start_def node_blocks_def)

lemma net_inv_start:
  assumes "net_start_ok E M I honest h s mh"
  shows "net_inv I honest h (net_start I h s mh) (net_start I h s mh)"
proof -
  have "node_votes (net_votes h honest (net_start I h s mh)) (I x) h (net_start I h s mh x)" if x: "x \<in> honest" for x
  proof (rule node_votes_mono)
    note ok = net_start_okD [OF assms x]
    show "node_votes (\<lambda>a v d. a \<notin> honest) (I x) h (net_start I h s mh x)"
      unfolding net_start_def by (rule start_votes) (use ok in simp_all)
  qed (simp add: net_votes_def)
  then show ?thesis by (simp add: net_inv_def node_reachable.init)
qed

lemma net_inv_step:
  assumes "net_start_ok E M I honest h s mh" and "net_inv I honest h (net_start I h s mh) net"
    and "net_step I honest h ok net net'"
  shows "net_inv I honest h (net_start I h s mh) net'"
proof -
  let ?V = "net_votes h honest"
  obtain x n where x: "x \<in> honest" "net' = net(x := n)" and step: "node_step (I x) (net x) n"
    and sent: "\<exists>ms. nd_sent n = nd_sent (net x) @ ms"
    and votes: "\<lbrakk>ibft_ok (I x) h; node_inv (I x) h (net x); blocks_inv (net x); node_votes (?V net) (I x) h (net x);
       node_votes (?V net') (I x) h (net x); casts (nd_sent n) (self_of (I x)) (?V net')\<rbrakk> \<Longrightarrow> node_votes (?V net') (I x) h n"
    using assms(3)
  proof cases
    case (deliver x m)
    have "?V net' = ?V net" by (rule ext)+ (simp add: net_votes_def deliver(1) node_deliver_def)
    then show thesis
      using that [of x "node_deliver (I x) m (net x)"] deliver deliver_votes node_step.deliver
      by (simp add: node_deliver_def)
  next
    case (internal x n)
    then show thesis using that [of x n] internal_votes internal_sent node_step.internal by blast
  qed
  note ok = net_start_okD [OF assms(1) x(1)]
  have reach: "node_reachable (I y) (net_start I h s mh y) (net y)" and old: "node_votes (?V net) (I y) h (net y)"
    if "y \<in> honest" for y using assms(2) that unfolding net_inv_def by blast+
  have grow: "node_votes (?V net') (I y) h (net y)" if "y \<in> honest" for y
    by (rule node_votes_mono [OF _ old [OF that]]) (unfold x(2), rule net_votes_grow, assumption, rule sent)
  have rx: "node_reachable (I x) (node_start (I x) h (s x) (mh x)) (net x)"
    using reach [OF x(1)] by (simp add: net_start_def)
  have "casts (nd_sent n) (self_of (I x)) (?V net')" using x ok(3) by (simp add: casts_def net_votes_def)
  then have "node_votes (?V net') (I x) h n"
    using votes reachable_inv [OF ok(4) rx] reachable_blocks [OF rx] old grow x(1) ok(4) by (simp add: start_ok_def)
  then show ?thesis
    using reach grow x node_reachable.step [OF reach [OF x(1)] step] by (auto simp: net_inv_def)
qed

lemma net_reachable_inv:
  assumes "net_start_ok E M I honest h s mh" and "net_reachable I honest h ok (net_start I h s mh) net"
  shows "net_inv I honest h (net_start I h s mh) net"
  using assms(2) by induction (auto intro: net_inv_start [OF assms(1)] net_inv_step [OF assms(1)])

lemma net_node_inv:
  assumes "net_start_ok E M I honest h s mh" and "net_inv I honest h (net_start I h s mh) net" and "x \<in> honest"
  shows "node_reachable (I x) (node_start (I x) h (s x) (mh x)) (net x)" and "node_inv (I x) h (net x)"
    and "view_height (nd_view (net x)) = h"
proof -
  show r: "node_reachable (I x) (node_start (I x) h (s x) (mh x)) (net x)"
    using assms(2,3) by (simp add: net_inv_def net_start_def)
  show "node_inv (I x) h (net x)" by (rule reachable_inv [OF net_start_okD(4) [OF assms(1,3)] r])
  then show "view_height (nd_view (net x)) = h" by (simp add: node_inv_def)
qed

subsection \<open>Agreement\<close>

text \<open>Two digests with a quorum of votes each are equal: an honest validator has voted for both, and it votes once.\<close>

lemma mock_supported_quorum:
  assumes "supported V (mock_manager m) v d" and "mock_validators m \<noteq> []"
  obtains Q where "Q \<subseteq> set (mock_validators m)" and "mock_quorum m (view_height v) \<le> card Q" and "\<forall>b \<in> Q. V b v d"
proof -
  obtain a as where s: "mock_is_proposer m a v" "V a v d" "distinct (a # as)" "usize_pred (mock_quorum m (view_height v)) \<le> length as"
    "\<And>b. b \<in> set as \<Longrightarrow> mock_is_validator m b (view_height v) \<and> V b v d"
    using assms(1) by (auto simp: supported_def mock_manager_def)
  have "a \<in> set (mock_validators m)" using s(1) assms(2) by (auto simp: mock_is_proposer_def Let_def)
  moreover have "mock_quorum m (view_height v) \<le> card (set (a # as))"
    using s(4) distinct_card [OF s(3)] by (simp add: mock_quorum_def)
  ultimately show thesis
    by (intro that [of "set (a # as)"]) (use s(2,5) in \<open>auto simp: mock_is_validator_iff\<close>)
qed

lemma supported_agree:
  assumes "distinct (mock_validators m)" and "3 * card (set (mock_validators m) \<inter> faulty) < length (mock_validators m)"
    and "net_start_ok E (mock_manager m) I (set (mock_validators m) - faulty) h s mh"
    and "net_inv I (set (mock_validators m) - faulty) h (net_start I h s mh) net"
    and "supported (net_votes h (set (mock_validators m) - faulty) net) (mock_manager m) v d"
    and "supported (net_votes h (set (mock_validators m) - faulty) net) (mock_manager m) v e"
    and "view_height v = h"
  shows "d = e"
proof -
  let ?H = "set (mock_validators m) - faulty"
  let ?V = "net_votes h ?H net"
  have ne: "mock_validators m \<noteq> []" using assms(2) by auto
  obtain Q where Q: "Q \<subseteq> set (mock_validators m)" "mock_quorum m (view_height v) \<le> card Q" "\<forall>b \<in> Q. ?V b v d"
    by (rule mock_supported_quorum [OF assms(5) ne])
  obtain R where R: "R \<subseteq> set (mock_validators m)" "mock_quorum m (view_height v) \<le> card R" "\<forall>b \<in> R. ?V b v e"
    by (rule mock_supported_quorum [OF assms(6) ne])
  obtain b where b: "b \<in> Q \<inter> R" "b \<notin> faulty"
    using quorum_system.common_honest [OF mock_quorum_system [OF assms(1,2)] Q(1) R(1) Q(2) R(2)] by blast
  then have H: "b \<in> ?H" using Q(1) by blast
  note single = single_votes [OF net_start_okD(4) [OF assms(3) H] net_node_inv(1) [OF assms(3,4) H], of v]
  have "?V b v d" "?V b v e" using Q(3) R(3) b(1) by blast+
  then show ?thesis
    using single H assms(7) by (auto simp: net_votes_def le_Suc_eq length_Suc_conv)
qed

text \<open>C3: Agreement of the validators that run one height together. From every admissible start, with
  fewer than a third of the mock's validators faulty and sending anything, and the network delivering in any
  order, in every reachable state of the network: any two honest validators that have sent a commit in a view
  have committed to the same digest; a block that an honest validator finalizes in a view has the digest
  that the others have committed to in it; and two blocks finalized in the same view are the same
  raw block and round, unless SHA-256 collides on them.\<close>

theorem network_agreement:
  assumes "distinct (mock_validators m)" and "3 * card (set (mock_validators m) \<inter> faulty) < length (mock_validators m)"
    and "honest = set (mock_validators m) - faulty"
    and "net_start_ok E (mock_manager m) I honest h s mh" and "net_reachable I honest h ok (net_start I h s mh) net"
    and "x \<in> honest" and "y \<in> honest"
  shows "(\<forall>r d e. d \<in> set (precommits (view_new h r) (nd_sent (net x))) \<longrightarrow>
       e \<in> set (precommits (view_new h r) (nd_sent (net y))) \<longrightarrow> d = e) \<and>
    (\<forall>b d. b \<in> set (nd_blocks (net x)) \<longrightarrow> d \<in> set (precommits (nd_view (net x)) (nd_sent (net y))) \<longrightarrow>
       d = digest_block E (final_raw_block b) (proof_round (final_proof b))) \<and>
    (\<forall>b c. b \<in> set (nd_blocks (net x)) \<longrightarrow> c \<in> set (nd_blocks (net y)) \<longrightarrow> nd_view (net x) = nd_view (net y) \<longrightarrow>
       final_raw_block b = final_raw_block c \<and> proof_round (final_proof b) = proof_round (final_proof c) \<or>
       sha256_collision E (codec_serialize E (BTuple [BBytes (final_raw_block b), BU8 (proof_round (final_proof b))]))
         (codec_serialize E (BTuple [BBytes (final_raw_block c), BU8 (proof_round (final_proof c))])))"
proof -
  let ?S = "supported (net_votes h honest net) (mock_manager m)"
  have inv: "net_inv I honest h (net_start I h s mh) net" by (rule net_reachable_inv [OF assms(4,5)])
  have agree: "d = e" if "?S v d" "?S v e" "view_height v = h" for v d e
    using supported_agree [OF assms(1,2)] assms(3,4) inv that by blast
  have node: "node_votes (net_votes h honest net) (I z) h (net z)" "ibft_externals (I z) = E" "ibft_validators (I z) = mock_manager m"
    if "z \<in> honest" for z
    using inv net_start_okD(1,2) [OF assms(4)] that by (simp_all add: net_inv_def)
  have commit: "?S v d" if "z \<in> honest" "d \<in> set (precommits v (nd_sent (net z)))" for z v d
    using node_votesD(7) [OF node(1)] node(3) that by metis
  have block: "?S (nd_view (net z)) (block_digest E b)" if "z \<in> honest" "b \<in> set (nd_blocks (net z))" for z b
    using node_votesD(8) [OF node(1) [OF that(1)], of b] node(2,3) [OF that(1)] that(2) by (simp add: node_blocks_iff)
  note height = net_node_inv(3) [OF assms(4) inv]
  have "borsh_ok E"
    using net_start_okD(1,4) [OF assms(4,6)] by (auto simp: start_ok_def ibft_ok_def externals_ok_def)
  then have "final_raw_block b = final_raw_block c \<and> proof_round (final_proof b) = proof_round (final_proof c) \<or>
       sha256_collision E (codec_serialize E (BTuple [BBytes (final_raw_block b), BU8 (proof_round (final_proof b))]))
         (codec_serialize E (BTuple [BBytes (final_raw_block c), BU8 (proof_round (final_proof c))]))"
    if "b \<in> set (nd_blocks (net x))" "c \<in> set (nd_blocks (net y))" "nd_view (net x) = nd_view (net y)" for b c
    using digest_block_eq agree [OF block [OF assms(6) that(1)], of "block_digest E c"] block [OF assms(7) that(2)] that(3)
      height [OF assms(7)] by (auto simp: block_digest_def)
  moreover have "d = digest_block E (final_raw_block b) (proof_round (final_proof b))"
    if "b \<in> set (nd_blocks (net x))" "d \<in> set (precommits (nd_view (net x)) (nd_sent (net y)))" for b d
    using agree [OF commit [OF assms(7) that(2)] block [OF assms(6) that(1)] height [OF assms(6)]] by (simp add: block_digest_def)
  moreover have "d = e" if "d \<in> set (precommits (view_new h r) (nd_sent (net x)))" "e \<in> set (precommits (view_new h r) (nd_sent (net y)))" for r d e
    using agree [OF commit [OF assms(6) that(1)] commit [OF assms(7) that(2)]] by (simp add: view_new_def)
  ultimately show ?thesis by blast
qed

subsection \<open>Two validators that finish a height\<close>

lemma net_scheduled:
  assumes "x \<in> honest"
  shows "scheduled (I x) (\<lambda>_. True) (\<lambda>n. net_reachable I honest h ok net0 (net(x := n)))"
proof
  fix n n'
  assume reach: "net_reachable I honest h ok net0 (net(x := n))" and step: "node_internal (I x) n n'"
  have "net_step I honest h ok (net(x := n)) ((net(x := n))(x := n'))"
    by (rule net_step.internal [OF assms]) (simp add: step)
  from net_reachable.step [OF reach this]
  show "net_reachable I honest h ok net0 (net(x := n'))" by simp
qed

abbreviation pair_first :: address where
  "pair_first \<equiv> Address (replicate 24 1)"

abbreviation pair_second :: address where
  "pair_second \<equiv> Address (replicate 24 2)"

abbreviation pair_mock :: mock where
  "pair_mock \<equiv> \<lparr>mock_validators = [pair_first, pair_second]\<rparr>"

definition pair_ibft :: "address \<Rightarrow> ibft" where
  "pair_ibft a = sample_ibft [1, 2] (if a = pair_first then 1 else 2)"

text \<open>The proposals that are delivered carry the block \<open>[1, 2, 3]\<close>.\<close>

definition pair_delivery :: "ibft_message \<Rightarrow> bool" where
  "pair_delivery m = (case m of Proposal p \<Rightarrow> raw_block (ps_block p) = [1, 2, 3] | _ \<Rightarrow> True)"

definition pair_net :: network where
  "pair_net = net_start pair_ibft 1 messages_new (handler_new 0)"

lemma pair_ibft_simps [simp]:
  "pair_ibft pair_first = sample_ibft [1, 2] 1" "pair_ibft pair_second = sample_ibft [1, 2] 2"
  by (simp_all add: pair_ibft_def)

lemma pair_net_ok: "net_start_ok sample_externals (mock_manager pair_mock) pair_ibft {pair_first, pair_second} 1 messages_new (handler_new 0)"
proof -
  have "start_ok (sample_ibft [1, 2] n) 1 (messages_new (Address (replicate 24 n))) (handler_new 0 (Address (replicate 24 n)))" if "n \<in> {1, 2}" for n
    using sample_start_ok [of n "[1, 2]" 1] that by (simp add: sample_address)
  then show ?thesis
    by (simp add: net_start_ok_def sample_address store_votes_def store_laws) (simp add: sample_ibft_def sample_address)
qed

text \<open>The second validator proposes.\<close>

lemma pair_proposes:
  obtains net where "net_reachable pair_ibft {pair_first, pair_second} 1 pair_delivery pair_net net" "nd_sent (net pair_second) = [Proposal pair_proposal]"
    "net pair_first = node_start (sample_ibft [1, 2] 1) 1 (messages_new pair_first) (handler_new 0 pair_first)"
proof -
  let ?J = "sample_ibft [1, 2] 2" and ?v = "view_new 1 0" and ?H = "{pair_first, pair_second}"
  let ?t = "round_task_new (shared_run_state_new ?v)" and ?s = "messages_new pair_second"
  have "propose ?J ?v [1, 2, 3] None = BroadcastProposal pair_proposal"
    by (rule proposal_into_signed_recovers [OF sample_externals_ok sample_signer_wf, of "proposal_new sample_externals ?v [1, 2, 3] None" 2])
      (simp add: propose_def pair_proposal_def sample_proposal_def)
  then have polls: "round_polls 2 ?J (Inr [1, 2, 3]) ?t ?s = Some (rt_goto (AddProposal pair_proposal) ?t, ?s, [Proposal pair_proposal])"
    by (simp add: numeral_eq_Suc round_poll_def Let_def task_new_simps build_and_propose_def view_new_def sample_address)
  note sch = net_scheduled [of pair_second ?H pair_ibft 1 pair_delivery pair_net pair_net, unfolded pair_ibft_simps]
  have "pair_net pair_second = node_start ?J 1 ?s (handler_new 0 pair_second)" by (simp add: pair_net_def net_start_def)
  then have start: "net_reachable pair_ibft ?H 1 pair_delivery pair_net (pair_net(pair_second := node_start ?J 1 ?s (handler_new 0 pair_second)))"
    using net_reachable.init [of pair_ibft ?H 1 pair_delivery pair_net] by (simp add: fun_upd_idem)
  have "\<exists>n. net_reachable pair_ibft ?H 1 pair_delivery pair_net (pair_net(pair_second := n)) \<and> nd_sent n = [Proposal pair_proposal]"
    using scheduled.scheduled_round_0 [OF sch start _ refl polls] by (simp add: fun_upd_def) blast
  then obtain n where "net_reachable pair_ibft ?H 1 pair_delivery pair_net (pair_net(pair_second := n))" "nd_sent n = [Proposal pair_proposal]"
    by blast
  then show thesis using that [of "pair_net(pair_second := n)"] by (simp add: pair_net_def net_start_def)
qed

text \<open>The first one is given the proposal and a commit, and finishes.\<close>

lemma pair_delivered:
  assumes "own_commit (sample_ibft [1, 2] 2) (view_new 1 0) c"
  shows "node_deliver (sample_ibft [1, 2] 1) (Commit c) (node_deliver (sample_ibft [1, 2] 1) (Proposal pair_proposal)
      (node_start (sample_ibft [1, 2] 1) 1 (messages_new pair_first) (handler_new 0 pair_first))) =
    node_start (sample_ibft [1, 2] 1) 1 (pair_store c) (handler_new 0 pair_first)"
  using assms
  by (simp add: node_deliver_def node_start_def pair_store_def own_commit_def Let_def handler_new_def sample_address view_new_def MAX_ROUND_def)

lemma pair_finished:
  obtains net b q c where "net_reachable pair_ibft {pair_first, pair_second} 1 pair_delivery pair_net net" "nd_blocks (net pair_first) = [b]"
    "nd_view (net pair_first) = view_new 1 0" "nd_sent (net pair_first) = [Prepare q, Commit c]" "cm_view c = view_new 1 0"
    "final_raw_block b = [1, 2, 3]" "nd_pc (net pair_first) = RunExit (Some b)"
proof -
  let ?I = "sample_ibft [1, 2] 1" and ?v = "view_new 1 0" and ?H = "{pair_first, pair_second}" and ?p = pair_proposal
  let ?mh = "handler_new 0 pair_first"
  obtain c where c: "own_commit (sample_ibft [1, 2] 2) ?v c" "cm_digest c = ps_digest ?p" by (rule pair_commit)
  obtain net where net: "net_reachable pair_ibft ?H 1 pair_delivery pair_net net" "nd_sent (net pair_second) = [Proposal ?p]"
    "net pair_first = node_start ?I 1 (messages_new pair_first) ?mh" by (rule pair_proposes)
  let ?net1 = "net(pair_first := node_deliver ?I (Proposal ?p) (net pair_first))"
  have "unforged (net_votes 1 ?H net) sample_externals (Proposal ?p)"
    using net(2) by (simp add: unforged_def net_votes_def)
  then have "net_step pair_ibft ?H 1 pair_delivery net ?net1"
    using net_step.deliver [of pair_first ?H 1 net pair_ibft "Proposal ?p" pair_delivery] by (simp add: pair_delivery_def)
  then have r1: "net_reachable pair_ibft ?H 1 pair_delivery pair_net ?net1" by (rule net_reachable.step [OF net(1)])
  let ?start = "node_start ?I 1 (pair_store c) ?mh"
  have "net_step pair_ibft ?H 1 pair_delivery ?net1 (?net1(pair_first := node_deliver ?I (Commit c) (?net1 pair_first)))"
    using net_step.deliver [of pair_first ?H 1 ?net1 pair_ibft "Commit c" pair_delivery] by (simp add: unforged_def pair_delivery_def)
  from net_reachable.step [OF r1 this] have r2: "net_reachable pair_ibft ?H 1 pair_delivery pair_net (net(pair_first := ?start))"
    using pair_delivered [OF c(1)] net(3) by simp
  have ok: "ibft_ok ?I 1" "store_inv ?I (pair_store c)" and height: "handler_height ?mh < 1"
    using pair_start [OF c] by (simp_all add: start_ok_def)
  obtain t s' q c' seals where polls: "round_polls 8 ?I (Inl []) (round_task_new (shared_run_state_new ?v)) (pair_store c) = Some (t, s', [Prepare q, Commit c'])"
    "rt_pc t = RoundDone seals" "proposal_at s' ?v = Some ?p" "cm_view c' = ?v"
    using validator_completes_round [OF ok, of ?v ?p "Inl []"] c pair_store_at [OF c(1)] pair_verified
    by (auto simp: sample_address commit_votes_def preps_def usize_pred_def view_new_def MAX_ROUND_def)
  note sch = net_scheduled [of pair_first ?H pair_ibft 1 pair_delivery pair_net net, unfolded pair_ibft_simps, OF insertI1]
  obtain n where n: "net_reachable pair_ibft ?H 1 pair_delivery pair_net (net(pair_first := n))" "nd_pc n = RunSelect 0" "nd_view n = ?v" "nd_store n = s'"
    "nd_sent n = [Prepare q, Commit c']" "nd_blocks n = []" "nd_handler n = ?mh" "nd_rounds n = [t]"
    using scheduled.scheduled_round_0 [OF sch r2 _ refl polls(1)] by (auto simp: fun_upd_def)
  have "node_reachable ?I (node_start ?I 1 (messages_new pair_first) ?mh) n"
    using net_reachable_inv [OF pair_net_ok n(1) [unfolded pair_net_def]] by (simp add: net_inv_def net_start_def)
  moreover have "start_ok ?I 1 (messages_new pair_first) ?mh" using net_start_okD(4) [OF pair_net_ok, of pair_first] by simp
  ultimately have "node_inv ?I 1 n" by (intro reachable_inv)
  moreover have "\<not> exited (nd_pc n)" by (simp add: n(2) exited_def)
  ultimately have "store_wf (nd_store n)" by (intro store_invD(1) live_inv(3))
  then obtain n4 n' where n': "net_reachable pair_ibft ?H 1 pair_delivery pair_net (net(pair_first := n4))" "run_step ?I False n4 = Some n'"
    "nd_pc n' = RunExit (Some (finalized_block_new (ps_block ?p) seals))" "nd_blocks n' = [finalized_block_new (ps_block ?p) seals]"
    "nd_sent n' = nd_sent n" "nd_view n' = nd_view n"
    using scheduled.scheduled_finish [OF sch n(1,2,8) polls(2) n(6)] n(3,4,7) polls(3) height by (auto simp: view_new_def fun_upd_def)
  have "net_step pair_ibft ?H 1 pair_delivery (net(pair_first := n4)) ((net(pair_first := n4))(pair_first := n'))"
    by (rule net_step.internal) (use n'(2) in \<open>auto intro: node_builds.run\<close>)
  from net_reachable.step [OF n'(1) this] show thesis
    using n(3,5) n'(3-6) polls(4) by (intro that [of "net(pair_first := n')"]) (simp_all add: finalized_block_new_def)
qed

theorem network_agreement_witness:
  "\<exists>net b d. net_reachable pair_ibft {pair_first, pair_second} 1 pair_delivery pair_net net \<and> nd_blocks (net pair_first) = [b] \<and>
     d \<in> set (precommits (view_new 1 0) (nd_sent (net pair_first))) \<and>
     d = digest_block sample_externals (final_raw_block b) (proof_round (final_proof b))"
proof -
  obtain net b q c where net: "net_reachable pair_ibft {pair_first, pair_second} 1 pair_delivery pair_net net" "nd_blocks (net pair_first) = [b]"
    "nd_view (net pair_first) = view_new 1 0" "nd_sent (net pair_first) = [Prepare q, Commit c]" "cm_view c = view_new 1 0"
    by (rule pair_finished)
  have "{pair_first, pair_second} = set (mock_validators pair_mock) - {}" by simp
  note agree = network_agreement [where m = pair_mock and faulty = "{}", OF _ _ this pair_net_ok net(1) [unfolded pair_net_def], of pair_first pair_first]
  have "cm_digest c = digest_block sample_externals (final_raw_block b) (proof_round (final_proof b))"
    using agree net(2-5) by simp
  then show ?thesis using net by (intro exI [of _ net] exI [of _ b] exI [of _ "cm_digest c"]) simp
qed

end
