(* ===== verification/Message_Closure.thy ===== *)
theory Message_Closure
  imports Vote_Provenance
begin

text \<open>
  A node passes on what it was given. Let \<open>P\<close> be a property of messages that the node's own
  messages inherit from those they are made of: a round change from the proposal and the prepares in
  its certificate, a later proposal from the round changes in its certificate. If all messages the
  handler is given have the property, then so do all messages the node stores and sends. The
  locale \<open>closed_messages\<close> states the inheritance and proves this once; its instances are the
  votes inside certificates (\<open>Validity\<close>) and the heights of messages (\<open>Simulation\<close>).
\<close>

subsection \<open>Contents\<close>

definition store_all :: "(ibft_message \<Rightarrow> bool) \<Rightarrow> consensus_messages \<Rightarrow> bool" where
  "store_all P s \<longleftrightarrow>
     (\<forall>v p. proposal_at s v = Some p \<longrightarrow> P (Proposal p)) \<and>
     (\<forall>v a q. (a, q) \<in> set (prepares_at s v) \<longrightarrow> P (Prepare q)) \<and>
     (\<forall>v a c. (a, c) \<in> set (commits_at s v) \<longrightarrow> P (Commit c)) \<and>
     (\<forall>v a rc b. (a, (rc, b)) \<in> set (round_changes_at s v) \<longrightarrow> P (RoundChange rc))"

text \<open>The certificate of a proposal was assembled from such round changes, that of a round change from such votes.\<close>

definition certified :: "(ibft_message \<Rightarrow> bool) \<Rightarrow> round_change_certificate option \<Rightarrow> bool" where
  "certified P rcc \<longleftrightarrow>
     (\<forall>c. rcc = Some c \<longrightarrow> (\<forall>x \<in> set (rcc_messages c). \<exists>rc. P (RoundChange rc) \<and> x = snd (rc_into_metadata rc)))"

definition backs :: "(ibft_message \<Rightarrow> bool) \<Rightarrow> round_change_message \<Rightarrow> bool" where
  "backs P m \<longleftrightarrow>
     (\<forall>pp. rc_prepared m = Some pp \<longrightarrow>
        (\<exists>p qs. pp = prepared_proposed_new p qs \<and> P (Proposal p) \<and> (\<forall>q \<in> set qs. P (Prepare q))))"

text \<open>A block the node has built, or one out of such a round change.\<close>

definition sourced :: "(ibft_message \<Rightarrow> bool) \<Rightarrow> (bytes \<Rightarrow> bool) \<Rightarrow> bytes \<Rightarrow> bool" where
  "sourced P built raw \<longleftrightarrow>
     built raw \<or> (\<exists>rc pp. P (RoundChange rc) \<and> rcs_prepared rc = Some pp \<and> raw = raw_block (pp_block pp))"

definition pc_closed :: "(ibft_message \<Rightarrow> bool) \<Rightarrow> (bytes \<Rightarrow> bool) \<Rightarrow> round_pc \<Rightarrow> bool" where
  "pc_closed P built pc =
     (case pc of
        BroadcastProposal p \<Rightarrow> certified P (proposal_rcc (proposal_message p)) \<and> sourced P built (raw_block (ps_block p))
      | AddProposal p \<Rightarrow> P (Proposal p)
      | AddPrepare q \<Rightarrow> P (Prepare q)
      | _ \<Rightarrow> True)"

definition run_closed :: "(ibft_message \<Rightarrow> bool) \<Rightarrow> run_pc \<Rightarrow> bool" where
  "run_closed P pc =
     (case pc of RunTakePrepares p \<Rightarrow> P (Proposal p) | RunBroadcastRc rc \<Rightarrow> backs P (rc_message rc) | _ \<Rightarrow> True)"

definition blocks_closed :: "(ibft_message \<Rightarrow> bool) \<Rightarrow> node \<Rightarrow> bool" where
  "blocks_closed P n \<longleftrightarrow> (\<forall>b \<in> node_blocks n. \<exists>p. P (Proposal p) \<and> final_raw_block b = raw_block (ps_block p))"

definition node_closed :: "(ibft_message \<Rightarrow> bool) \<Rightarrow> (bytes \<Rightarrow> bool) \<Rightarrow> node \<Rightarrow> bool" where
  "node_closed P built n \<longleftrightarrow>
     store_all P (nd_store n) \<and> (\<forall>t \<in> set (nd_rounds n). pc_closed P built (rt_pc t)) \<and> run_closed P (nd_pc n) \<and>
     (\<forall>rc. nd_latest n = Some rc \<longrightarrow> backs P (rc_message rc)) \<and> (\<forall>m \<in> set (nd_sent n). P m) \<and> blocks_closed P n"

lemma node_closedD:
  assumes "node_closed P built n"
  shows "store_all P (nd_store n)" and "t \<in> set (nd_rounds n) \<Longrightarrow> pc_closed P built (rt_pc t)" and "run_closed P (nd_pc n)"
    and "nd_latest n = Some rc \<Longrightarrow> backs P (rc_message rc)" and "m \<in> set (nd_sent n) \<Longrightarrow> P m"
    and "blocks_closed P n"
  using assms unfolding node_closed_def by blast+

lemma node_closed_mono:
  assumes "\<And>m. P m \<Longrightarrow> Q m" and "node_closed P built n"
  shows "node_closed Q built n"
proof -
  have c: "certified P rcc \<Longrightarrow> certified Q rcc" for rcc
    unfolding certified_def using assms(1) by blast
  have b: "backs P rc \<Longrightarrow> backs Q rc" for rc
    unfolding backs_def using assms(1) by blast
  have s: "store_all P s \<Longrightarrow> store_all Q s" for s
    unfolding store_all_def using assms(1) by blast
  have r: "sourced P built raw \<Longrightarrow> sourced Q built raw" for raw
    unfolding sourced_def using assms(1) by blast
  have "pc_closed P built pc \<Longrightarrow> pc_closed Q built pc" and "run_closed P rpc \<Longrightarrow> run_closed Q rpc" for pc rpc
    using assms(1) c b r by (auto simp: pc_closed_def run_closed_def split: round_pc.splits run_pc.splits)
  moreover have "blocks_closed P n \<Longrightarrow> blocks_closed Q n"
    unfolding blocks_closed_def using assms(1) by blast
  ultimately show ?thesis using assms b s unfolding node_closed_def by blast
qed

subsection \<open>The store\<close>

lemma store_allI:
  assumes "\<And>v p. proposal_at s v = Some p \<Longrightarrow> P (Proposal p)"
    and "\<And>v a q. (a, q) \<in> set (prepares_at s v) \<Longrightarrow> P (Prepare q)"
    and "\<And>v a c. (a, c) \<in> set (commits_at s v) \<Longrightarrow> P (Commit c)"
    and "\<And>v a rc b. (a, (rc, b)) \<in> set (round_changes_at s v) \<Longrightarrow> P (RoundChange rc)"
  shows "store_all P s"
  using assms unfolding store_all_def by blast

lemma store_allD:
  assumes "store_all P s"
  shows "proposal_at s v = Some p \<Longrightarrow> P (Proposal p)" and "(a, q) \<in> set (prepares_at s v) \<Longrightarrow> P (Prepare q)"
    and "(a, c) \<in> set (commits_at s v) \<Longrightarrow> P (Commit c)"
    and "(a, (rc, b)) \<in> set (round_changes_at s v) \<Longrightarrow> P (RoundChange rc)"
  using assms unfolding store_all_def by blast+

lemma store_all_queries:
  assumes "store_wf s" and "store_all P s"
  shows "store_all P (snd (get_valid_proposal_digest v f s))"
    and "store_all P (snd (take_proposal_message v s))"
    and "store_all P (snd (get_valid_prepare_count v g s))"
    and "store_all P (snd (take_valid_prepare_messages v g s))"
    and "store_all P (snd (take_valid_commit_seals v k q s))"
    and "store_all P (snd (take_valid_round_change_messages v l q s))"
    and "store_all P (snd (get_valid_round_change_count v l s))"
    and "store_all P (snd (has_proposal_by_round h s))"
    and "store_all P (snd (round_change_count_by_round h s))"
    and "store_all P (messages_prune h s)"
  by (rule store_allI; use store_allD [OF assms(2)] in
      \<open>auto simp: store_laws assms(1) Let_def split: if_splits dest!: retain_round_changes_mem\<close>)+

lemma store_all_adds:
  assumes "store_wf s" and "store_all P s"
  shows "P (Proposal p) \<Longrightarrow> store_all P (add_proposal_message p a s)"
    and "P (Prepare q) \<Longrightarrow> store_all P (add_prepare_message q a s)"
    and "P (Commit c) \<Longrightarrow> store_all P (add_commit_message c a s)"
    and "P (RoundChange rc) \<Longrightarrow> store_all P (add_round_change_message rc a s)"
  by (rule store_allI; use store_allD [OF assms(2)] in \<open>auto simp: store_laws assms(1) split: if_splits\<close>)+

lemma store_all_handler:
  assumes "store_wf s" and "store_all P s" and "P m"
  shows "store_all P (snd (handle_consensus_message E V mh m s))"
  using assms(2,3) store_all_adds [OF assms(1,2)] by (cases m) (auto simp: Let_def split: sum.split)

lemma store_all_reordered:
  assumes "reordered s s'" and "store_all P s"
  shows "store_all P s'"
proof -
  have "set (prepares_at s' v) = set (prepares_at s v)" "set (commits_at s' v) = set (commits_at s v)"
    "set (round_changes_at s' v) = set (round_changes_at s v)" for v
    using assms(1) unfolding reordered_def by (meson mset_eq_setD)+
  moreover have "proposal_at s' = proposal_at s"
    using assms(1) by (simp add: reordered_def fun_eq_iff proposal_at_def)
  ultimately show ?thesis using assms(2) by (simp add: store_all_def)
qed

lemma store_all_monitor:
  assumes "store_wf s" and "store_all P s" and "monitor_step I ev m s = Some (m', s')"
  shows "store_all P s'"
proof -
  note queries = store_all_queries [OF assms(1,2)]
  have "store_all P s'" if "proposal_monitor_poll I v pc s = Some (pc', s')" for v pc pc'
    using that assms(2) queries(1,8)
    by (cases pc; auto simp: proposal_monitor_poll_def Let_def case_prod_unfold split: option.splits list.splits)
  moreover have "store_all P s'" if "rcc_monitor_poll I v pc s = Some (pc', s')" for v pc pc'
    using that assms(2) queries(7,9)
    by (cases pc; auto simp: rcc_monitor_poll_def Let_def case_prod_unfold split: option.splits list.splits)
  ultimately show ?thesis
    using assms(2,3) by (cases ev) (auto split: monitor_kind.splits monitor_pc.splits)
qed

subsection \<open>Certificates\<close>

lemma certified_None [simp]: "certified P None"
  by (simp add: certified_def)

lemma assembled_certified:
  assumes "assemble_rcc rcs = Some (rcc, raw)" and "\<And>rc. rc \<in> set rcs \<Longrightarrow> P (RoundChange rc)"
  shows "certified P (Some rcc)"
proof -
  have "rcs ! pos \<in> set rcs \<and> set (butlast (rcs[pos := last rcs])) \<subseteq> set rcs"
    if "position (\<lambda>rc. rcs_prepared rc \<noteq> None) rcs = Some pos" for pos
  proof -
    have pos: "pos < length rcs" using position_Some [OF that] by blast
    then have "last rcs \<in> set rcs" by (intro last_in_set) auto
    then show ?thesis using pos set_update_subset_insert [of rcs pos "last rcs"] by (auto dest!: in_set_butlastD)
  qed
  then have "\<exists>rc. rc \<in> set rcs \<and> x = snd (rc_into_metadata rc)" if "x \<in> set (rcc_messages rcc)" for x
    using assms(1) that
    by (fastforce simp: assemble_rcc_def swap_remove_def Let_def split: option.splits prod.splits)
  then show ?thesis unfolding certified_def using assms(2) by blast
qed

lemma assembled_block:
  assumes "assemble_rcc rcs = Some (rcc, Some raw)"
  shows "\<exists>rc pp. rc \<in> set rcs \<and> rcs_prepared rc = Some pp \<and> raw = raw_block (pp_block pp)"
proof -
  obtain pos where pos: "position (\<lambda>rc. rcs_prepared rc \<noteq> None) rcs = Some pos"
    using assms by (auto simp: assemble_rcc_def split: option.splits)
  then have "rcs ! pos \<in> set rcs" using position_Some nth_mem by blast
  moreover have "\<exists>pp. rcs_prepared (rcs ! pos) = Some pp \<and> raw = raw_block (pp_block pp)"
    using assms pos by (auto simp: assemble_rcc_def swap_remove_def rc_into_metadata_def split: option.splits prod.splits)
  ultimately show ?thesis by blast
qed

lemma taken_round_changes:
  assumes "store_wf s" and "store_all P s"
    and "fst (take_valid_round_change_messages v f q s) = (Some rcs, k)" and "rc \<in> set rcs"
  shows "P (RoundChange rc)"
  using assms(3,4) store_allD(4) [OF assms(2)]
  by (auto simp: take_valid_round_change_laws(1) [OF assms(1)] Let_def split: if_splits dest!: retain_round_changes_mem)

subsection \<open>Tasks\<close>

lemma pc_closed_simps [simp]:
  "pc_closed P built Start" "pc_closed P built QueryRcc" "pc_closed P built (RecvRcc k)" "pc_closed P built QueryProposal" "pc_closed P built RecvProposal"
  "pc_closed P built RequeryProposal" "pc_closed P built (BroadcastPrepare q)" "pc_closed P built (QueryPrepare d)" "pc_closed P built (RecvPrepare d k)"
  "pc_closed P built (BroadcastCommit c)" "pc_closed P built (AddCommit c)" "pc_closed P built (QueryCommit d)" "pc_closed P built (RecvCommit d k)"
  "pc_closed P built (RoundDone seals)" "pc_closed P built (RoundFailed e)" "pc_closed P built RoundPanicked"
  "pc_closed P built (BroadcastProposal p) \<longleftrightarrow> certified P (proposal_rcc (proposal_message p)) \<and> sourced P built (raw_block (ps_block p))"
  "pc_closed P built (AddProposal p) \<longleftrightarrow> P (Proposal p)" "pc_closed P built (AddPrepare q) \<longleftrightarrow> P (Prepare q)"
  by (simp_all add: pc_closed_def)

lemma propose_closed: "certified P rcc \<Longrightarrow> sourced P built raw \<Longrightarrow> pc_closed P built (propose I v raw rcc)"
  by (auto simp: propose_def proposal_into_signed_def proposal_new_def Let_def split: option.split)

lemma votes_closed:
  "pc_closed P built (vote_prepare I v d)" "pc_closed P built (prepares_counted I v d k)" "pc_closed P built (commits_taken I v d res)"
  by (auto simp: vote_prepare_def vote_commit_def prepares_counted_def commits_taken_def split: option.split prod.split)

lemma start_closed: "(\<And>raw. b = Inr raw \<Longrightarrow> built raw) \<Longrightarrow> pc_closed P built (run_ibft_round_start I st b)"
  by (auto simp: run_ibft_round_start_def run_proposal_0_start_def run_proposal_1_start_def build_and_propose_def sourced_def
      intro!: propose_closed split: sum.split)

lemma queried_closed: "pc_closed P built missing \<Longrightarrow> pc_closed P built (proposal_queried I v missing res)"
  by (auto simp: proposal_queried_def votes_closed split: option.split sum.split)

lemma rcc_closed:
  assumes "\<And>rcs rc. fst res = Some rcs \<Longrightarrow> rc \<in> set rcs \<Longrightarrow> P (RoundChange rc)" and "\<And>raw. b = Inr raw \<Longrightarrow> built raw"
  shows "pc_closed P built (wait_rcc_taken I v b res)"
proof -
  have "pc_closed P built (propose I v raw (Some rcc))"
    if "fst res = Some rcs" "assemble_rcc rcs = Some (rcc, x)" "built raw \<or> x = Some raw" for rcs raw rcc x
  proof (rule propose_closed)
    show "certified P (Some rcc)" by (rule assembled_certified [OF that(2)]) (use assms(1) that(1) in blast)
    show "sourced P built raw"
      using that(2,3) assembled_block [of rcs rcc raw] assms(1) [OF that(1)] unfolding sourced_def by blast
  qed
  then show ?thesis
    using assms(2) by (cases res) (auto simp: wait_rcc_taken_def build_and_propose_def split: option.splits sum.split bind_splits)
qed

text \<open>What the run loop makes of the messages it holds.\<close>

lemma run_closed_simps [simp]:
  "run_closed P (RunStart r)" "run_closed P RunSpawnRound" "run_closed P (RunSelect k)" "run_closed P (RunFinish seals)"
  "run_closed P (RunBroadcastBlock b)" "run_closed P RunTimeout" "run_closed P RunTakeProposal" "run_closed P (RunReturn r')"
  "run_closed P (RunPrune b)" "run_closed P (RunExit r')" "run_closed P RunPanicked"
  "run_closed P (RunTakePrepares p) \<longleftrightarrow> P (Proposal p)" "run_closed P (RunBroadcastRc rc) \<longleftrightarrow> backs P (rc_message rc)"
  by (simp_all add: run_closed_def)

lemma handle_timeout_closed:
  assumes "\<And>rc. nd_latest n = Some rc \<Longrightarrow> backs P (rc_message rc)"
  shows "run_closed P (nd_pc (handle_timeout I n))"
proof -
  have "run_closed P (broadcast_rc (rc_update_and_resign E rc r sg))" if "nd_latest n = Some rc" for E rc r sg
    using assms [OF that] by (auto simp: broadcast_rc_def rc_update_and_resign_def Let_def backs_def split: option.split)
  moreover have "run_closed P (broadcast_rc (rc_into_signed E (rc_new v None) sg))" for E v sg
    by (auto simp: broadcast_rc_def rc_into_signed_def rc_new_def backs_def split: option.split)
  ultimately show ?thesis
    by (simp add: handle_timeout_def Let_def split: list.split option.split run_state.split)
qed

lemma take_prepares_closed:
  assumes "store_wf (nd_store n)" and "store_all P (nd_store n)" and "P (Proposal p)"
  shows "run_closed P (nd_pc (timeout_take_prepares I p n))"
proof -
  have "\<forall>q \<in> set (fst (take_valid_prepare_messages (nd_view n) f (nd_store n))). P (Prepare q)" for f
    using store_allD(2) [OF assms(2)] by (auto simp: take_valid_prepare_laws(1) [OF assms(1)])
  then show ?thesis
    using assms(3)
    by (auto simp: timeout_take_prepares_def Let_def case_prod_unfold broadcast_rc_def rc_into_signed_def rc_new_def backs_def
        split: option.split)
qed

lemma run_step_blocks_closed:
  assumes "blocks_inv n" and "store_wf (nd_store n)" and "store_all P (nd_store n)" and "blocks_closed P n"
    and "run_step I ready n = Some n'"
  shows "blocks_closed P n'"
proof -
  have "\<exists>p. P (Proposal p) \<and> final_raw_block b = raw_block (ps_block p)"
    if "nd_pc (handle_round_finish seals n) = RunBroadcastBlock b" for seals b
    using that store_allD(1) [OF assms(3)] take_proposal_laws(1) [OF assms(2), of "nd_view n"]
    by (force simp: handle_round_finish_def finalized_block_new_def case_prod_unfold split: option.splits)
  then show ?thesis using assms(4) run_blocks [OF assms(1,5)] unfolding blocks_closed_def by blast
qed

lemma blocks_closed_same:
  assumes "nd_blocks n' = nd_blocks n" and "nd_pc n' = nd_pc n"
  shows "blocks_closed P n' = blocks_closed P n"
  using assms by (simp add: blocks_closed_def node_blocks_def)

locale closed_messages =
  fixes I :: ibft and h :: u64 and P :: "ibft_message \<Rightarrow> bool" and built :: "bytes \<Rightarrow> bool" and sent :: "ibft_message set"
  assumes proposal: "own_proposal I v p \<Longrightarrow> view_height v = h \<Longrightarrow> Proposal p \<in> sent \<Longrightarrow>
      certified P (proposal_rcc (proposal_message p)) \<Longrightarrow> sourced P built (raw_block (ps_block p)) \<Longrightarrow> P (Proposal p)"
    and prepare: "own_prepare I v q \<Longrightarrow> view_height v = h \<Longrightarrow> Prepare q \<in> sent \<Longrightarrow> P (Prepare q)"
    and commit: "own_commit I v c \<Longrightarrow> view_height v = h \<Longrightarrow> P (Commit c)"
    and round_change: "view_height (rcs_view rc) = h \<Longrightarrow> backs P (rc_message rc) \<Longrightarrow> P (RoundChange rc)"
begin

lemma round_step_closed:
  assumes "store_inv I s" and "store_all P s" and "round_auth I h t" and "pc_closed P built (rt_pc t)"
    and "round_step I ev t s = Some (t', s', msgs)" and "set msgs \<subseteq> sent"
    and "\<And>raw. ev = Poll (Inr raw) \<Longrightarrow> built raw"
  shows "store_all P s' \<and> pc_closed P built (rt_pc t') \<and> (\<forall>m \<in> set msgs. P m)"
proof (cases ev)
  case (Poll b)
  note wf = store_invD(1) [OF assms(1)]
  note queries = store_all_queries [OF wf assms(2)] and adds = store_all_adds [OF wf assms(2)]
    and simps = Let_def rt_goto_def rt_enter_def shared_run_state_update_def case_prod_unfold
  have own: "view_height (rt_view t) = h" "pc_auth I (rt_view t) (srs_run_state (rt_state t)) (rt_pc t)"
    using assms(3) by (simp_all add: round_auth_def)
  have poll: "round_poll I b t s = Some (t', s', msgs)" using assms(5) Poll by simp
  have built: "b = Inr raw \<Longrightarrow> built raw" for raw using assms(7) Poll by simp
  show ?thesis
  proof (cases "rt_pc t")
    case QueryRcc
    have "pc_closed P built (wait_rcc_taken I v b (fst (take_valid_round_change_messages v f q s)))" for v f q
      by (rule rcc_closed, rule taken_round_changes [OF wf assms(2)]) (auto simp: prod_eq_iff built)
    then show ?thesis using poll QueryRcc queries(6) by (auto simp: round_poll_def simps)
  next
    case (BroadcastProposal p)
    then show ?thesis
      using poll own assms(2,4,6) proposal [of "rt_view t" p] by (auto simp: round_poll_def simps pc_auth_def)
  next
    case (BroadcastPrepare q)
    then show ?thesis using poll own assms(2,6) prepare [of "rt_view t" q] by (auto simp: round_poll_def simps pc_auth_def)
  next
    case (BroadcastCommit c)
    then show ?thesis using poll own assms(2) commit [of "rt_view t" c] by (auto simp: round_poll_def simps pc_auth_def)
  next
    case (AddCommit c)
    then show ?thesis using poll own adds(3) commit [of "rt_view t" c] by (auto simp: round_poll_def simps pc_auth_def)
  qed (use poll assms(2,4) queries(1,3,5) adds(1,2) in
      \<open>auto simp: round_poll_def simps start_closed [OF built] queried_closed votes_closed\<close>)
next
  case (Recv w)
  then show ?thesis
    using assms(2,4,5) by (cases "rt_pc t") (auto simp: round_recv_def counted_recv_def Let_def rt_goto_def)
next
  case RecvError
  then show ?thesis using assms(2,5) by (auto simp: rt_goto_def split: if_splits)
qed

lemma run_step_closed:
  assumes "node_inv I h n" and "blocks_inv n" and "store_inv I (nd_store n)" and "node_closed P built n" and "run_step I ready n = Some n'"
  shows "node_closed P built n'"
proof -
  note wf = store_invD(1) [OF assms(3)] and closed = node_closedD [OF assms(4)]
  note queries = store_all_queries [OF wf closed(1)]
  note blocks = run_step_blocks_closed [OF assms(2) wf closed(1,6) assms(5)]
  show ?thesis
  proof (cases "nd_pc n")
    case RunSpawnRound
    have "view_height (nd_view n) = h" using assms(1) by (simp add: node_inv_def)
    then have "store_all P (add_round_change_message (rc_clone rc) a (nd_store n))" if "nd_latest n = Some rc" "rcs_view rc = nd_view n" for rc a
      using that closed(4) round_change [of rc] by (intro store_all_adds(4) [OF wf closed(1)]) (simp add: rc_clone_id)
    then show ?thesis
      using blocks assms(4,5) RunSpawnRound
      by (auto simp: node_closed_def run_step_def start_ibft_round_def Let_def round_task_new_def split: option.split)
  next
    case (RunSelect k)
    have "run_closed P (nd_pc (run_select k ready n))" by (rule run_select_rule) simp_all
    then show ?thesis using blocks assms(4,5) RunSelect by (auto simp: node_closed_def run_step_def run_select_def)
  next
    case RunTimeout
    have "run_closed P (nd_pc (handle_timeout I n))" by (rule handle_timeout_closed) (rule closed(4))
    then show ?thesis using blocks assms(4,5) RunTimeout by (auto simp: node_closed_def run_step_def handle_timeout_def Let_def)
  next
    case (RunTakePrepares p)
    have "run_closed P (nd_pc (timeout_take_prepares I p n))"
      using closed(3) RunTakePrepares by (intro take_prepares_closed [OF wf closed(1)]) simp
    then show ?thesis
      using blocks assms(4,5) RunTakePrepares queries(4)
      by (auto simp: node_closed_def run_step_def timeout_take_prepares_def Let_def case_prod_unfold)
  next
    case (RunBroadcastRc rc)
    have "view_height (rcs_view rc) = h"
      using live_inv(1,7) [OF assms(1)] RunBroadcastRc by (auto simp: exited_def pc_inv_def own_round_change_def)
    then show ?thesis
      using blocks assms(4,5) RunBroadcastRc round_change [of rc] by (auto simp: node_closed_def run_step_def)
  next
    case (RunReturn r)
    then show ?thesis using blocks assms(4,5) by (auto simp: node_closed_def run_step_def split: option.splits)
  qed (use blocks assms(4,5) queries(2,10) store_allD(1) [OF closed(1)] take_proposal_laws(1) [OF wf] in
      \<open>auto simp: node_closed_def run_step_def run_loop_top_def handle_round_finish_def timeout_take_proposal_def handler_prune_def
        Let_def case_prod_unfold split: option.splits if_splits\<close>)
qed

text \<open>Every step a node takes by itself.\<close>

lemma internal_closed:
  assumes "node_builds I built n n'" and "node_inv I h n" and "blocks_inv n" and "node_votes (\<lambda>_ _ _. True) I h n" and "node_closed P built n"
    and "set (nd_sent n') \<subseteq> sent"
  shows "node_closed P built n'"
  using assms(1)
proof cases
  case (round i ev t s msgs)
  note votes = node_votesD [OF assms(4)] and closed = node_closedD [OF assms(5)]
  have mem: "nd_rounds n ! i \<in> set (nd_rounds n)" using round(2) by simp
  have "set msgs \<subseteq> sent" using assms(6) round(1) by simp
  then have step: "store_all P s \<and> pc_closed P built (rt_pc t) \<and> (\<forall>m \<in> set msgs. P m)"
    using round_step_closed [OF votes(1) closed(1) votes(3) [OF mem] closed(2) [OF mem] round(4)] round(5) by blast
  have "pc_closed P built (rt_pc u)" if "u \<in> set ((nd_rounds n)[i := t])" for u
    using that set_update_subset_insert [of "nd_rounds n" i t] step closed(2) by blast
  then show ?thesis using step closed(3-6) round(1) blocks_closed_same [of n' n P] by (auto simp: node_closed_def)
next
  case (proposal_monitor i ev m s)
  then show ?thesis
    using assms(5) store_all_monitor [OF store_invD(1) [OF node_votesD(1) [OF assms(4)]] node_closedD(1) [OF assms(5)]]
      blocks_closed_same [of n' n P] by (auto simp: node_closed_def)
next
  case (rcc_monitor i ev m s)
  then show ?thesis
    using assms(5) store_all_monitor [OF store_invD(1) [OF node_votesD(1) [OF assms(4)]] node_closedD(1) [OF assms(5)]]
      blocks_closed_same [of n' n P] by (auto simp: node_closed_def)
next
  case (run ready)
  then show ?thesis using run_step_closed [OF assms(2,3) node_votesD(1) [OF assms(4)] assms(5)] by blast
next
  case (reorder s)
  then show ?thesis using assms(5) store_all_reordered blocks_closed_same [of n' n P] by (auto simp: node_closed_def)
qed

end

text \<open>A message that is delivered.\<close>

lemma deliver_closed:
  assumes "store_inv I (nd_store n)" and "node_closed P built n" and "P m"
  shows "node_closed P built (node_deliver I m n)"
  using store_all_handler [OF store_invD(1) [OF assms(1)] node_closedD(1) [OF assms(2)] assms(3)] assms(2)
  using blocks_closed_same [of "node_deliver I m n" n P] by (simp add: node_closed_def node_deliver_def)

lemma node_start_closed: "store_all P s \<Longrightarrow> node_closed P built (node_start I h s mh)"
  by (simp add: node_closed_def node_start_def blocks_closed_def node_blocks_def)

end
