(* ===== verification/Justified_Votes.thy ===== *)
theory Justified_Votes
  imports Message_Closure
begin

text \<open>
  Why a node prepares. Behind every prepare a node sends there is a proposal for that view and digest which the
  node's verification has accepted, now or earlier: the store remembers that a proposal was accepted, and the
  invariant says that it remembers rightly. The proposal has the property \<open>P\<close> of all messages in the
  store.
\<close>

definition store_verified :: "ibft \<Rightarrow> u64 \<Rightarrow> consensus_messages \<Rightarrow> bool" where
  "store_verified I h s \<longleftrightarrow>
     (\<forall>v p. view_height v = h \<longrightarrow> \<not> is_proposer (ibft_validators I) (self_of I) v \<longrightarrow> proposal_at s v = Some p \<longrightarrow>
        verification_at s v = Some (Inr ()) \<longrightarrow> proposal_verify_fn I v p = Inr ())"

definition justified :: "(ibft_message \<Rightarrow> bool) \<Rightarrow> ibft \<Rightarrow> view \<Rightarrow> bytes \<Rightarrow> bool" where
  "justified P I v d \<longleftrightarrow>
     (\<exists>p. P (Proposal p) \<and> ps_view p = v \<and> ps_digest p = d \<and> proposal_verify_fn I v p = Inr ())"

definition pc_justified :: "(ibft_message \<Rightarrow> bool) \<Rightarrow> ibft \<Rightarrow> view \<Rightarrow> round_pc \<Rightarrow> bool" where
  "pc_justified P I v pc = (case pc of BroadcastPrepare q \<Rightarrow> justified P I v (pr_digest q) | _ \<Rightarrow> True)"

definition node_justified :: "(ibft_message \<Rightarrow> bool) \<Rightarrow> ibft \<Rightarrow> u64 \<Rightarrow> node \<Rightarrow> bool" where
  "node_justified P I h n \<longleftrightarrow>
     store_verified I h (nd_store n) \<and> (\<forall>t \<in> set (nd_rounds n). pc_justified P I (rt_view t) (rt_pc t)) \<and>
     (\<forall>q. Prepare q \<in> set (nd_sent n) \<longrightarrow> justified P I (pr_view q) (pr_digest q))"

lemma node_justifiedD:
  assumes "node_justified P I h n"
  shows "store_verified I h (nd_store n)" and "t \<in> set (nd_rounds n) \<Longrightarrow> pc_justified P I (rt_view t) (rt_pc t)"
    and "Prepare q \<in> set (nd_sent n) \<Longrightarrow> justified P I (pr_view q) (pr_digest q)"
  using assms unfolding node_justified_def by blast+

lemma node_justified_mono:
  assumes "\<And>m. P m \<Longrightarrow> Q m" and "node_justified P I h n"
  shows "node_justified Q I h n"
proof -
  have j: "justified P I v d \<Longrightarrow> justified Q I v d" for v d
    unfolding justified_def using assms(1) by blast
  then have "pc_justified P I v pc \<Longrightarrow> pc_justified Q I v pc" for v pc
    by (cases pc) (simp_all add: pc_justified_def)
  then show ?thesis using assms(2) j unfolding node_justified_def by blast
qed

subsection \<open>The store\<close>

text \<open>Only a query verifies, with the verification of the view; a node marks its own proposals as accepted without one.\<close>

lemma store_verifiedI:
  assumes "\<And>v p. view_height v = h \<Longrightarrow> \<not> is_proposer (ibft_validators I) (self_of I) v \<Longrightarrow> proposal_at s v = Some p \<Longrightarrow>
      verification_at s v = Some (Inr ()) \<Longrightarrow> proposal_verify_fn I v p = Inr ()"
  shows "store_verified I h s"
  using assms unfolding store_verified_def by blast

lemma store_verifiedD:
  assumes "store_verified I h s" and "view_height v = h" and "\<not> is_proposer (ibft_validators I) (self_of I) v"
    and "proposal_at s v = Some p" and "verification_at s v = Some (Inr ())"
  shows "proposal_verify_fn I v p = Inr ()"
  using assms unfolding store_verified_def by blast

lemma verified_query:
  assumes "store_wf s" and "store_verified I h s" and "view_round v \<noteq> 0 \<Longrightarrow> f = proposal_verify_fn I v"
  shows "store_verified I h (snd (get_valid_proposal_digest v f s))"
  by (rule store_verifiedI) (use assms(3) store_verifiedD [OF assms(2)] in
      \<open>auto simp: store_laws assms(1) split: if_splits\<close>)

lemma verified_others:
  assumes "store_wf s" and "store_verified I h s"
  shows "store_verified I h (snd (get_valid_prepare_count v g s))"
    and "store_verified I h (snd (take_valid_prepare_messages v g s))"
    and "store_verified I h (snd (take_valid_commit_seals v k q s))"
    and "store_verified I h (snd (take_valid_round_change_messages v l q s))"
    and "store_verified I h (snd (get_valid_round_change_count v l s))"
    and "store_verified I h (snd (has_proposal_by_round h' s))"
    and "store_verified I h (snd (round_change_count_by_round h' s))"
    and "store_verified I h (messages_prune h' s)"
    and "store_verified I h (add_prepare_message r a s)"
    and "store_verified I h (add_commit_message c a s)"
    and "store_verified I h (add_round_change_message rc a s)"
  by (rule store_verifiedI; use store_verifiedD [OF assms(2)] in \<open>auto simp: store_laws assms(1) split: if_splits\<close>)+

lemma verified_take_proposal:
  assumes "store_wf s" and "store_verified I h s"
  shows "store_verified I h (snd (take_proposal_message v s))"
  by (rule store_verifiedI) (use store_verifiedD [OF assms(2)] take_proposal_verification [OF assms(1)] in
      \<open>auto simp: store_laws assms(1) split: if_splits\<close>)

lemma verified_add_proposal:
  assumes "store_wf s" and "store_verified I h s" and "self_address s = self_of I"
    and "a = self_of I \<Longrightarrow> is_proposer (ibft_validators I) (self_of I) (ps_view p)"
  shows "store_verified I h (add_proposal_message p a s)"
  by (rule store_verifiedI) (use store_verifiedD [OF assms(2)] assms(3,4) in
      \<open>auto simp: store_laws assms(1) split: if_splits\<close>)

lemma verified_handler:
  assumes "store_inv I s" and "store_verified I h s"
  shows "store_verified I h (snd (handle_consensus_message E (ibft_validators I) mh m s))"
  using assms(2) verified_others(9-11) [OF store_invD(1) [OF assms(1)] assms(2)]
  by (cases m) (auto simp: Let_def split: sum.split
      intro!: verified_add_proposal [OF store_invD(1) [OF assms(1)] assms(2) store_invD(3) [OF assms(1)]])

lemma verified_reordered:
  assumes "reordered s s'" and "store_verified I h s"
  shows "store_verified I h s'"
  using assms by (auto simp: reordered_def store_verified_def proposal_at_def verification_at_def)

lemma verified_monitor:
  assumes "store_wf s" and "store_verified I h s" and "monitor_auth h m" and "monitor_step I ev m s = Some (m', s')"
  shows "store_verified I h s'"
proof -
  note others = verified_others [OF assms(1,2)]
  have query: "store_verified I h (snd (get_valid_proposal_digest w
      (proposal_1_verify_fn (ibft_externals I) (ibft_validators I) (ibft_blocks I) (quorum_of I v)) s))"
    if "view_height w = view_height v" for v w
    using that by (intro verified_query [OF assms(1,2)]) (auto simp: proposal_verify_fn_def)
  have v: "view_height (mt_view m) = h" using assms(3) by (simp add: monitor_auth_def Let_def)
  have "store_verified I h s'" if "proposal_monitor_poll I (mt_view m) (mt_pc m) s = Some (pc', s')" for pc'
  proof (cases "mt_pc m")
    case (MonitorCheck w ns)
    then have "view_height w = view_height (mt_view m)" using assms(3) by (simp add: monitor_auth_def Let_def)
    then show ?thesis using that MonitorCheck query by (auto simp: proposal_monitor_poll_def Let_def case_prod_unfold)
  next
    case (MonitorScan rs ns)
    then show ?thesis
      using that assms(2) query [of "view_new (view_height (mt_view m)) _" "mt_view m"]
      by (cases rs) (auto simp: proposal_monitor_poll_def Let_def case_prod_unfold view_new_def)
  next
    case MonitorStart
    then show ?thesis
      using that others(6) [of "view_height (mt_view m)"]
      by (auto simp: proposal_monitor_poll_def Let_def split: option.splits prod.splits)
  qed (use that in \<open>auto simp: proposal_monitor_poll_def Let_def\<close>)
  moreover have "store_verified I h s'" if "rcc_monitor_poll I v pc s = Some (pc', s')" for v pc pc'
    using that assms(2) others(5,7)
    by (cases pc; auto simp: rcc_monitor_poll_def Let_def case_prod_unfold split: option.splits list.splits)
  ultimately show ?thesis
    using assms(2,4) by (cases ev) (auto split: monitor_kind.splits monitor_pc.splits)
qed

subsection \<open>Tasks\<close>

lemma pc_justified_simps [simp]:
  "pc_justified P I v Start" "pc_justified P I v QueryRcc" "pc_justified P I v (RecvRcc k)" "pc_justified P I v QueryProposal"
  "pc_justified P I v RecvProposal" "pc_justified P I v RequeryProposal" "pc_justified P I v (BroadcastProposal p)"
  "pc_justified P I v (AddProposal p)" "pc_justified P I v (AddPrepare q)" "pc_justified P I v (QueryPrepare d)"
  "pc_justified P I v (RecvPrepare d k)" "pc_justified P I v (BroadcastCommit c)" "pc_justified P I v (AddCommit c)"
  "pc_justified P I v (QueryCommit d)" "pc_justified P I v (RecvCommit d k)" "pc_justified P I v (RoundDone seals)"
  "pc_justified P I v (RoundFailed e)" "pc_justified P I v RoundPanicked"
  "pc_justified P I v (BroadcastPrepare q) \<longleftrightarrow> justified P I v (pr_digest q)"
  by (simp_all add: pc_justified_def)

lemma other_pcs_justified:
  "pc_justified P I v (propose I w raw rcc)" "pc_justified P I v (run_ibft_round_start I st b)"
  "pc_justified P I v (wait_rcc_taken I w b res)" "pc_justified P I v (prepares_counted I w d k)"
  "pc_justified P I v (commits_taken I w d res')"
proof -
  show p: "pc_justified P I v (propose I w raw rcc)" for w raw rcc by (simp add: propose_def split: option.split)
  show "pc_justified P I v (run_ibft_round_start I st b)"
    by (auto simp: run_ibft_round_start_def run_proposal_0_start_def run_proposal_1_start_def build_and_propose_def p split: sum.split)
  show "pc_justified P I v (wait_rcc_taken I w b res)"
    by (auto simp: wait_rcc_taken_def build_and_propose_def p split: option.split sum.split prod.split)
qed (auto simp: prepares_counted_def vote_commit_def commits_taken_def split: option.split prod.split)

text \<open>A query that yields a digest has found a proposal that is accepted.\<close>

lemma queried_justified:
  assumes "store_inv I s" and "store_all P s" and "store_verified I (view_height v) s"
    and "\<not> is_proposer (ibft_validators I) (self_of I) v" and "\<And>d. missing \<noteq> BroadcastPrepare d"
  shows "pc_justified P I v (proposal_queried I v missing (fst (get_valid_proposal_digest v (proposal_verify_fn I v) s)))"
proof -
  let ?res = "fst (get_valid_proposal_digest v (proposal_verify_fn I v) s)"
  have "justified P I v d" if res: "?res = Some (Inr d)" for d
  proof -
    obtain p where p: "proposal_at s v = Some p" "d = ps_digest p"
      "verification_at s v = None \<and> proposal_verify_fn I v p = Inr () \<or> verification_at s v = Some (Inr ())"
      using res by (auto simp: get_valid_proposal_digest_result split: option.splits sum.splits)
    moreover have "ps_view p = v" by (rule store_wf_filed(1) [OF store_invD(1) [OF assms(1)] p(1)])
    ultimately show ?thesis
      unfolding justified_def using store_allD(1) [OF assms(2)] store_verifiedD [OF assms(3) refl assms(4)] by blast
  qed
  moreover have "pc_justified P I v missing" using assms(5) by (simp add: pc_justified_def split: round_pc.split)
  ultimately show ?thesis
    by (auto simp: proposal_queried_def vote_prepare_def prepare_into_signed_def prepare_new_def split: option.split sum.split)
qed

lemma round_step_justified:
  assumes "store_inv I s" and "store_all P s" and "store_verified I h s" and "round_auth I h t"
    and "pc_justified P I (rt_view t) (rt_pc t)" and "round_step I ev t s = Some (t', s', msgs)"
  shows "store_verified I h s' \<and> pc_justified P I (rt_view t') (rt_pc t') \<and>
    (\<forall>q. Prepare q \<in> set msgs \<longrightarrow> justified P I (pr_view q) (pr_digest q))"
proof (cases ev)
  case (Poll b)
  note wf = store_invD(1) [OF assms(1)]
  note others = verified_others [OF wf assms(3)]
    and simps = round_poll_def Let_def rt_goto_def rt_enter_def shared_run_state_update_def case_prod_unfold
  have own: "view_height (rt_view t) = h" "pc_auth I (rt_view t) (srs_run_state (rt_state t)) (rt_pc t)"
    using assms(4) by (simp_all add: round_auth_def)
  have poll: "round_poll I b t s = Some (t', s', msgs)" using assms(6) Poll by simp
  note queried = queried_justified [OF assms(1,2) assms(3) [folded own(1)]] verified_query [OF wf assms(3)]
  show ?thesis
  proof (cases "rt_pc t")
    case (AddProposal p)
    then show ?thesis
      using poll own verified_add_proposal [OF wf assms(3) store_invD(3) [OF assms(1)], of "self_of I" p]
      by (auto simp: simps pc_auth_def own_proposal_def)
  next
    case QueryProposal
    then show ?thesis using poll own queried(1) [of RecvProposal] queried(2) by (auto simp: simps pc_auth_def)
  next
    case RequeryProposal
    then show ?thesis using poll own queried(1) [of RoundPanicked] queried(2) by (auto simp: simps pc_auth_def)
  next
    case (BroadcastPrepare q)
    then show ?thesis using poll own assms(3,5) by (auto simp: simps pc_auth_def own_prepare_def)
  qed (use poll assms(3) others(1-4,9,10) in \<open>auto simp: simps other_pcs_justified\<close>)
next
  case (Recv w)
  then show ?thesis
    using assms(3,5,6) by (cases "rt_pc t") (auto simp: round_recv_def counted_recv_def Let_def rt_goto_def)
next
  case RecvError
  then show ?thesis using assms(3,6) by (auto simp: rt_goto_def split: if_splits)
qed

lemma run_step_verified:
  assumes "store_wf (nd_store n)" and "store_verified I h (nd_store n)" and "run_step I ready n = Some n'"
  shows "store_verified I h (nd_store n') \<and> (Prepare q \<in> set (nd_sent n') \<longrightarrow> Prepare q \<in> set (nd_sent n))"
proof (cases "nd_pc n")
  case (RunReturn r)
  then show ?thesis using assms(2,3) by (auto simp: run_step_def split: option.splits)
qed (use assms(2,3) verified_others(2,8,11) [OF assms(1,2)] verified_take_proposal [OF assms(1,2)] in
    \<open>auto simp: run_step_def run_loop_top_def start_ibft_round_def run_select_def handle_round_finish_def handle_timeout_def
      timeout_take_proposal_def timeout_take_prepares_def handler_prune_def Let_def case_prod_unfold
      split: option.splits if_splits\<close>)

subsection \<open>Nodes\<close>

lemma internal_justified:
  assumes "node_internal I n n'" and "node_votes (\<lambda>_ _ _. True) I h n" and "node_closed P built n" and "node_justified P I h n"
  shows "node_justified P I h n'"
proof -
  note votes = node_votesD [OF assms(2)] and just = node_justifiedD [OF assms(4)]
  note wf = store_invD(1) [OF votes(1)]
  from assms(1) show ?thesis
  proof cases
    case (round i ev t s msgs)
    have mem: "nd_rounds n ! i \<in> set (nd_rounds n)" using round(2) by simp
    note step = round_step_justified [OF votes(1) node_closedD(1) [OF assms(3)] just(1) votes(3) [OF mem] just(2) [OF mem] round(4)]
    have "pc_justified P I (rt_view u) (rt_pc u)" if "u \<in> set ((nd_rounds n)[i := t])" for u
      using that set_update_subset_insert [of "nd_rounds n" i t] step just(2) by blast
    then show ?thesis using step just(3) round(1) by (auto simp: node_justified_def)
  next
    case (proposal_monitor i ev m s)
    then show ?thesis
      using assms(4) verified_monitor [OF wf just(1) votes(5) [OF nth_mem [OF proposal_monitor(2)]] proposal_monitor(4)]
      by (simp add: node_justified_def)
  next
    case (rcc_monitor i ev m s)
    then show ?thesis
      using assms(4) verified_monitor [OF wf just(1) votes(6) [OF nth_mem [OF rcc_monitor(2)]] rcc_monitor(4)]
      by (simp add: node_justified_def)
  next
    case (run ready)
    have "pc_justified P I (rt_view t) (rt_pc t)" if "t \<in> set (nd_rounds n')" for t
      using run_rounds [OF run that] just(2) by auto
    then show ?thesis using run_step_verified [OF wf just(1) run] just(3) by (auto simp: node_justified_def)
  next
    case (reorder s)
    then show ?thesis using assms(4) verified_reordered by (auto simp: node_justified_def)
  qed
qed

lemma deliver_justified:
  assumes "store_inv I (nd_store n)" and "node_justified P I h n"
  shows "node_justified P I h (node_deliver I m n)"
  using verified_handler [OF assms(1) node_justifiedD(1) [OF assms(2)]] assms(2)
  by (simp add: node_justified_def node_deliver_def)

lemma node_start_justified: "store_verified I h s \<Longrightarrow> node_justified P I h (node_start I h s mh)"
  by (simp add: node_justified_def node_start_def)

end
