(* ===== verification/P2p.thy ===== *)
theory P2p
  imports Poa_Types
begin

text \<open>
  The network layer (\<open>crates/p2p\<close>): gossip topics and codec, the proxy between the consensus and
  the network, and the event loop of the service. The crates \<open>libp2p\<close> and \<open>borsh\<close> are a
  parameter, the record \<open>p2p_ext\<close>: hashing a topic, publishing on the swarm, and encoding and
  decoding the two kinds of messages. The bounded channels of \<open>tokio\<close> are queues. \<open>None\<close> or
  \<open>Panics\<close> is a panic.
\<close>

subsection \<open>What is outside\<close>

record 'sw p2p_ext =
  topic_hash :: "string \<Rightarrow> string"
  swarm_publish :: "'sw \<Rightarrow> string \<Rightarrow> bytes \<Rightarrow> (string + string) \<times> 'sw"
  message_to_vec :: "ibft_message \<Rightarrow> bytes anyhow"
  message_from_slice :: "bytes \<Rightarrow> ibft_message anyhow"
  block_to_vec :: "finalized_block \<Rightarrow> bytes anyhow"
  block_from_slice :: "bytes \<Rightarrow> finalized_block anyhow"

text \<open>Borsh: an encoding starts with the tag of the enum or the length of the block, and decodes to what was encoded.\<close>

definition wire_ok :: "'sw p2p_ext \<Rightarrow> bool" where
  "wire_ok W \<longleftrightarrow>
     (\<forall>m data. message_to_vec W m = Inr data \<longrightarrow> data \<noteq> [] \<and> message_from_slice W data = Inr m) \<and>
     (\<forall>b data. block_to_vec W b = Inr data \<longrightarrow> data \<noteq> [] \<and> block_from_slice W data = Inr b)"

text \<open>A bounded channel: what is in it, how much fits, and whether the receiver is gone.\<close>

record 'a channel =
  ch_queue :: "'a list"
  ch_size :: nat
  ch_closed :: bool

definition channel_new :: "nat \<Rightarrow> 'a channel" where
  "channel_new cap = \<lparr>ch_queue = [], ch_size = cap, ch_closed = False\<rparr>"

datatype send_result = Sent | Full | Closed

definition try_send :: "'a \<Rightarrow> 'a channel \<Rightarrow> send_result \<times> 'a channel" where
  "try_send x ch =
     (if ch_closed ch then (Closed, ch)
      else if length (ch_queue ch) < ch_size ch then (Sent, ch\<lparr>ch_queue := ch_queue ch @ [x]\<rparr>)
      else (Full, ch))"

subsection \<open>Gossip codec (gossipsub/codec.rs)\<close>

record gossip_codec =
  max_message_size :: nat

definition verify_message_size :: "gossip_codec \<Rightarrow> nat \<Rightarrow> unit anyhow" where
  "verify_message_size c n =
     (if n > max_message_size c then Inl ''P2P message size exceeds maximum limit'' else Inr ())"

definition gossip_serialize :: "gossip_codec \<Rightarrow> ('a \<Rightarrow> bytes anyhow) \<Rightarrow> 'a \<Rightarrow> bytes anyhow" where
  "gossip_serialize c to_vec v =
     (case to_vec v of
        Inl e \<Rightarrow> Inl e
      | Inr data \<Rightarrow> (case verify_message_size c (length data) of Inl e \<Rightarrow> Inl e | Inr _ \<Rightarrow> Inr data))"

definition gossip_deserialize :: "gossip_codec \<Rightarrow> (bytes \<Rightarrow> 'a anyhow) \<Rightarrow> bytes \<Rightarrow> 'a anyhow" where
  "gossip_deserialize c from_slice data =
     (case verify_message_size c (length data) of Inl e \<Rightarrow> Inl e | Inr _ \<Rightarrow> from_slice data)"

subsection \<open>Topics (gossipsub/topics.rs, gossipsub/mod.rs)\<close>

definition CONSENSUS_TOPIC :: string where
  "CONSENSUS_TOPIC = ''consensus''"

definition BLOCK_TOPIC :: string where
  "BLOCK_TOPIC = ''block''"

definition topic_name :: "string \<Rightarrow> string \<Rightarrow> string" where
  "topic_name topic network_name = topic @ ''/'' @ network_name"

datatype gossip_topic_tag = TagConsensus | TagBlock

record gossip_topics =
  consensus_topic :: "string \<times> string"
  block_topic :: "string \<times> string"

definition gossip_topics_new :: "'sw p2p_ext \<Rightarrow> string \<Rightarrow> gossip_topics option" where
  "gossip_topics_new W network_name =
     (if network_name = [] then None
      else let c = topic_name CONSENSUS_TOPIC network_name; b = topic_name BLOCK_TOPIC network_name in
        Some \<lparr>consensus_topic = (topic_hash W c, c), block_topic = (topic_hash W b, b)\<rparr>)"

definition get_gossip_tag :: "gossip_topics \<Rightarrow> string \<Rightarrow> gossip_topic_tag option" where
  "get_gossip_tag ts h =
     (if h = fst (consensus_topic ts) then Some TagConsensus
      else if h = fst (block_topic ts) then Some TagBlock
      else None)"

fun get_topic_hash :: "gossip_topics \<Rightarrow> gossip_topic_tag \<Rightarrow> string" where
  "get_topic_hash ts TagConsensus = fst (consensus_topic ts)"
| "get_topic_hash ts TagBlock = fst (block_topic ts)"

subsection \<open>Configuration and behaviours (config.rs, lib.rs, kademlia.rs, gossipsub/mod.rs)\<close>

datatype 'peer protocol = P2p 'peer | OtherProtocol string

type_synonym 'peer multiaddr = "'peer protocol list"

definition try_to_peer_id :: "'peer multiaddr \<Rightarrow> 'peer option" where
  "try_to_peer_id addr = (if addr = [] then None else case last addr of P2p peer_id \<Rightarrow> Some peer_id | _ \<Rightarrow> None)"

record ('key, 'peer) p2p_config =
  pc_keypair :: 'key
  pc_is_validator :: bool
  pc_network_name :: string
  pc_tcp_port :: "16 word"
  pc_bootstrap_nodes :: "'peer multiaddr list"
  pc_connection_idle_timeout :: "nat option"

text \<open>The topics \<open>build_gossipsub_behaviour\<close> subscribes to, in order.\<close>

definition subscribed_topics :: "('key, 'peer) p2p_config \<Rightarrow> string list" where
  "subscribed_topics c =
     map (\<lambda>topic. topic_name topic (pc_network_name c))
       (if pc_is_validator c then [BLOCK_TOPIC, CONSENSUS_TOPIC] else [BLOCK_TOPIC])"

text \<open>The calls of \<open>add_address\<close> in \<open>build_kademlia_behaviour\<close>; an address without a peer id is skipped.\<close>

fun bootstrap_addresses :: "'peer multiaddr list \<Rightarrow> ('peer \<times> 'peer multiaddr) list" where
  "bootstrap_addresses [] = []"
| "bootstrap_addresses (addr # addrs) =
     (case try_to_peer_id addr of
        Some peer_id \<Rightarrow> (peer_id, addr) # bootstrap_addresses addrs
      | None \<Rightarrow> bootstrap_addresses addrs)"

definition kademlia_protocol_name :: "string \<Rightarrow> string" where
  "kademlia_protocol_name network_name = ''/tonic/kad/'' @ network_name @ ''/kad/1.0.0''"

subsection \<open>The proxy (p2p_proxy.rs)\<close>

datatype p2p_request = RequestBroadcast string bytes

definition MAX_MESSAGE_SIZE :: nat where
  "MAX_MESSAGE_SIZE = 1024 * 1024 * 4"

definition CHANNEL_SIZE :: nat where
  "CHANNEL_SIZE = 1024"

record p2p_proxy =
  px_codec :: gossip_codec
  px_topics :: gossip_topics

text \<open>The three channels, and the swarm the service owns.\<close>

record 'sw p2p_state =
  ps_requests :: "p2p_request channel"
  ps_consensus :: "ibft_message channel"
  ps_blocks :: "finalized_block channel"
  ps_swarm :: 'sw

definition p2p_proxy_new :: "'sw p2p_ext \<Rightarrow> string \<Rightarrow> p2p_proxy option" where
  "p2p_proxy_new W network_name =
     map_option (\<lambda>ts. \<lparr>px_codec = \<lparr>max_message_size = MAX_MESSAGE_SIZE\<rparr>, px_topics = ts\<rparr>) (gossip_topics_new W network_name)"

definition build_proxy :: "'sw p2p_ext \<Rightarrow> string \<Rightarrow> 'sw \<Rightarrow> (p2p_proxy \<times> 'sw p2p_state) option" where
  "build_proxy W network_name swarm =
     map_option (\<lambda>px. (px, \<lparr>ps_requests = channel_new CHANNEL_SIZE, ps_consensus = channel_new CHANNEL_SIZE,
       ps_blocks = channel_new CHANNEL_SIZE, ps_swarm = swarm\<rparr>)) (p2p_proxy_new W network_name)"

text \<open>What happens when a task is polled: it panics, has to wait, or goes on.\<close>

datatype 's outcome = Panics | Waits | Goes 's

definition broadcast_network :: "p2p_proxy \<Rightarrow> gossip_topic_tag \<Rightarrow> bytes \<Rightarrow> 'sw p2p_state \<Rightarrow> 'sw p2p_state outcome" where
  "broadcast_network px tag data st =
     (case try_send (RequestBroadcast (get_topic_hash (px_topics px) tag) data) (ps_requests st) of
        (Sent, ch) \<Rightarrow> Goes (st\<lparr>ps_requests := ch\<rparr>)
      | (Full, ch) \<Rightarrow> Waits
      | (Closed, ch) \<Rightarrow> Panics)"

definition broadcast_message :: "'sw p2p_ext \<Rightarrow> p2p_proxy \<Rightarrow> ibft_message \<Rightarrow> 'sw p2p_state \<Rightarrow> 'sw p2p_state outcome" where
  "broadcast_message W px message st =
     (case gossip_serialize (px_codec px) (message_to_vec W) message of
        Inl e \<Rightarrow> Panics
      | Inr data \<Rightarrow> broadcast_network px TagConsensus data st)"

definition broadcast_block :: "'sw p2p_ext \<Rightarrow> p2p_proxy \<Rightarrow> finalized_block \<Rightarrow> 'sw p2p_state \<Rightarrow> 'sw p2p_state outcome" where
  "broadcast_block W px block st =
     (case gossip_serialize (px_codec px) (block_to_vec W) block of
        Inl e \<Rightarrow> Panics
      | Inr data \<Rightarrow> broadcast_network px TagBlock data st)"

text \<open>A full channel drops the message with a warning.\<close>

definition relay_message_by_tag ::
    "'sw p2p_ext \<Rightarrow> p2p_proxy \<Rightarrow> gossip_topic_tag \<Rightarrow> bytes \<Rightarrow> 'sw p2p_state \<Rightarrow> (unit anyhow \<times> 'sw p2p_state) option" where
  "relay_message_by_tag W px tag data st =
     (case tag of
        TagConsensus \<Rightarrow>
          (case gossip_deserialize (px_codec px) (message_from_slice W) data of
             Inl e \<Rightarrow> Some (Inl e, st)
           | Inr message \<Rightarrow>
               (case try_send message (ps_consensus st) of
                  (Closed, ch) \<Rightarrow> None
                | (_, ch) \<Rightarrow> Some (Inr (), st\<lparr>ps_consensus := ch\<rparr>)))
      | TagBlock \<Rightarrow>
          (case gossip_deserialize (px_codec px) (block_from_slice W) data of
             Inl e \<Rightarrow> Some (Inl e, st)
           | Inr block \<Rightarrow>
               (case try_send block (ps_blocks st) of
                  (Closed, ch) \<Rightarrow> None
                | (_, ch) \<Rightarrow> Some (Inr (), st\<lparr>ps_blocks := ch\<rparr>))))"

definition relay_message ::
    "'sw p2p_ext \<Rightarrow> p2p_proxy \<Rightarrow> string \<Rightarrow> bytes \<Rightarrow> 'sw p2p_state \<Rightarrow> (unit anyhow \<times> 'sw p2p_state) option" where
  "relay_message W px h data st =
     (case get_gossip_tag (px_topics px) h of
        None \<Rightarrow> Some (Inl ''Invalid topic hash'', st)
      | Some tag \<Rightarrow> relay_message_by_tag W px tag data st)"

subsection \<open>The service (p2p_service.rs, behaviour.rs)\<close>

datatype gossipsub_event = GossipMessage string bytes | OtherGossip
datatype behaviour_event = Gossipsub gossipsub_event | OtherBehaviour
datatype swarm_event = SwarmBehaviour behaviour_event | NewListenAddr "string multiaddr" | OtherSwarm

text \<open>\<open>TonicBehaviour::publish_message\<close> asserts that there is data.\<close>

definition publish_message :: "'sw p2p_ext \<Rightarrow> string \<Rightarrow> bytes \<Rightarrow> 'sw \<Rightarrow> ((string + string) \<times> 'sw) option" where
  "publish_message W h data swarm = (if data = [] then None else Some (swarm_publish W swarm h data))"

definition service_publish_message ::
    "'sw p2p_ext \<Rightarrow> string \<Rightarrow> bytes \<Rightarrow> 'sw p2p_state \<Rightarrow> ((string + string) \<times> 'sw p2p_state) option" where
  "service_publish_message W h data st =
     map_option (\<lambda>(res, swarm). (res, st\<lparr>ps_swarm := swarm\<rparr>)) (publish_message W h data (ps_swarm st))"

text \<open>The handlers only log errors.\<close>

definition handle_gossipsub_event ::
    "'sw p2p_ext \<Rightarrow> p2p_proxy \<Rightarrow> gossipsub_event \<Rightarrow> 'sw p2p_state \<Rightarrow> (unit anyhow \<times> 'sw p2p_state) option" where
  "handle_gossipsub_event W px ev st =
     (case ev of
        GossipMessage h data \<Rightarrow> map_option (\<lambda>(res, st'). (Inr (), st')) (relay_message W px h data st)
      | OtherGossip \<Rightarrow> Some (Inr (), st))"

definition handle_behaviour_event ::
    "'sw p2p_ext \<Rightarrow> p2p_proxy \<Rightarrow> behaviour_event \<Rightarrow> 'sw p2p_state \<Rightarrow> (unit anyhow \<times> 'sw p2p_state) option" where
  "handle_behaviour_event W px ev st =
     (case ev of Gossipsub g \<Rightarrow> handle_gossipsub_event W px g st | OtherBehaviour \<Rightarrow> Some (Inr (), st))"

definition run_event :: "'sw p2p_ext \<Rightarrow> p2p_proxy \<Rightarrow> swarm_event \<Rightarrow> 'sw p2p_state \<Rightarrow> 'sw p2p_state outcome" where
  "run_event W px ev st =
     (case ev of
        SwarmBehaviour b \<Rightarrow> (case handle_behaviour_event W px b st of None \<Rightarrow> Panics | Some (res, st') \<Rightarrow> Goes st')
      | _ \<Rightarrow> Goes st)"

definition run_request :: "'sw p2p_ext \<Rightarrow> 'sw p2p_state \<Rightarrow> 'sw p2p_state outcome" where
  "run_request W st =
     (case ch_queue (ps_requests st) of
        [] \<Rightarrow> Waits
      | RequestBroadcast h data # rest \<Rightarrow>
          (case service_publish_message W h data (st\<lparr>ps_requests := (ps_requests st)\<lparr>ch_queue := rest\<rparr>\<rparr>) of
             None \<Rightarrow> Panics
           | Some (res, st') \<Rightarrow> Goes st'))"

text \<open>
  The node around the service: the consensus broadcasts through the proxy and takes from the
  consensus channel, the application takes blocks, and the loop of \<open>run\<close> picks an event of the
  swarm or a request, in any order.
\<close>

datatype p2p_input =
    InMessage ibft_message
  | InBlock finalized_block
  | InEvent swarm_event
  | InRequest
  | TakeConsensus
  | TakeBlock

definition p2p_step :: "'sw p2p_ext \<Rightarrow> p2p_proxy \<Rightarrow> p2p_input \<Rightarrow> 'sw p2p_state \<Rightarrow> 'sw p2p_state outcome" where
  "p2p_step W px i st =
     (case i of
        InMessage m \<Rightarrow> broadcast_message W px m st
      | InBlock b \<Rightarrow> broadcast_block W px b st
      | InEvent ev \<Rightarrow> run_event W px ev st
      | InRequest \<Rightarrow> run_request W st
      | TakeConsensus \<Rightarrow>
          (case ch_queue (ps_consensus st) of [] \<Rightarrow> Waits
           | _ # q \<Rightarrow> Goes (st\<lparr>ps_consensus := (ps_consensus st)\<lparr>ch_queue := q\<rparr>\<rparr>))
      | TakeBlock \<Rightarrow>
          (case ch_queue (ps_blocks st) of [] \<Rightarrow> Waits
           | _ # q \<Rightarrow> Goes (st\<lparr>ps_blocks := (ps_blocks st)\<lparr>ch_queue := q\<rparr>\<rparr>)))"

inductive p2p_run :: "'sw p2p_ext \<Rightarrow> p2p_proxy \<Rightarrow> 'sw p2p_state \<Rightarrow> p2p_input list \<Rightarrow> 'sw p2p_state \<Rightarrow> bool"
  for W px st0 where
  start: "p2p_run W px st0 [] st0"
| step: "p2p_run W px st0 is st \<Longrightarrow> p2p_step W px i st = Goes st' \<Longrightarrow> p2p_run W px st0 (is @ [i]) st'"

subsection \<open>Topics keep networks apart\<close>

text \<open>No two topics of the given networks have the same hash.\<close>

definition topics_distinct :: "'sw p2p_ext \<Rightarrow> string set \<Rightarrow> bool" where
  "topics_distinct W names \<longleftrightarrow> inj_on (topic_hash W) (\<Union>n \<in> names. {topic_name CONSENSUS_TOPIC n, topic_name BLOCK_TOPIC n})"

lemma topic_name_eq:
  "topic_name CONSENSUS_TOPIC a = topic_name CONSENSUS_TOPIC b \<longleftrightarrow> a = b"
  "topic_name BLOCK_TOPIC a = topic_name BLOCK_TOPIC b \<longleftrightarrow> a = b"
  "topic_name CONSENSUS_TOPIC a \<noteq> topic_name BLOCK_TOPIC b"
  "topic_name BLOCK_TOPIC b \<noteq> topic_name CONSENSUS_TOPIC a"
  by (auto simp: topic_name_def CONSENSUS_TOPIC_def BLOCK_TOPIC_def)

fun topic_of :: "gossip_topic_tag \<Rightarrow> string" where
  "topic_of TagConsensus = CONSENSUS_TOPIC"
| "topic_of TagBlock = BLOCK_TOPIC"

lemma p2p_proxy_newD:
  assumes "p2p_proxy_new W name = Some px"
  shows "max_message_size (px_codec px) = MAX_MESSAGE_SIZE"
    and "get_topic_hash (px_topics px) tag = topic_hash W (topic_name (topic_of tag) name)"
    and "fst (consensus_topic (px_topics px)) = topic_hash W (topic_name CONSENSUS_TOPIC name)"
    and "fst (block_topic (px_topics px)) = topic_hash W (topic_name BLOCK_TOPIC name)"
  using assms by (cases tag; auto simp: p2p_proxy_new_def gossip_topics_new_def Let_def split: if_splits)+

lemma in_topics: "n \<in> names \<Longrightarrow> topic_name (topic_of tag) n \<in> (\<Union>n \<in> names. {topic_name CONSENSUS_TOPIC n, topic_name BLOCK_TOPIC n})"
  by (cases tag) auto

lemma get_gossip_tag_of_topic:
  assumes "p2p_proxy_new W name = Some px" and "topics_distinct W {name, name'}"
  shows "get_gossip_tag (px_topics px) (topic_hash W (topic_name (topic_of tag) name')) = (if name' = name then Some tag else None)"
proof -
  have "topic_hash W (topic_name (topic_of tag) name') = topic_hash W (topic_name (topic_of tag') name) \<longleftrightarrow>
      topic_name (topic_of tag) name' = topic_name (topic_of tag') name" for tag'
    using inj_on_eq_iff [OF assms(2) [unfolded topics_distinct_def] in_topics [of name' _ tag] in_topics [of name _ tag']] by simp
  from this [of TagConsensus] this [of TagBlock] show ?thesis
    by (cases tag) (auto simp: get_gossip_tag_def p2p_proxy_newD [OF assms(1)] topic_name_eq)
qed

subsection \<open>From one node to another\<close>

lemma gossip_serialize_Inr:
  "gossip_serialize c to_vec v = Inr data \<longleftrightarrow> to_vec v = Inr data \<and> length data \<le> max_message_size c"
  by (auto simp: gossip_serialize_def verify_message_size_def split: sum.splits if_splits)

lemma gossip_deserialize_Inr:
  "gossip_deserialize c from_slice data = Inr v \<longleftrightarrow> from_slice data = Inr v \<and> length data \<le> max_message_size c"
  by (auto simp: gossip_deserialize_def verify_message_size_def split: sum.splits if_splits)

lemma try_send_Sent: "try_send x ch = (Sent, ch') \<longleftrightarrow>
  \<not> ch_closed ch \<and> length (ch_queue ch) < ch_size ch \<and> ch' = ch\<lparr>ch_queue := ch_queue ch @ [x]\<rparr>"
  by (auto simp: try_send_def)

lemma broadcast_network_Goes:
  "broadcast_network px tag data st = Goes st' \<longleftrightarrow>
     \<not> ch_closed (ps_requests st) \<and> length (ch_queue (ps_requests st)) < ch_size (ps_requests st) \<and>
     st' = st\<lparr>ps_requests := (ps_requests st)\<lparr>ch_queue := ch_queue (ps_requests st) @ [RequestBroadcast (get_topic_hash (px_topics px) tag) data]\<rparr>\<rparr>"
  by (auto simp: broadcast_network_def try_send_def)

text \<open>What a peer must have room for, and its state once it has what was broadcast.\<close>

fun has_room :: "p2p_input \<Rightarrow> 'sw p2p_state \<Rightarrow> bool" where
  "has_room (InMessage m) st \<longleftrightarrow> \<not> ch_closed (ps_consensus st) \<and> length (ch_queue (ps_consensus st)) < ch_size (ps_consensus st)"
| "has_room (InBlock b) st \<longleftrightarrow> \<not> ch_closed (ps_blocks st) \<and> length (ch_queue (ps_blocks st)) < ch_size (ps_blocks st)"
| "has_room _ st \<longleftrightarrow> True"

fun delivered :: "p2p_input \<Rightarrow> 'sw p2p_state \<Rightarrow> 'sw p2p_state" where
  "delivered (InMessage m) st = st\<lparr>ps_consensus := (ps_consensus st)\<lparr>ch_queue := ch_queue (ps_consensus st) @ [m]\<rparr>\<rparr>"
| "delivered (InBlock b) st = st\<lparr>ps_blocks := (ps_blocks st)\<lparr>ch_queue := ch_queue (ps_blocks st) @ [b]\<rparr>\<rparr>"
| "delivered _ st = st"

fun broadcast_tag :: "p2p_input \<Rightarrow> gossip_topic_tag option" where
  "broadcast_tag (InMessage m) = Some TagConsensus"
| "broadcast_tag (InBlock b) = Some TagBlock"
| "broadcast_tag _ = None"

text \<open>The event with which a swarm hands over a published message.\<close>

abbreviation gossip_event :: "string \<Rightarrow> bytes \<Rightarrow> swarm_event" where
  "gossip_event h data \<equiv> SwarmBehaviour (Gossipsub (GossipMessage h data))"

lemmas run_event_defs = run_event_def handle_behaviour_event_def handle_gossipsub_event_def relay_message_def

lemma relay_broadcast:
  assumes "wire_ok W" and "broadcast_tag i = Some tag" and "p2p_step W px i st = Goes st'"
  shows "\<exists>data. data \<noteq> [] \<and> length data \<le> max_message_size (px_codec px) \<and>
    st' = st\<lparr>ps_requests := (ps_requests st)\<lparr>ch_queue := ch_queue (ps_requests st) @ [RequestBroadcast (get_topic_hash (px_topics px) tag) data]\<rparr>\<rparr> \<and>
    (\<forall>px' st2. max_message_size (px_codec px') = max_message_size (px_codec px) \<longrightarrow> has_room i st2 \<longrightarrow>
       relay_message_by_tag W px' tag data st2 = Some (Inr (), delivered i st2))"
proof (cases i)
  case (InMessage m)
  obtain data where data: "gossip_serialize (px_codec px) (message_to_vec W) m = Inr data"
    and net: "broadcast_network px TagConsensus data st = Goes st'"
    using assms(3) InMessage by (auto simp: p2p_step_def broadcast_message_def split: sum.splits)
  then have "message_from_slice W data = Inr m" "data \<noteq> []"
    using assms(1) by (auto simp: wire_ok_def gossip_serialize_Inr)
  then have "gossip_deserialize (px_codec px') (message_from_slice W) data = Inr m"
    if "max_message_size (px_codec px') = max_message_size (px_codec px)" for px' :: p2p_proxy
    using data that by (simp add: gossip_serialize_Inr gossip_deserialize_Inr)
  then show ?thesis using InMessage assms(2) net data \<open>data \<noteq> []\<close>
    by (intro exI [of _ data]) (auto simp: broadcast_network_Goes gossip_serialize_Inr relay_message_by_tag_def try_send_def)
next
  case (InBlock b)
  obtain data where data: "gossip_serialize (px_codec px) (block_to_vec W) b = Inr data"
    and net: "broadcast_network px TagBlock data st = Goes st'"
    using assms(3) InBlock by (auto simp: p2p_step_def broadcast_block_def split: sum.splits)
  then have "block_from_slice W data = Inr b" "data \<noteq> []"
    using assms(1) by (auto simp: wire_ok_def gossip_serialize_Inr)
  then have "gossip_deserialize (px_codec px') (block_from_slice W) data = Inr b"
    if "max_message_size (px_codec px') = max_message_size (px_codec px)" for px' :: p2p_proxy
    using data that by (simp add: gossip_serialize_Inr gossip_deserialize_Inr)
  then show ?thesis using InBlock assms(2) net data \<open>data \<noteq> []\<close>
    by (intro exI [of _ data]) (auto simp: broadcast_network_Goes gossip_serialize_Inr relay_message_by_tag_def try_send_def)
qed (use assms(2) in simp_all)

text \<open>C24: A message or block that a node broadcasts reaches its peers as it was sent. The request it
  queues names a topic and data which the service publishes in order; a peer of the same network
  with room in the channel that is handed this topic and data appends exactly the message or block
  to its consensus or block channel and changes nothing else; a node of another network ignores
  them.\<close>

theorem broadcast_reaches_peer:
  assumes "wire_ok W" and "p2p_proxy_new W name = Some px" and "broadcast_tag i = Some tag"
    and "p2p_step W px i st = Goes st'"
  shows "\<exists>h data.
    ch_queue (ps_requests st') = ch_queue (ps_requests st) @ [RequestBroadcast h data] \<and>
    (\<forall>st1 rest. ch_queue (ps_requests st1) = RequestBroadcast h data # rest \<longrightarrow>
       (\<exists>st2. p2p_step W px InRequest st1 = Goes st2 \<and> ps_swarm st2 = snd (swarm_publish W (ps_swarm st1) h data))) \<and>
    (\<forall>name' px' peer. p2p_proxy_new W name' = Some px' \<longrightarrow> topics_distinct W {name', name} \<longrightarrow> has_room i peer \<longrightarrow>
       p2p_step W px' (InEvent (gossip_event h data)) peer = Goes (if name' = name then delivered i peer else peer))"
proof -
  let ?h = "get_topic_hash (px_topics px) tag"
  obtain data where data: "data \<noteq> []" "ch_queue (ps_requests st') = ch_queue (ps_requests st) @ [RequestBroadcast ?h data]"
    and relay: "\<And>px' st2. max_message_size (px_codec px') = max_message_size (px_codec px) \<Longrightarrow> has_room i st2 \<Longrightarrow>
       relay_message_by_tag W px' tag data st2 = Some (Inr (), delivered i st2)"
    using relay_broadcast [OF assms(1,3,4)] by auto
  have "p2p_step W px' (InEvent (gossip_event ?h data)) peer = Goes (if name' = name then delivered i peer else peer)"
    if "p2p_proxy_new W name' = Some px'" "topics_distinct W {name', name}" "has_room i peer" for name' px' peer
    using relay [of px' peer] that get_gossip_tag_of_topic [OF that(1,2), of tag] p2p_proxy_newD(1) [OF that(1)]
    by (simp add: p2p_step_def run_event_defs p2p_proxy_newD [OF assms(2)])
  moreover have "\<exists>st2. p2p_step W px InRequest st1 = Goes st2 \<and> ps_swarm st2 = snd (swarm_publish W (ps_swarm st1) ?h data)"
    if "ch_queue (ps_requests st1) = RequestBroadcast ?h data # rest" for st1 rest
    using that data(1) by (simp add: p2p_step_def run_request_def service_publish_message_def publish_message_def split: prod.split)
  ultimately show ?thesis using data(2) by blast
qed

subsection \<open>When the node panics\<close>

text \<open>What Borsh makes of a broadcast.\<close>

fun broadcast_bytes :: "'sw p2p_ext \<Rightarrow> p2p_input \<Rightarrow> bytes anyhow option" where
  "broadcast_bytes W (InMessage m) = Some (message_to_vec W m)"
| "broadcast_bytes W (InBlock b) = Some (block_to_vec W b)"
| "broadcast_bytes W _ = None"

text \<open>A broadcast that Borsh refuses, or whose encoding is over the size limit.\<close>

definition unsendable :: "'sw p2p_ext \<Rightarrow> p2p_input \<Rightarrow> bool" where
  "unsendable W i \<longleftrightarrow>
     (case broadcast_bytes W i of
        None \<Rightarrow> False
      | Some (Inl e) \<Rightarrow> True
      | Some (Inr data) \<Rightarrow> MAX_MESSAGE_SIZE < length data)"

lemma only_broadcasts_unsendable [simp]:
  "\<not> unsendable W (InEvent ev)" "\<not> unsendable W InRequest" "\<not> unsendable W TakeConsensus" "\<not> unsendable W TakeBlock"
  by (simp_all add: unsendable_def)

definition channel_inv :: "'a channel \<Rightarrow> bool" where
  "channel_inv ch \<longleftrightarrow> \<not> ch_closed ch \<and> ch_size ch = CHANNEL_SIZE \<and> length (ch_queue ch) \<le> ch_size ch"

text \<open>
  The channels are open and within their bounds, and every queued request has data of admissible
  size for one of the two topics.
\<close>

definition p2p_inv :: "p2p_proxy \<Rightarrow> 'sw p2p_state \<Rightarrow> bool" where
  "p2p_inv px st \<longleftrightarrow>
     channel_inv (ps_requests st) \<and> channel_inv (ps_consensus st) \<and> channel_inv (ps_blocks st) \<and>
     (\<forall>h data. RequestBroadcast h data \<in> set (ch_queue (ps_requests st)) \<longrightarrow>
        data \<noteq> [] \<and> length data \<le> max_message_size (px_codec px) \<and> get_gossip_tag (px_topics px) h \<noteq> None)"

text \<open>The messages the consensus channel may hold: decoded from gossip on the consensus topic.\<close>

definition gossiped :: "'sw p2p_ext \<Rightarrow> p2p_proxy \<Rightarrow> p2p_input list \<Rightarrow> ibft_message set" where
  "gossiped W px is =
     {m. \<exists>data. InEvent (gossip_event (fst (consensus_topic (px_topics px))) data) \<in> set is \<and>
        gossip_deserialize (px_codec px) (message_from_slice W) data = Inr m}"

lemma try_send_inv:
  assumes "channel_inv ch" and "try_send x ch = (r, ch')"
  shows "r \<noteq> Closed" and "channel_inv ch'" and "set (ch_queue ch') \<subseteq> insert x (set (ch_queue ch))"
  using assms by (auto simp: try_send_def channel_inv_def split: if_splits)

lemma broadcast_keeps:
  assumes "wire_ok W" and "p2p_inv px st" and "max_message_size (px_codec px) = MAX_MESSAGE_SIZE" and "broadcast_tag i = Some tag"
  shows "p2p_step W px i st = Panics \<longleftrightarrow> unsendable W i"
    and "p2p_step W px i st = Goes st' \<Longrightarrow> p2p_inv px st' \<and> ps_consensus st' = ps_consensus st"
proof -
  have net: "broadcast_network px t data st \<noteq> Panics" for t data
    using assms(2) by (auto simp: broadcast_network_def try_send_def p2p_inv_def channel_inv_def)
  show "p2p_step W px i st = Panics \<longleftrightarrow> unsendable W i"
    using assms(3,4) net
    by (cases i) (auto simp: p2p_step_def broadcast_message_def broadcast_block_def unsendable_def gossip_serialize_def verify_message_size_def
        split: sum.split)
  assume goes: "p2p_step W px i st = Goes st'"
  obtain data where data: "data \<noteq> []" "length data \<le> max_message_size (px_codec px)"
    and st': "st' = st\<lparr>ps_requests := (ps_requests st)\<lparr>ch_queue := ch_queue (ps_requests st) @ [RequestBroadcast (get_topic_hash (px_topics px) tag) data]\<rparr>\<rparr>"
    using relay_broadcast [OF assms(1,4) goes] by blast
  have room: "length (ch_queue (ps_requests st)) < ch_size (ps_requests st)"
    using goes assms(4) by (cases i) (auto simp: p2p_step_def broadcast_message_def broadcast_block_def broadcast_network_Goes split: sum.splits)
  have "get_gossip_tag (px_topics px) (get_topic_hash (px_topics px) tag) \<noteq> None"
    by (cases tag) (simp_all add: get_gossip_tag_def)
  then show "p2p_inv px st' \<and> ps_consensus st' = ps_consensus st"
    using assms(2) data room unfolding st' p2p_inv_def channel_inv_def by auto
qed

lemma relay_keeps:
  assumes "p2p_inv px st"
  obtains res st' where "relay_message W px h data st = Some (res, st')" and "p2p_inv px st'"
    and "set (ch_queue (ps_consensus st')) \<subseteq> set (ch_queue (ps_consensus st)) \<union> gossiped W px [InEvent (gossip_event h data)]"
proof (cases "get_gossip_tag (px_topics px) h")
  case None
  then show ?thesis using that [of "Inl ''Invalid topic hash''" st] assms by (simp add: relay_message_def)
next
  case (Some tag)
  have inv: "channel_inv (ps_consensus st)" "channel_inv (ps_blocks st)" using assms by (simp_all add: p2p_inv_def)
  show ?thesis
  proof (cases tag)
    case TagConsensus
    then have h: "h = fst (consensus_topic (px_topics px))" using Some by (simp add: get_gossip_tag_def split: if_splits)
    show ?thesis
    proof (cases "gossip_deserialize (px_codec px) (message_from_slice W) data")
      case (Inr m)
      obtain r ch where send: "try_send m (ps_consensus st) = (r, ch)" by (cases "try_send m (ps_consensus st)")
      have "m \<in> gossiped W px [InEvent (gossip_event h data)]" using Inr h by (simp add: gossiped_def)
      then show ?thesis
        using that [of "Inr ()" "st\<lparr>ps_consensus := ch\<rparr>"] Some TagConsensus Inr send try_send_inv [OF inv(1) send] assms
        by (cases r) (auto simp: relay_message_def relay_message_by_tag_def p2p_inv_def)
    qed (use that [of "Inl _" st] Some TagConsensus assms in \<open>simp add: relay_message_def relay_message_by_tag_def\<close>)
  next
    case TagBlock
    show ?thesis
    proof (cases "gossip_deserialize (px_codec px) (block_from_slice W) data")
      case (Inr b)
      obtain r ch where send: "try_send b (ps_blocks st) = (r, ch)" by (cases "try_send b (ps_blocks st)")
      then show ?thesis
        using that [of "Inr ()" "st\<lparr>ps_blocks := ch\<rparr>"] Some TagBlock Inr send try_send_inv [OF inv(2) send] assms
        by (cases r) (auto simp: relay_message_def relay_message_by_tag_def p2p_inv_def)
    qed (use that [of "Inl _" st] Some TagBlock assms in \<open>simp add: relay_message_def relay_message_by_tag_def\<close>)
  qed
qed

lemma gossiped_append: "gossiped W px (is @ js) = gossiped W px is \<union> gossiped W px js"
  by (auto simp: gossiped_def)

lemma step_keeps:
  assumes "wire_ok W" and "p2p_inv px st" and "max_message_size (px_codec px) = MAX_MESSAGE_SIZE"
  shows "p2p_step W px i st = Panics \<longleftrightarrow> unsendable W i"
    and "p2p_step W px i st = Goes st' \<Longrightarrow>
      p2p_inv px st' \<and> set (ch_queue (ps_consensus st')) \<subseteq> set (ch_queue (ps_consensus st)) \<union> gossiped W px [i]"
proof -
  have "(p2p_step W px i st = Panics \<longleftrightarrow> unsendable W i) \<and> (p2p_step W px i st = Goes st' \<longrightarrow>
      p2p_inv px st' \<and> set (ch_queue (ps_consensus st')) \<subseteq> set (ch_queue (ps_consensus st)) \<union> gossiped W px [i])"
  proof (cases i)
    case (InMessage m)
    then show ?thesis using broadcast_keeps(1) [OF assms, of i TagConsensus] broadcast_keeps(2) [OF assms, of i TagConsensus st'] by auto
  next
    case (InBlock b)
    then show ?thesis using broadcast_keeps(1) [OF assms, of i TagBlock] broadcast_keeps(2) [OF assms, of i TagBlock st'] by auto
  next
    case (InEvent ev)
    show ?thesis
    proof (cases "\<exists>h data. ev = gossip_event h data")
      case True
      then obtain h data where ev: "ev = gossip_event h data" by blast
      obtain res st1 where "relay_message W px h data st = Some (res, st1)" "p2p_inv px st1"
        "set (ch_queue (ps_consensus st1)) \<subseteq> set (ch_queue (ps_consensus st)) \<union> gossiped W px [InEvent (gossip_event h data)]"
        using relay_keeps [OF assms(2)] by blast
      then show ?thesis using InEvent ev
        by (auto simp: p2p_step_def run_event_def handle_behaviour_event_def handle_gossipsub_event_def)
    next
      case False
      then show ?thesis using InEvent assms(2)
        by (auto simp: p2p_step_def run_event_def handle_behaviour_event_def handle_gossipsub_event_def
            split: swarm_event.splits behaviour_event.splits gossipsub_event.splits)
    qed
  next
    case InRequest
    show ?thesis
    proof (cases "ch_queue (ps_requests st)")
      case (Cons r rest)
      obtain h data where r: "r = RequestBroadcast h data" by (cases r)
      then have "data \<noteq> []" using assms(2) Cons by (auto simp: p2p_inv_def)
      then show ?thesis using InRequest Cons r assms(2)
        by (auto simp: p2p_step_def run_request_def service_publish_message_def publish_message_def p2p_inv_def channel_inv_def split: prod.splits) blast
    qed (use InRequest in \<open>simp add: p2p_step_def run_request_def\<close>)
  next
    case TakeConsensus
    then show ?thesis using assms(2) by (auto simp: p2p_step_def p2p_inv_def channel_inv_def split: list.splits) blast
  next
    case TakeBlock
    then show ?thesis using assms(2) by (auto simp: p2p_step_def p2p_inv_def channel_inv_def split: list.splits) blast
  qed
  then show "p2p_step W px i st = Panics \<longleftrightarrow> unsendable W i"
    and "p2p_step W px i st = Goes st' \<Longrightarrow>
      p2p_inv px st' \<and> set (ch_queue (ps_consensus st')) \<subseteq> set (ch_queue (ps_consensus st)) \<union> gossiped W px [i]"
    by blast+
qed

lemma build_proxy_size: "build_proxy W name sw = Some (px, st0) \<Longrightarrow> max_message_size (px_codec px) = MAX_MESSAGE_SIZE"
  by (auto simp: build_proxy_def p2p_proxy_newD(1))

lemma p2p_run_inv:
  assumes "p2p_run W px st0 is st" and "wire_ok W" and "build_proxy W name sw = Some (px, st0)"
  shows "p2p_inv px st \<and> set (ch_queue (ps_consensus st)) \<subseteq> gossiped W px is"
proof -
  have size: "max_message_size (px_codec px) = MAX_MESSAGE_SIZE" by (rule build_proxy_size [OF assms(3)])
  show ?thesis
    using assms(1)
  proof (induction rule: p2p_run.induct)
    case start
    then show ?case using assms(3) by (auto simp: build_proxy_def channel_new_def p2p_inv_def channel_inv_def)
  next
    case (step "is" st i st')
    then show ?case using step_keeps(2) [OF assms(2), of px st i st'] size by (auto simp: gossiped_append)
  qed
qed

text \<open>C25: However broadcasts, swarm events, requests and the consumers of the channels interleave, the
  node panics in exactly one case: it broadcasts a message or block of its own that Borsh refuses, or whose encoding is longer
  than 4 MB, which the \<open>expect\<close>s of \<open>broadcast_message\<close> and \<open>broadcast_block\<close> take to be impossible although nothing bounds
  the size of a block. No malformed, oversized or foreign gossip, no request and no consumer makes it
  fail. Up to then the channels stay within their bounds, and the consensus channel only holds messages decoded from
  gossip on the consensus topic of the network.\<close>

theorem p2p_panics_exactly:
  assumes "wire_ok W" and "build_proxy W name sw = Some (px, st0)" and "p2p_run W px st0 is st"
  shows "(p2p_step W px i st = Panics \<longleftrightarrow>
      (\<exists>m. i = InMessage m \<and> (\<forall>data. message_to_vec W m = Inr data \<longrightarrow> 1024 * 1024 * 4 < length data)) \<or>
      (\<exists>b. i = InBlock b \<and> (\<forall>data. block_to_vec W b = Inr data \<longrightarrow> 1024 * 1024 * 4 < length data))) \<and>
    length (ch_queue (ps_requests st)) \<le> CHANNEL_SIZE \<and> length (ch_queue (ps_consensus st)) \<le> CHANNEL_SIZE \<and>
    length (ch_queue (ps_blocks st)) \<le> CHANNEL_SIZE \<and>
    set (ch_queue (ps_consensus st)) \<subseteq> gossiped W px is"
proof -
  have inv: "p2p_inv px st" "set (ch_queue (ps_consensus st)) \<subseteq> gossiped W px is"
    using p2p_run_inv [OF assms(3,1,2)] by auto
  have "unsendable W i \<longleftrightarrow>
      (\<exists>m. i = InMessage m \<and> (\<forall>data. message_to_vec W m = Inr data \<longrightarrow> 1024 * 1024 * 4 < length data)) \<or>
      (\<exists>b. i = InBlock b \<and> (\<forall>data. block_to_vec W b = Inr data \<longrightarrow> 1024 * 1024 * 4 < length data))"
    by (cases i) (auto simp: unsendable_def MAX_MESSAGE_SIZE_def split: sum.split)
  then show ?thesis
    using step_keeps(1) [OF assms(1) inv(1) build_proxy_size [OF assms(2)], of i] inv by (simp add: p2p_inv_def channel_inv_def)
qed

subsection \<open>A concrete network\<close>

text \<open>
  Prepares and commits in their Borsh layout and blocks without seals; other values are refused. A topic is
  its own hash, and the swarm lists what was published.
\<close>

definition sample_message_to_vec :: "ibft_message \<Rightarrow> bytes anyhow" where
  "sample_message_to_vec m =
     (case m of
        Prepare p \<Rightarrow>
          if length (pr_digest p) = 32 \<and> length (signature_bytes (prepare_signature p)) = 65
          then Inr (1 # le64 (view_height (pr_view p)) @ view_round (pr_view p) # pr_digest p @ signature_bytes (prepare_signature p))
          else Inl ''not encoded''
      | Commit c \<Rightarrow>
          if length (cm_digest c) = 32 \<and> length (signature_bytes (cm_seal c)) = 65 \<and> length (signature_bytes (commit_signature c)) = 65
          then Inr (2 # le64 (view_height (cm_view c)) @ view_round (cm_view c) # cm_digest c @ signature_bytes (cm_seal c) @
                    signature_bytes (commit_signature c))
          else Inl ''not encoded''
      | _ \<Rightarrow> Inl ''not encoded'')"

definition sample_message_from_slice :: "bytes \<Rightarrow> ibft_message anyhow" where
  "sample_message_from_slice data =
     (if length data = 107 \<and> data ! 0 = 1
      then let d = drop 1 data in
        Inr (Prepare \<lparr>prepare_message = \<lparr>prepare_view = \<lparr>view_height = of_le64 (take 8 d), view_round = d ! 8\<rparr>,
          prepare_digest = take 32 (drop 9 d)\<rparr>, prepare_signature = Signature (drop 41 d)\<rparr>)
      else if length data = 172 \<and> data ! 0 = 2
      then let d = drop 1 data in
        Inr (Commit \<lparr>commit_message = \<lparr>commit_view = \<lparr>view_height = of_le64 (take 8 d), view_round = d ! 8\<rparr>,
          commit_digest = take 32 (drop 9 d), commit_seal = Signature (take 65 (drop 41 d))\<rparr>, commit_signature = Signature (drop 106 d)\<rparr>)
      else Inl ''malformed'')"

definition sample_wire :: "(string \<times> bytes) list p2p_ext" where
  "sample_wire =
     \<lparr>topic_hash = (\<lambda>t. t),
      swarm_publish = (\<lambda>sw h data. (Inr ''id'', sw @ [(h, data)])),
      message_to_vec = sample_message_to_vec,
      message_from_slice = sample_message_from_slice,
      block_to_vec = (\<lambda>b. if proof_seals (final_proof b) = [] then Inr (proof_round (final_proof b) # final_raw_block b) else Inl ''not encoded''),
      block_from_slice = (\<lambda>data. case data of [] \<Rightarrow> Inl ''empty''
        | r # raw \<Rightarrow> Inr \<lparr>final_raw_block = raw, final_proof = \<lparr>proof_round = r, proof_seals = []\<rparr>\<rparr>)\<rparr>"

lemma sample_wire_ok: "wire_ok sample_wire"
proof -
  have "sample_message_from_slice data = Inr m \<and> data \<noteq> []" if "sample_message_to_vec m = Inr data" for m data
  proof (cases m)
    case (Prepare p)
    obtain h r dg sg where p: "p = \<lparr>prepare_message = \<lparr>prepare_view = \<lparr>view_height = h, view_round = r\<rparr>, prepare_digest = dg\<rparr>,
        prepare_signature = Signature sg\<rparr>"
      by (metis prepare_signed.surjective prepare_message.surjective view.surjective signature.exhaust unit.exhaust)
    then have "data = 1 # le64 h @ r # dg @ sg" "length dg = 32" "length sg = 65"
      using that Prepare by (auto simp: sample_message_to_vec_def split: if_splits)
    then show ?thesis using Prepare p by (simp add: sample_message_from_slice_def nth_append Let_def)
  next
    case (Commit c)
    obtain h r dg sl sg where c: "c = \<lparr>commit_message = \<lparr>commit_view = \<lparr>view_height = h, view_round = r\<rparr>, commit_digest = dg,
        commit_seal = Signature sl\<rparr>, commit_signature = Signature sg\<rparr>"
      by (metis commit_signed.surjective commit_message.surjective view.surjective signature.exhaust unit.exhaust)
    then have "data = 2 # le64 h @ r # dg @ sl @ sg" "length dg = 32" "length sl = 65" "length sg = 65"
      using that Commit by (auto simp: sample_message_to_vec_def split: if_splits)
    then show ?thesis using Commit c by (simp add: sample_message_from_slice_def nth_append Let_def)
  qed (use that in \<open>auto simp: sample_message_to_vec_def\<close>)
  then show ?thesis by (auto simp: wire_ok_def sample_wire_def split: if_splits)
qed

definition sample_proxy :: "string \<Rightarrow> p2p_proxy" where
  "sample_proxy name =
     \<lparr>px_codec = \<lparr>max_message_size = MAX_MESSAGE_SIZE\<rparr>,
      px_topics = \<lparr>consensus_topic = (''consensus/'' @ name, ''consensus/'' @ name), block_topic = (''block/'' @ name, ''block/'' @ name)\<rparr>\<rparr>"

definition sample_state :: "(string \<times> bytes) list p2p_state" where
  "sample_state = \<lparr>ps_requests = channel_new CHANNEL_SIZE, ps_consensus = channel_new CHANNEL_SIZE,
     ps_blocks = channel_new CHANNEL_SIZE, ps_swarm = []\<rparr>"

lemma sample_build: "name \<noteq> [] \<Longrightarrow> build_proxy sample_wire name [] = Some (sample_proxy name, sample_state)"
  and sample_proxy_new: "name \<noteq> [] \<Longrightarrow> p2p_proxy_new sample_wire name = Some (sample_proxy name)"
  by (simp_all add: build_proxy_def p2p_proxy_new_def gossip_topics_new_def sample_wire_def sample_proxy_def sample_state_def
      topic_name_def CONSENSUS_TOPIC_def BLOCK_TOPIC_def Let_def)

definition sample_block :: finalized_block where
  "sample_block = \<lparr>final_raw_block = [1, 2, 3], final_proof = \<lparr>proof_round = 0, proof_seals = []\<rparr>\<rparr>"

lemma sample_sends:
  "p2p_step sample_wire (sample_proxy ''testnet'') (InBlock sample_block) sample_state =
     Goes (sample_state\<lparr>ps_requests := (channel_new CHANNEL_SIZE)\<lparr>ch_queue := [RequestBroadcast ''block/testnet'' [0, 1, 2, 3]]\<rparr>\<rparr>)"
  by (simp add: p2p_step_def broadcast_block_def gossip_serialize_def sample_wire_def sample_block_def sample_proxy_def sample_state_def
      verify_message_size_def MAX_MESSAGE_SIZE_def broadcast_network_def try_send_def channel_new_def CHANNEL_SIZE_def)

theorem broadcast_reaches_peer_witness:
  "p2p_step sample_wire (sample_proxy ''testnet'') (InEvent (gossip_event ''block/testnet'' [0, 1, 2, 3])) sample_state =
     Goes (sample_state\<lparr>ps_blocks := (channel_new CHANNEL_SIZE)\<lparr>ch_queue := [sample_block]\<rparr>\<rparr>) \<and>
   p2p_step sample_wire (sample_proxy ''other'') (InEvent (gossip_event ''block/testnet'' [0, 1, 2, 3])) sample_state = Goes sample_state"
proof -
  have distinct: "topics_distinct sample_wire names" for names by (simp add: topics_distinct_def sample_wire_def inj_on_def)
  have room: "has_room (InBlock sample_block) sample_state" by (simp add: sample_state_def channel_new_def CHANNEL_SIZE_def)
  have new: "p2p_proxy_new sample_wire ''testnet'' = Some (sample_proxy ''testnet'')" "p2p_proxy_new sample_wire ''other'' = Some (sample_proxy ''other'')"
    by (simp_all add: sample_proxy_new)
  have tag: "broadcast_tag (InBlock sample_block) = Some TagBlock" by simp
  obtain h data where sent: "[RequestBroadcast ''block/testnet'' [0, 1, 2, 3]] = [RequestBroadcast h data]"
    and peers: "\<And>name' px' peer. p2p_proxy_new sample_wire name' = Some px' \<Longrightarrow> topics_distinct sample_wire {name', ''testnet''} \<Longrightarrow>
      has_room (InBlock sample_block) peer \<Longrightarrow> p2p_step sample_wire px' (InEvent (gossip_event h data)) peer =
        Goes (if name' = ''testnet'' then delivered (InBlock sample_block) peer else peer)"
    using broadcast_reaches_peer [OF sample_wire_ok new(1) tag sample_sends] by (auto simp: sample_state_def channel_new_def)
  then show ?thesis using peers [OF new(1) distinct room] peers [OF new(2) distinct room]
    by (simp add: sample_state_def channel_new_def)
qed

theorem p2p_panics_exactly_witness:
  "\<exists>st. p2p_run sample_wire (sample_proxy ''testnet'') sample_state [InBlock sample_block] st \<and>
     p2p_step sample_wire (sample_proxy ''testnet'') (InEvent (gossip_event ''consensus/testnet'' [7])) st \<noteq> Panics \<and>
     p2p_step sample_wire (sample_proxy ''testnet'') (InBlock (sample_block\<lparr>final_raw_block := replicate 5000000 0\<rparr>)) st = Panics"
proof -
  obtain st where "p2p_step sample_wire (sample_proxy ''testnet'') (InBlock sample_block) sample_state = Goes st"
    using sample_sends by blast
  then have run: "p2p_run sample_wire (sample_proxy ''testnet'') sample_state [InBlock sample_block] st"
    using p2p_run.step [OF p2p_run.start] by fastforce
  note exactly = p2p_panics_exactly [OF sample_wire_ok sample_build run]
  have "p2p_step sample_wire (sample_proxy ''testnet'') (InEvent (gossip_event ''consensus/testnet'' [7])) st \<noteq> Panics"
    using exactly by auto
  moreover have "block_to_vec sample_wire (sample_block\<lparr>final_raw_block := replicate 5000000 0\<rparr>) = Inr (0 # replicate 5000000 0)"
    by (simp add: sample_wire_def sample_block_def)
  then have "p2p_step sample_wire (sample_proxy ''testnet'') (InBlock (sample_block\<lparr>final_raw_block := replicate 5000000 0\<rparr>)) st = Panics"
    using exactly [of "InBlock (sample_block\<lparr>final_raw_block := replicate 5000000 0\<rparr>)"] by simp
  ultimately show ?thesis using run by blast
qed

end
