(* ===== verification/Sent_Messages.thy ===== *)
theory Sent_Messages
  imports Vote_Provenance P2p
begin

text \<open>
  What a node broadcasts, and what becomes of it. Every message in the history of a node is well
  typed, signed by the node itself and in range, also when a task of an earlier round or of a finished height
  sent it; so the handler of every other validator accepts it, and gossip carries it there.
\<close>

subsection \<open>Types\<close>

text \<open>The sizes the arrays of the Rust types have: 65 bytes with a recovery id for \<open>Signature\<close>, 32 for a digest.\<close>

definition signature_typed :: "signature \<Rightarrow> bool" where
  "signature_typed sig \<longleftrightarrow> length (signature_bytes sig) = SIGNATURE_SIZE \<and> last (signature_bytes sig) \<le> 3"

definition message_typed :: "ibft_message \<Rightarrow> bool" where
  "message_typed m =
     (case m of
        Proposal p \<Rightarrow> signature_typed (proposal_signature p) \<and> length (ps_digest p) = 32
      | Prepare p \<Rightarrow> signature_typed (prepare_signature p) \<and> length (pr_digest p) = 32
      | Commit c \<Rightarrow> signature_typed (commit_signature c) \<and> signature_typed (cm_seal c) \<and> length (cm_digest c) = 32
      | RoundChange rc \<Rightarrow> signature_typed (rc_signature rc))"

definition own_message :: "ibft \<Rightarrow> u64 \<Rightarrow> ibft_message \<Rightarrow> bool" where
  "own_message I h m \<longleftrightarrow> view_height (message_view m) = h \<and>
     (case m of
        Proposal p \<Rightarrow> own_proposal I (ps_view p) p \<and> view_round (ps_view p) \<le> MAX_ROUND
      | Prepare p \<Rightarrow> own_prepare I (pr_view p) p \<and> view_round (pr_view p) \<le> MAX_ROUND
      | Commit c \<Rightarrow> own_commit I (cm_view c) c \<and> view_round (cm_view c) \<le> MAX_ROUND
      | RoundChange rc \<Rightarrow> own_round_change I h rc \<and> view_round (rcs_view rc) \<le> MAX_ROUND + 1)"

definition pc_typed :: "round_pc \<Rightarrow> bool" where
  "pc_typed pc =
     (case pc of
        BroadcastProposal p \<Rightarrow> signature_typed (proposal_signature p)
      | BroadcastPrepare p \<Rightarrow> signature_typed (prepare_signature p)
      | BroadcastCommit c \<Rightarrow> signature_typed (commit_signature c) \<and> signature_typed (cm_seal c)
      | _ \<Rightarrow> True)"

definition run_typed :: "run_pc \<Rightarrow> bool" where
  "run_typed pc = (case pc of RunBroadcastRc rc \<Rightarrow> signature_typed (rc_signature rc) | _ \<Rightarrow> True)"

lemma sign_typed:
  assumes "externals_ok E" and "signer_sign_prehash E s d = Some sig"
  shows "signature_typed sig"
proof -
  have ok: "ecdsa_ok E" using assms(1) by (simp add: externals_ok_def)
  then have "fst (sign_ecdsa_recoverable E d (signer_secret_key s)) \<in> {0..3}" by (simp add: ecdsa_ok_def)
  then show ?thesis
    using sign_prehash_total [OF ok, of s d] assms(2) recid_word(1) by (fastforce simp: signature_typed_def)
qed

lemma typed_pcs:
  assumes "externals_ok (ibft_externals I)"
  shows "pc_typed (propose I v raw rcc)" and "pc_typed (vote_prepare I v d)" and "pc_typed (vote_commit I v d)"
    and "run_typed (broadcast_rc (rc_into_signed (ibft_externals I) msg sg))"
    and "run_typed (broadcast_rc (rc_update_and_resign (ibft_externals I) rc r sg))"
  using sign_typed [OF assms]
  by (auto simp: pc_typed_def run_typed_def propose_def vote_prepare_def vote_commit_def broadcast_rc_def proposal_into_signed_def
      prepare_into_signed_def commit_new_def commit_into_signed_def rc_into_signed_def rc_update_and_resign_def Let_def
      split: option.split bind_split)

lemma pc_typed_simps [simp]:
  "pc_typed Start" "pc_typed QueryRcc" "pc_typed (RecvRcc k)" "pc_typed (AddProposal p)" "pc_typed QueryProposal"
  "pc_typed RecvProposal" "pc_typed RequeryProposal" "pc_typed (AddPrepare q)" "pc_typed (QueryPrepare d)"
  "pc_typed (RecvPrepare d k)" "pc_typed (AddCommit c)" "pc_typed (QueryCommit d)" "pc_typed (RecvCommit d k)"
  "pc_typed (RoundDone seals)" "pc_typed (RoundFailed e)" "pc_typed RoundPanicked"
  "pc_typed (BroadcastProposal p) \<longleftrightarrow> signature_typed (proposal_signature p)"
  "pc_typed (BroadcastPrepare q) \<longleftrightarrow> signature_typed (prepare_signature q)"
  "pc_typed (BroadcastCommit c) \<longleftrightarrow> signature_typed (commit_signature c) \<and> signature_typed (cm_seal c)"
  by (simp_all add: pc_typed_def)

text \<open>A step of a round task keeps the task typed, and sends typed messages of its own.\<close>

lemma round_step_typed:
  assumes "ibft_ok I h" and "round_auth I h t" and "pc_typed (rt_pc t)" and "round_step I ev t s = Some (t', s', msgs)"
  shows "pc_typed (rt_pc t')" and "m \<in> set msgs \<Longrightarrow> message_typed m \<and> own_message I h m"
proof -
  have ok: "externals_ok (ibft_externals I)" using assms(1) by (simp add: ibft_ok_def)
  note typed = typed_pcs [OF ok] and simps = round_poll_def Let_def rt_goto_def rt_enter_def shared_run_state_update_def
  have start: "pc_typed (run_ibft_round_start I st b)" for st b
    by (auto simp: run_ibft_round_start_def run_proposal_0_start_def run_proposal_1_start_def build_and_propose_def typed
        split: sum.split)
  have rcc: "pc_typed (wait_rcc_taken I v b res)" for v b res
    by (auto simp: wait_rcc_taken_def build_and_propose_def typed split: prod.split option.split sum.split)
  have queried: "pc_typed (proposal_queried I v missing res)" if "pc_typed missing" for v missing res
    using that by (auto simp: proposal_queried_def typed split: option.split sum.split)
  have counted: "pc_typed (prepares_counted I v d k)" "pc_typed (commits_taken I v d res)" for v d k res
    by (auto simp: prepares_counted_def commits_taken_def typed split: prod.split option.split)
  have "pc_typed (rt_pc t') \<and> (\<forall>m \<in> set msgs. message_typed m \<and> own_message I h m)"
  proof (cases ev)
    case (Poll b)
    show ?thesis
    proof (cases "rt_pc t")
      case (BroadcastProposal p)
      then have own: "own_proposal I (rt_view t) p" "view_height (rt_view t) = h" "view_round (rt_view t) \<le> MAX_ROUND"
        using assms(2) by (simp_all add: round_auth_def pc_auth_def)
      then have "length (ps_digest p) = 32" using digest_length_32 [OF ok] by (simp add: own_proposal_def)
      then show ?thesis
        using assms(3,4) Poll BroadcastProposal own
        by (auto simp: simps message_typed_def own_message_def own_proposal_def)
    qed (use assms(2-4) Poll in \<open>auto simp: simps start rcc queried counted case_prod_unfold round_auth_def pc_auth_def
        message_typed_def own_message_def own_prepare_def own_commit_def split: prod.splits\<close>)
  next
    case (Recv w)
    then show ?thesis
      using assms(3,4)
      by (cases "rt_pc t") (auto simp: round_recv_def counted_recv_def Let_def rt_goto_def)
  next
    case RecvError
    then show ?thesis using assms(4) by (auto simp: rt_goto_def split: if_splits)
  qed
  then show "pc_typed (rt_pc t')" and "m \<in> set msgs \<Longrightarrow> message_typed m \<and> own_message I h m" by blast+
qed

lemma run_step_typed:
  assumes "ibft_ok I h" and "node_inv I h n" and "run_typed (nd_pc n)" and "run_step I ready n = Some n'"
  shows "run_typed (nd_pc n')" and "m \<in> set (nd_sent n') \<Longrightarrow> m \<in> set (nd_sent n) \<or> message_typed m \<and> own_message I h m"
proof -
  have ok: "externals_ok (ibft_externals I)" using assms(1) by (simp add: ibft_ok_def)
  note typed = typed_pcs(4,5) [OF ok]
  have select: "run_typed (nd_pc (run_select k ready n))" for k
    by (rule run_select_rule) (simp_all add: run_typed_def)
  have "run_typed (nd_pc (handle_timeout I n))" and "run_typed (nd_pc (timeout_take_prepares I p n))" for p
    by (auto simp: handle_timeout_def timeout_take_prepares_def Let_def case_prod_unfold typed
        run_typed_def [where pc = RunPanicked] run_typed_def [where pc = RunTakeProposal]
        split: list.split option.split run_state.split)
  then show "run_typed (nd_pc n')"
    using assms(4) select
    by (cases "nd_pc n")
      (auto simp: run_step_def run_loop_top_def start_ibft_round_def handle_round_finish_def timeout_take_proposal_def
        run_typed_def [where pc = "RunStart _"] run_typed_def [where pc = RunSpawnRound] run_typed_def [where pc = "RunSelect _"]
        run_typed_def [where pc = "RunBroadcastBlock _"] run_typed_def [where pc = RunPanicked] run_typed_def [where pc = "RunTakePrepares _"]
        run_typed_def [where pc = "RunReturn _"] run_typed_def [where pc = "RunExit _"] run_typed_def [where pc = "RunPrune _"]
        Let_def case_prod_unfold split: option.splits)
  assume m: "m \<in> set (nd_sent n')"
  show "m \<in> set (nd_sent n) \<or> message_typed m \<and> own_message I h m"
  proof (cases "nd_pc n")
    case (RunBroadcastRc rc)
    have live: "\<not> exited (nd_pc n)" by (simp add: RunBroadcastRc exited_def)
    note inv = live_inv [OF assms(2) live]
    have "own_round_change I h rc" "rcs_view rc = view_new h (view_round (nd_view n) + 1)"
      using inv(1,7) RunBroadcastRc by (auto simp: pc_inv_def)
    moreover have "view_round (nd_view n) + 1 \<le> MAX_ROUND + 1"
      using inv(2) by (simp add: MAX_ROUND_def word_le_nat_alt unat_word_ariths)
    ultimately show ?thesis
      using m assms(3,4) RunBroadcastRc
      by (auto simp: run_step_def run_typed_def message_typed_def own_message_def view_new_def)
  next
    case (RunReturn r)
    then show ?thesis using m assms(4) by (auto simp: run_step_def split: option.splits)
  qed (use m assms(4) in \<open>auto simp: run_step_def run_loop_top_def start_ibft_round_def run_select_def handle_round_finish_def
        handle_timeout_def timeout_take_proposal_def timeout_take_prepares_def Let_def case_prod_unfold split: option.splits if_splits\<close>)
qed

subsection \<open>The history is typed and the node's own\<close>

definition sent_inv :: "ibft \<Rightarrow> u64 \<Rightarrow> node \<Rightarrow> bool" where
  "sent_inv I h n \<longleftrightarrow>
     node_votes (\<lambda>_ _ _. True) I h n \<and> run_typed (nd_pc n) \<and> (\<forall>t \<in> set (nd_rounds n). pc_typed (rt_pc t)) \<and>
     (\<forall>m \<in> set (nd_sent n). message_typed m \<and> own_message I h m)"

lemma sent_inv_step:
  assumes "node_step I n n'" and "ibft_ok I h" and "node_inv I h n" and "blocks_inv n" and "sent_inv I h n"
  shows "sent_inv I h n'"
proof -
  have votes: "node_votes (\<lambda>_ _ _. True) I h n" and typed: "run_typed (nd_pc n)" "\<forall>t \<in> set (nd_rounds n). pc_typed (rt_pc t)"
    and sent: "\<forall>m \<in> set (nd_sent n). message_typed m \<and> own_message I h m"
    using assms(5) by (simp_all add: sent_inv_def)
  have all: "unforged (\<lambda>_ _ _. True) E m" "casts msgs a (\<lambda>_ _ _. True)" for E m msgs a
    by (simp_all add: unforged_def certificate_unforged_def casts_def split: ibft_message.split)
  from assms(1) have votes': "node_votes (\<lambda>_ _ _. True) I h n'"
    by (cases rule: node_step.cases)
      (use deliver_votes [OF assms(2,3) votes all(1)] internal_votes [OF _ assms(2-4) votes all(2)] in auto)
  have "run_typed (nd_pc n') \<and> (\<forall>t \<in> set (nd_rounds n'). pc_typed (rt_pc t)) \<and>
      (\<forall>m \<in> set (nd_sent n'). message_typed m \<and> own_message I h m)"
    using assms(1)
  proof (cases rule: node_step_cases)
    case (round i ev t s msgs)
    have mem: "nd_rounds n ! i \<in> set (nd_rounds n)" using round(2) by simp
    have pc: "pc_typed (rt_pc (nd_rounds n ! i))" using typed(2) mem by blast
    note step = round_step_typed [OF assms(2) node_votesD(3) [OF votes mem] pc round(4)]
    then show ?thesis
      using typed sent round(1) set_update_subset_insert [of "nd_rounds n" i t] by auto
  next
    case (run ready)
    then show ?thesis
      using run_step_typed [OF assms(2,3) typed(1) run] typed(2) sent run_rounds [OF run] by (metis pc_typed_simps(1))
  qed (use typed sent in \<open>auto simp: node_deliver_def\<close>)
  then show ?thesis using votes' by (simp add: sent_inv_def)
qed

lemma reachable_sent:
  assumes "start_ok I h s mh" and "node_reachable I (node_start I h s mh) n"
  shows "sent_inv I h n"
  using assms(2)
proof induction
  case init
  have "node_votes (\<lambda>_ _ _. True) I h (node_start I h s mh)"
    using assms(1) by (simp add: start_ok_def node_votes_def store_votes_def node_start_def node_blocks_def)
  then show ?case by (simp add: sent_inv_def run_typed_def node_start_def)
next
  case (step n n')
  then show ?case
    using sent_inv_step reachable_inv [OF assms(1)] reachable_blocks assms(1) by (simp add: start_ok_def)
qed

text \<open>C8: Every message a node broadcasts is well typed, in every reachable state: digests have 32 bytes,
  signatures and seals 65 with a recovery id of at most 3, as the arrays of the Rust types demand;
  the message is for the height the node runs; its round is at most \<open>MAX_ROUND\<close>, and that of a
  round change is between 1 and one more.\<close>

theorem sent_messages_typed:
  assumes "start_ok I h s mh" and "node_reachable I (node_start I h s mh) n" and "m \<in> set (nd_sent n)"
  shows "message_typed m \<and> view_height (message_view m) = h \<and>
    (case m of RoundChange rc \<Rightarrow> view_round (rcs_view rc) \<noteq> 0 \<and> view_round (rcs_view rc) \<le> MAX_ROUND + 1
     | _ \<Rightarrow> view_round (message_view m) \<le> MAX_ROUND)"
  using reachable_sent [OF assms(1,2)] assms(3)
  by (cases m) (auto simp: sent_inv_def own_message_def own_round_change_def)

theorem sent_messages_typed_witness:
  "\<exists>n c. node_reachable (sample_ibft [1] 1) sample_start n \<and> Commit c \<in> set (nd_sent n) \<and>
     length (signature_bytes (cm_seal c)) = 65 \<and> length (cm_digest c) = 32"
proof -
  obtain n p c where n: "node_reachable (sample_ibft [1] 1) sample_start n" "nd_sent n = [Proposal p, Commit c]"
    using sample_finished by blast
  then have "Commit c \<in> set (nd_sent n)" by simp
  from sent_messages_typed [OF sample_started n(1) [unfolded sample_start_def] this] this n(1) show ?thesis
    by (auto simp: message_typed_def signature_typed_def SIGNATURE_SIZE_def)
qed

subsection \<open>From the sender's task to the store of a peer\<close>

text \<open>One turn of the loop of \<open>MessageHandler::start\<close>: take the next message of the consensus channel and handle it.\<close>

definition handler_turn :: "'sw p2p_state \<Rightarrow> consensus_engine \<Rightarrow> ('sw p2p_state \<times> consensus_engine) outcome" where
  "handler_turn st e =
     (case ch_queue (ps_consensus st) of
        [] \<Rightarrow> Waits
      | m # rest \<Rightarrow> Goes (st\<lparr>ps_consensus := (ps_consensus st)\<lparr>ch_queue := rest\<rparr>\<rparr>, engine_deliver m e))"

text \<open>The store has no message of that kind from the sender for the view yet.\<close>

definition slot_free :: "consensus_messages \<Rightarrow> view \<Rightarrow> address \<Rightarrow> ibft_message \<Rightarrow> bool" where
  "slot_free s v a m =
     (case m of
        Proposal p \<Rightarrow> proposal_at s v = None
      | Prepare p \<Rightarrow> map_of (prepares_at s v) a = None
      | Commit c \<Rightarrow> map_of (commits_at s v) a = None
      | RoundChange rc \<Rightarrow> map_of (round_changes_at s v) a = None)"

text \<open>A validator that runs beside the sender and has not finished its height.\<close>

definition peer_of :: "ibft \<Rightarrow> u64 \<Rightarrow> consensus_engine \<Rightarrow> bool" where
  "peer_of I h e \<longleftrightarrow>
     ibft_externals (engine_ibft e) = ibft_externals I \<and> ibft_validators (engine_ibft e) = ibft_validators I \<and>
     handler_address (engine_handler e) \<noteq> self_of I \<and> handler_height (engine_handler e) < h \<and> store_wf (engine_messages e)"

lemma own_message_stored:
  assumes "ibft_ok I h" and "own_message I h m" and "view_round (message_view m) \<le> MAX_ROUND" and "peer_of I h e"
    and "slot_free (engine_messages e) (message_view m) (self_of I) m"
  shows "stored_in (engine_messages (engine_deliver m e)) (message_view m) (self_of I) m"
proof -
  have val: "is_validator (ibft_validators I) (self_of I) h" using assms(1) by (simp add: ibft_ok_def)
  note defs = engine_deliver_def peer_of_def own_message_def slot_free_def stored_in_def Let_def not_le not_less
  show ?thesis
  proof (cases m)
    case (Proposal p)
    then show ?thesis using assms(2-5) by (auto simp: defs own_proposal_def store_laws)
  next
    case (Prepare p)
    then show ?thesis using assms(2-5) val by (auto simp: defs own_prepare_def store_laws map_add_Some_iff)
  next
    case (Commit c)
    then show ?thesis using assms(2-5) val by (auto simp: defs own_commit_def store_laws map_add_Some_iff)
  next
    case (RoundChange rc)
    then show ?thesis using assms(2-5) val by (auto simp: defs own_round_change_def store_laws map_add_Some_iff)
  qed
qed

text \<open>C7: What a validator sends arrives in the store of its peers. Any message a node has broadcast at a
  height, of a round in range, that its proxy accepts is queued for the service; the service of a node of the same network that is handed this
  gossip appends exactly this message to its consensus channel; and when the handler of a
  validator that has not finished the height takes it from there, the message passes all checks and is stored under the address
  of its sender, if the sender had none of the kind for the view.\<close>

theorem sent_message_reaches_store:
  assumes "start_ok I h s mh" and "node_reachable I (node_start I h s mh) n" and "m \<in> set (nd_sent n)"
    and "view_round (message_view m) \<le> MAX_ROUND"
    and "wire_ok W" and "p2p_step W px (InMessage m) st = Goes st'"
  shows "\<exists>t data. ch_queue (ps_requests st') = ch_queue (ps_requests st) @ [RequestBroadcast t data] \<and>
    (\<forall>peer. has_room (InMessage m) peer \<longrightarrow>
       (\<exists>peer'. p2p_step W px (InEvent (gossip_event t data)) peer = Goes peer' \<and>
          ch_queue (ps_consensus peer') = ch_queue (ps_consensus peer) @ [m])) \<and>
    (\<forall>peer e rest. ch_queue (ps_consensus peer) = m # rest \<longrightarrow> peer_of I h e \<longrightarrow>
       slot_free (engine_messages e) (message_view m) (self_of I) m \<longrightarrow>
       (\<exists>peer' e'. handler_turn peer e = Goes (peer', e') \<and> ch_queue (ps_consensus peer') = rest \<and>
          stored_in (engine_messages e') (message_view m) (self_of I) m))"
proof -
  let ?t = "get_topic_hash (px_topics px) TagConsensus"
  obtain data where data: "ch_queue (ps_requests st') = ch_queue (ps_requests st) @ [RequestBroadcast ?t data]"
    and relay: "\<And>peer. has_room (InMessage m) peer \<Longrightarrow>
       relay_message_by_tag W px TagConsensus data peer = Some (Inr (), delivered (InMessage m) peer)"
    using relay_broadcast [OF assms(5) _ assms(6), of TagConsensus] by auto
  have tag: "get_gossip_tag (px_topics px) ?t = Some TagConsensus" by (simp add: get_gossip_tag_def)
  have "p2p_step W px (InEvent (gossip_event ?t data)) peer = Goes (delivered (InMessage m) peer)" if "has_room (InMessage m) peer" for peer
    using relay [OF that] tag by (simp add: p2p_step_def run_event_defs del: get_topic_hash.simps)
  moreover have "own_message I h m" using reachable_sent [OF assms(1,2)] assms(3) by (simp add: sent_inv_def)
  then have "stored_in (engine_messages (engine_deliver m e)) (message_view m) (self_of I) m"
    if "peer_of I h e" "slot_free (engine_messages e) (message_view m) (self_of I) m" for e
    using own_message_stored [OF _ _ assms(4) that] assms(1) by (simp add: start_ok_def)
  ultimately show ?thesis
    using data by (intro exI [of _ ?t] exI [of _ data]) (simp add: handler_turn_def del: get_topic_hash.simps)
qed

text \<open>The commit of the sample validator, gossiped to a second node.\<close>

theorem sent_message_reaches_store_witness:
  "\<exists>n c peer e. node_reachable (sample_ibft [1] 1) sample_start n \<and> Commit c \<in> set (nd_sent n) \<and>
     handler_turn (delivered (InMessage (Commit c)) sample_state)
       (engine_new sample_externals (ibft_validators (sample_ibft [1] 1)) mock_block_service 0 (sample_signer 2) 8000000000) = Goes (peer, e) \<and>
     stored_in (engine_messages e) (view_new 1 0) (Address (replicate 24 1)) (Commit c)"
proof -
  let ?I = "sample_ibft [1] 1" and ?px = "sample_proxy ''testnet''"
  let ?e = "engine_new sample_externals (ibft_validators ?I) mock_block_service 0 (sample_signer 2) 8000000000"
  obtain n p c where n: "node_reachable ?I sample_start n" "nd_sent n = [Proposal p, Commit c]" "cm_view c = view_new 1 0"
    using sample_finished by blast
  then have mem: "Commit c \<in> set (nd_sent n)" by simp
  have "message_typed (Commit c)"
    using reachable_sent [OF sample_started n(1) [unfolded sample_start_def]] mem by (simp add: sent_inv_def)
  then have "\<exists>data. sample_message_to_vec (Commit c) = Inr data \<and> length data = 172"
    by (simp add: message_typed_def signature_typed_def SIGNATURE_SIZE_def sample_message_to_vec_def)
  then obtain st where st: "p2p_step sample_wire ?px (InMessage (Commit c)) sample_state = Goes st"
    by (auto simp: p2p_step_def broadcast_message_def gossip_serialize_def sample_wire_def sample_proxy_def sample_state_def
        verify_message_size_def MAX_MESSAGE_SIZE_def broadcast_network_def try_send_def channel_new_def CHANNEL_SIZE_def)
  have round: "view_round (message_view (Commit c)) \<le> MAX_ROUND" by (simp add: n(3) view_new_def MAX_ROUND_def)
  have peer: "peer_of ?I 1 ?e" "slot_free (engine_messages ?e) (message_view (Commit c)) (self_of ?I) (Commit c)"
    using messages_new_wf
    by (simp_all add: peer_of_def slot_free_def engine_new_def ibft_new_def handler_new_def sample_ibft_def sample_address new_laws)
  have self: "self_of ?I = Address (replicate 24 1)" by (simp add: sample_ibft_def sample_address)
  have queue: "ch_queue (ps_consensus (delivered (InMessage (Commit c)) sample_state)) = Commit c # []"
    by (simp add: sample_state_def channel_new_def)
  obtain peer' e' where "handler_turn (delivered (InMessage (Commit c)) sample_state) ?e = Goes (peer', e')"
    "stored_in (engine_messages e') (message_view (Commit c)) (self_of ?I) (Commit c)"
    using sent_message_reaches_store [OF sample_started n(1) [unfolded sample_start_def] mem round sample_wire_ok st] queue peer
    by blast
  then show ?thesis using n(1,3) mem self by auto
qed

end
