(* ===== verification/Validity.thy ===== *)
theory Validity
  imports Network Justified_Votes Sent_Messages
begin

text \<open>
  Validity in the network: whatever is finalized was checked by the block service of a validator that is not faulty. A
  prepare stands for a proposal that the node has accepted; it was accepted because its block was
  checked, or because of a certificate of an earlier round, which holds the prepare of a validator
  that is not faulty. Digests stand for blocks, so this needs that no two blocks in circulation have
  digests that collide.
\<close>

subsection \<open>Votes inside certificates\<close>

text \<open>\<open>B\<close> are the blocks in circulation; a node's own proposals are not restricted.\<close>

definition circulating :: "bytes set \<Rightarrow> ibft \<Rightarrow> ibft_message \<Rightarrow> bool" where
  "circulating B I m =
     (case m of
        Proposal p \<Rightarrow> is_proposer (ibft_validators I) (self_of I) (ps_view p) \<or> raw_block (ps_block p) \<in> B
      | _ \<Rightarrow> True)"

definition proposes :: "bytes set \<Rightarrow> ibft_message \<Rightarrow> bool" where
  "proposes B m = (case m of Proposal p \<Rightarrow> raw_block (ps_block p) \<in> B | _ \<Rightarrow> True)"

definition genuine :: "votes \<Rightarrow> bytes set \<Rightarrow> ibft \<Rightarrow> ibft_message \<Rightarrow> bool" where
  "genuine V B I m \<longleftrightarrow> unforged V (ibft_externals I) m \<and> circulating B I m"

lemma unforged_mono:
  assumes "\<And>a v d. V a v d \<Longrightarrow> W a v d" and "unforged V E m"
  shows "unforged W E m"
proof -
  have "certificate_unforged V E pc \<Longrightarrow> certificate_unforged W E pc" for pc
    unfolding certificate_unforged_def using assms(1) by blast
  then show ?thesis using assms by (cases m) (auto simp: unforged_def)
qed

text \<open>The node's own messages only hold votes that were cast, if those it was given do.\<close>

lemma own_messages_genuine:
  assumes "casts msgs (self_of I) V"
  shows "closed_messages I h (genuine V B I) (\<lambda>_. True) (set msgs)"
proof
  have cast: "d \<in> set (prevotes v msgs)" if "Proposal p \<in> set msgs \<and> ps_view p = v \<and> ps_digest p = d \<or>
      Prepare q \<in> set msgs \<and> pr_view q = v \<and> pr_digest q = d" for p q v d
    using that by (induction v msgs rule: prevotes.induct) auto
  have own: "V (self_of I) v d" if "d \<in> set (prevotes v msgs)" for v d
    using assms that by (simp add: casts_def)
  fix v p q c rc
  show "genuine V B I (Proposal p)" if p: "own_proposal I v p" "Proposal p \<in> set msgs"
    "certified (genuine V B I) (proposal_rcc (proposal_message p))"
  proof -
    have "certificate_unforged V (ibft_externals I) pc"
      if x: "proposal_rcc (proposal_message p) = Some rcc" "x \<in> set (rcc_messages rcc)" "rcm_certificate x = Some pc" for rcc x pc
    proof -
      obtain rc where rc: "genuine V B I (RoundChange rc)" "x = snd (rc_into_metadata rc)"
        using p(3) x(1,2) unfolding certified_def by blast
      then obtain pp where "rcs_prepared rc = Some pp" "pp_certificate pp = pc"
        using x(3) by (auto simp: rc_into_metadata_def split: option.splits)
      then show ?thesis using rc(1) by (auto simp: genuine_def unforged_def)
    qed
    moreover have "V (self_of I) (ps_view p) (ps_digest p)" using p(2) own cast by blast
    ultimately show ?thesis using p(1) by (auto simp: genuine_def unforged_def circulating_def own_proposal_def)
  qed
  show "genuine V B I (Prepare q)" if "own_prepare I v q" "Prepare q \<in> set msgs"
    using that own cast [of _ _ _ q] by (auto simp: genuine_def unforged_def circulating_def own_prepare_def)
  show "genuine V B I (Commit c)" by (simp add: genuine_def unforged_def circulating_def)
  show "genuine V B I (RoundChange rc)" if "backs (genuine V B I) (rc_message rc)"
  proof -
    have "certificate_unforged V (ibft_externals I) (pp_certificate pp)" if pp: "rcs_prepared rc = Some pp" for pp
    proof -
      obtain p qs where "pp = prepared_proposed_new p qs" "\<forall>q \<in> set qs. genuine V B I (Prepare q)"
        using \<open>backs (genuine V B I) (rc_message rc)\<close> pp unfolding backs_def by blast
      then show ?thesis by (auto simp: prepared_proposed_new_def Let_def certificate_unforged_def genuine_def unforged_def)
    qed
    then show ?thesis by (simp add: genuine_def unforged_def circulating_def)
  qed
qed

subsection \<open>The network\<close>

definition net_valid :: "(address \<Rightarrow> ibft) \<Rightarrow> address set \<Rightarrow> u64 \<Rightarrow> bytes set \<Rightarrow> network \<Rightarrow> bool" where
  "net_valid I honest h B net \<longleftrightarrow>
     (\<forall>x \<in> honest. node_closed (genuine (net_votes h honest net) B (I x)) (\<lambda>_. True) (net x) \<and>
        node_justified (genuine (net_votes h honest net) B (I x)) (I x) h (net x))"

text \<open>At the start no store holds a vote of an honest validator for the height, not even in a certificate, or an accepted proposal.\<close>

definition valid_start :: "(address \<Rightarrow> ibft) \<Rightarrow> address set \<Rightarrow> u64 \<Rightarrow> bytes set \<Rightarrow> (address \<Rightarrow> consensus_messages) \<Rightarrow> bool" where
  "valid_start I honest h B s \<longleftrightarrow>
     (\<forall>x \<in> honest. store_all (genuine (\<lambda>a v d. view_height v = h \<longrightarrow> a \<notin> honest) B (I x)) (s x) \<and> store_verified (I x) h (s x))"

lemma genuine_mono: "(\<And>a v d. V a v d \<Longrightarrow> W a v d) \<Longrightarrow> genuine V B I m \<Longrightarrow> genuine W B I m"
  unfolding genuine_def using unforged_mono by blast

lemma net_valid_start:
  assumes "valid_start I honest h B s"
  shows "net_valid I honest h B (net_start I h s mh)"
proof -
  let ?V = "\<lambda>a v d. view_height v = h \<longrightarrow> a \<notin> honest" and ?W = "net_votes h honest (net_start I h s mh)"
  have "node_closed (genuine ?W B (I x)) (\<lambda>_. True) (net_start I h s mh x)" if "x \<in> honest" for x
  proof (rule node_closed_mono)
    show "node_closed (genuine ?V B (I x)) (\<lambda>_. True) (net_start I h s mh x)"
      unfolding net_start_def by (rule node_start_closed) (use assms that in \<open>simp add: valid_start_def\<close>)
    show "genuine ?V B (I x) m \<Longrightarrow> genuine ?W B (I x) m" for m
      by (rule genuine_mono) (auto simp: net_votes_def)
  qed
  moreover have "node_justified P (I x) h (net_start I h s mh x)" if "x \<in> honest" for x P
    unfolding net_start_def by (rule node_start_justified) (use assms that in \<open>simp add: valid_start_def\<close>)
  ultimately show ?thesis by (simp add: net_valid_def)
qed

lemma net_valid_step:
  assumes "net_start_ok E M I honest h s mh" and "net_inv I honest h (net_start I h s mh) net" and "net_valid I honest h B net"
    and "net_step I honest h (proposes B) net net'"
  shows "net_valid I honest h B net'"
proof -
  let ?V = "net_votes h honest" and ?P = "\<lambda>net x. genuine (net_votes h honest net) B (I x)"
  have votes: "node_votes (\<lambda>_ _ _. True) (I x) h (net x)" if "x \<in> honest" for x
    using assms(2) that node_votes_mono [of "?V net" "\<lambda>_ _ _. True" "I x" h "net x"] by (simp add: net_inv_def)
  note valid = assms(3) [unfolded net_valid_def, rule_format]
  obtain x n where x: "x \<in> honest" "net' = net(x := n)" and grow: "\<And>a v d. ?V net a v d \<Longrightarrow> ?V net' a v d"
    and n: "node_closed (?P net' x) (\<lambda>_. True) (net x) \<Longrightarrow> node_justified (?P net' x) (I x) h (net x) \<Longrightarrow>
      node_closed (?P net' x) (\<lambda>_. True) n \<and> node_justified (?P net' x) (I x) h n"
    using assms(4)
  proof cases
    case (deliver x m)
    have V: "?V net' = ?V net" by (rule ext)+ (simp add: net_votes_def deliver(1) node_deliver_def)
    have "genuine (?V net) B (I x) m"
      using deliver(3,4) by (auto simp: genuine_def circulating_def proposes_def split: ibft_message.splits)
    then show thesis
      using that [OF deliver(2,1)] V deliver_closed deliver_justified node_votesD(1) [OF votes [OF deliver(2)]] by metis
  next
    case (internal x n)
    have "self_of (I x) = x" by (rule net_start_okD(3) [OF assms(1) internal(2)])
    then have "casts (nd_sent n) (self_of (I x)) (?V net')" by (simp add: casts_def net_votes_def internal(1))
    note closed = closed_messages.internal_closed [OF own_messages_genuine [OF this]]
    have "?V net a v d \<Longrightarrow> ?V net' a v d" for a v d
      unfolding internal(1) by (erule net_votes_grow) (rule internal_sent [OF internal(3)])
    moreover have "node_closed (?P net' x) (\<lambda>_. True) n" if "node_closed (?P net' x) (\<lambda>_. True) (net x)"
      by (rule closed [OF internal(3) net_node_inv(2) [OF assms(1,2) internal(2)]
            reachable_blocks [OF net_node_inv(1) [OF assms(1,2) internal(2)]] votes [OF internal(2)] that]) simp
    ultimately show thesis
      using that [OF internal(2,1)] internal_justified [OF internal(3) votes [OF internal(2)]] by blast
  qed
  have old: "node_closed (?P net' y) (\<lambda>_. True) (net y)" "node_justified (?P net' y) (I y) h (net y)" if "y \<in> honest" for y
    using valid [OF that] genuine_mono [of "?V net" "?V net'", OF grow] node_closed_mono [of "?P net y" "?P net' y"]
      node_justified_mono [of "?P net y" "?P net' y"] by blast+
  show ?thesis using n old x by (simp add: net_valid_def)
qed

lemma net_reachable_valid:
  assumes "net_start_ok E M I honest h s mh" and "valid_start I honest h B s"
    and "net_reachable I honest h (proposes B) (net_start I h s mh) net"
  shows "net_valid I honest h B net"
  using assms(3)
proof induction
  case init
  show ?case by (rule net_valid_start [OF assms(2)])
next
  case (step net net')
  then show ?case using net_valid_step [OF assms(1) net_reachable_inv [OF assms(1)]] by blast
qed

subsection \<open>Every prepare goes back to a check\<close>

definition checked :: "(address \<Rightarrow> ibft) \<Rightarrow> address set \<Rightarrow> bytes \<Rightarrow> bool" where
  "checked I honest raw \<longleftrightarrow> (\<exists>y \<in> honest. verify_block (ibft_blocks (I y)) raw = Inr ())"

definition collision_free :: "externals \<Rightarrow> bytes set \<Rightarrow> bool" where
  "collision_free E B \<longleftrightarrow> (\<forall>a \<in> B. \<forall>b \<in> B. \<forall>r q. digest_block E a r = digest_block E b q \<longrightarrow> a = b)"

text \<open>A vote of a validator that is not the proposer is a prepare.\<close>

lemma vote_is_prepare:
  assumes "start_ok I h s mh" and "node_reachable I (node_start I h s mh) n" and "d \<in> set (prevotes v (nd_sent n))"
    and "\<not> is_proposer (ibft_validators I) (self_of I) v"
  shows "\<exists>q. Prepare q \<in> set (nd_sent n) \<and> pr_view q = v \<and> pr_digest q = d"
proof -
  have own: "is_proposer (ibft_validators I) (self_of I) (ps_view p)" if "Proposal p \<in> set (nd_sent n)" for p
    using reachable_sent [OF assms(1,2)] that by (auto simp: sent_inv_def own_message_def own_proposal_def)
  have "\<exists>q. Prepare q \<in> set ms \<and> pr_view q = v \<and> pr_digest q = d"
    if "d \<in> set (prevotes v ms)" "set ms \<subseteq> set (nd_sent n)" for ms
    using that assms(4) by (induction v ms rule: prevotes.induct) (use own in \<open>auto split: if_splits\<close>)
  then show ?thesis using assms(3) by blast
qed

text \<open>A quorum less one of the mock's validators is not made of faulty ones alone.\<close>

lemma honest_among:
  assumes "distinct (mock_validators m)" and "3 * card (set (mock_validators m) \<inter> faulty) < length (mock_validators m)"
    and "2 \<le> length (mock_validators m)" and "distinct as" and "set as \<subseteq> set (mock_validators m)"
    and "usize_pred (mock_quorum m h) \<le> length as"
  obtains a where "a \<in> set as" and "a \<in> set (mock_validators m) - faulty"
proof -
  let ?f = "card (set (mock_validators m) \<inter> faulty)" and ?n = "length (mock_validators m)"
  have "?f < ?n * 2 div 3" using assms(2,3) by presburger
  then have "?f < card (set as)" using assms(6) distinct_card [OF assms(4)] by (simp add: mock_quorum_def usize_pred_def)
  then have "\<not> set as \<subseteq> set (mock_validators m) \<inter> faulty"
    using card_mono [of "set (mock_validators m) \<inter> faulty" "set as"] by auto
  then show thesis using that assms(5) by blast
qed

text \<open>The prepares in a valid certificate include one that an honest validator has sent.\<close>

lemma certificate_prepare:
  assumes "distinct (mock_validators m)" and "3 * card (set (mock_validators m) \<inter> faulty) < length (mock_validators m)"
    and "2 \<le> length (mock_validators m)" and "honest = set (mock_validators m) - faulty"
    and "net_start_ok E (mock_manager m) I honest h s mh" and "net_inv I honest h (net_start I h s mh) net"
    and "prepared_certificate_valid E (mock_manager m) pc h r" and "certificate_unforged (net_votes h honest net) E pc"
  shows "\<exists>y \<in> honest. \<exists>q. Prepare q \<in> set (nd_sent (net y)) \<and> view_round (pr_view q) < r \<and>
    pr_digest q = meta_digest (pc_proposal pc)"
proof -
  let ?v = "meta_view (pc_proposal pc)"
  obtain proposer as where pc: "view_height ?v = h" "view_round ?v < r" "mock_is_proposer m proposer ?v"
    "signed_by (prepare_recover_signer E) (pc_prepares pc) as" "distinct as" "usize_pred (mock_quorum m h) \<le> length (pc_prepares pc)"
    "proposer \<notin> set as" "\<forall>a \<in> set as. mock_is_validator m a h"
    "\<forall>p \<in> set (pc_prepares pc). pr_view p = ?v \<and> pr_digest p = meta_digest (pc_proposal pc)"
    using assms(7) by (auto simp: prepared_certificate_valid_def Let_def mock_manager_def)
  have "set as \<subseteq> set (mock_validators m)" using pc(8) by (auto simp: mock_is_validator_iff)
  moreover have "usize_pred (mock_quorum m h) \<le> length as" using pc(6) signed_by_length [OF pc(4)] by simp
  ultimately obtain a where a: "a \<in> set as" "a \<in> honest"
    unfolding assms(4) by (rule honest_among [OF assms(1-3) pc(5)])
  then have "Inr a \<in> set (map (prepare_recover_signer E) (pc_prepares pc))" using pc(4) by (simp add: signed_by_def)
  then obtain q where q: "q \<in> set (pc_prepares pc)" "prepare_recover_signer E q = Inr a" by auto
  then have "meta_digest (pc_proposal pc) \<in> set (prevotes ?v (nd_sent (net a)))"
    using assms(8) pc(1,9) a(2) by (auto simp: certificate_unforged_def net_votes_def)
  moreover have "ibft_validators (I a) = mock_manager m" "self_of (I a) = a" using net_start_okD(2,3) [OF assms(5) a(2)] by simp_all
  then have "\<not> is_proposer (ibft_validators (I a)) (self_of (I a)) ?v"
    using pc(3,7) a(1) by (auto simp: mock_manager_def mock_is_proposer_def Let_def)
  ultimately obtain q' where "Prepare q' \<in> set (nd_sent (net a))" "pr_view q' = ?v" "pr_digest q' = meta_digest (pc_proposal pc)"
    using vote_is_prepare [OF net_start_okD(4) [OF assms(5) a(2)] net_node_inv(1) [OF assms(5,6) a(2)]] by blast
  then show ?thesis using a(2) pc(2) by (intro bexI [of _ a] exI [of _ q']) simp_all
qed

text \<open>A node accepts a proposal for its block, or for a certificate.\<close>

lemma accepted_reason:
  assumes "proposal_verify_fn I v p = Inr ()" and "ps_view p = v" and "unforged V (ibft_externals I) (Proposal p)"
  shows "verify_block (ibft_blocks I) (raw_block (ps_block p)) = Inr () \<or>
    (\<exists>pc. digest_block (ibft_externals I) (raw_block (ps_block p)) (certificate_round pc) = meta_digest (pc_proposal pc) \<and>
       prepared_certificate_valid (ibft_externals I) (ibft_validators I) pc (view_height v) (view_round v) \<and>
       certificate_unforged V (ibft_externals I) pc)"
proof (cases "view_round v = 0")
  case True
  then show ?thesis using assms(1) by (simp add: proposal_verify_fn_def proposal_0_accepts_iff)
next
  case False
  have "certificate_unforged V (ibft_externals I) pc"
    if "proposal_rcc (proposal_message p) = Some rcc" "highest_certificate (rcc_messages rcc) pc" for rcc pc
    using assms(3) highest_certificateD(1) [OF that(2)] that(1) by (auto simp: unforged_def)
  then show ?thesis
    using assms(1,2) False by (auto simp: proposal_verify_fn_def proposal_1_accepts_iff)
qed

text \<open>By induction on the round: what an honest validator prepares is the digest of a checked block.\<close>

lemma prepare_checked:
  assumes "distinct (mock_validators m)" and "3 * card (set (mock_validators m) \<inter> faulty) < length (mock_validators m)"
    and "2 \<le> length (mock_validators m)" and "honest = set (mock_validators m) - faulty"
    and "net_start_ok E (mock_manager m) I honest h s mh" and "net_inv I honest h (net_start I h s mh) net"
    and "net_valid I honest h B net" and "collision_free E B"
    and "x \<in> honest" and "Prepare q \<in> set (nd_sent (net x))"
  shows "\<exists>raw \<in> B. \<exists>r. checked I honest raw \<and> pr_digest q = digest_block E raw r"
  using assms(9,10)
proof (induction "unat (view_round (pr_view q))" arbitrary: x q rule: less_induct)
  case less
  note x = net_start_okD(1-4) [OF assms(5) less.prems(1)]
  have "node_justified (genuine (net_votes h honest net) B (I x)) (I x) h (net x)"
    using assms(7) less.prems(1) by (simp add: net_valid_def)
  from node_justifiedD(3) [OF this less.prems(2)]
  obtain p where p: "unforged (net_votes h honest net) E (Proposal p)" "circulating B (I x) (Proposal p)" "ps_view p = pr_view q"
    "ps_digest p = pr_digest q" "proposal_verify_fn (I x) (pr_view q) p = Inr ()"
    using x(1) by (auto simp: justified_def genuine_def)
  have own: "view_height (pr_view q) = h" "\<not> is_proposer (ibft_validators (I x)) (self_of (I x)) (pr_view q)"
    using reachable_sent [OF x(4) net_node_inv(1) [OF assms(5,6) less.prems(1)]] less.prems(2)
    by (auto simp: sent_inv_def own_message_def own_prepare_def)
  let ?raw = "raw_block (ps_block p)"
  have raw: "?raw \<in> B" using p(2,3) own(2) by (simp add: circulating_def)
  have "proposal_verify_block_digest E p"
    using proposal_verify_fn_digest [OF p(5)] x(1) by simp
  then have digest: "pr_digest q = digest_block E ?raw (block_round (ps_block p))"
    using p(4) by (simp add: proposal_verify_block_digest_def proposed_block_digest_def)
  from accepted_reason [OF p(5,3)] p(1) x(1,2) own(1)
  consider "verify_block (ibft_blocks (I x)) ?raw = Inr ()"
    | pc where "digest_block E ?raw (certificate_round pc) = meta_digest (pc_proposal pc)"
        "prepared_certificate_valid E (mock_manager m) pc h (view_round (pr_view q))"
        "certificate_unforged (net_votes h honest net) E pc" by metis
  then show ?case
  proof cases
    case 1
    then have "checked I honest ?raw" using less.prems(1) by (auto simp: checked_def)
    then show ?thesis using raw digest by blast
  next
    case (2 pc)
    obtain y q' where y: "y \<in> honest" "Prepare q' \<in> set (nd_sent (net y))" "view_round (pr_view q') < view_round (pr_view q)"
      "pr_digest q' = meta_digest (pc_proposal pc)"
      using certificate_prepare [OF assms(1-6) 2(2,3)] by blast
    obtain raw' r where raw': "raw' \<in> B" "checked I honest raw'" "pr_digest q' = digest_block E raw' r"
      using less.hyps [OF _ y(1,2)] y(3) by (auto simp: word_less_nat_alt)
    then have "?raw = raw'" using assms(8) raw 2(1) y(4) unfolding collision_free_def by metis
    then show ?thesis using raw' digest by blast
  qed
qed

text \<open>A finalized block has a quorum of votes, one of them a prepare of an honest validator.\<close>

lemma finalized_checked:
  assumes "distinct (mock_validators m)" and "3 * card (set (mock_validators m) \<inter> faulty) < length (mock_validators m)"
    and "2 \<le> length (mock_validators m)" and "honest = set (mock_validators m) - faulty"
    and "net_start_ok E (mock_manager m) I honest h s mh" and "valid_start I honest h B s" and "collision_free E B"
    and "net_reachable I honest h (proposes B) (net_start I h s mh) net" and "x \<in> honest" and "b \<in> set (nd_blocks (net x))"
  obtains raw r where "raw \<in> B" and "checked I honest raw" and "block_digest E b = digest_block E raw r"
proof -
  have inv: "net_inv I honest h (net_start I h s mh) net" by (rule net_reachable_inv [OF assms(5,8)])
  let ?V = "net_votes h honest net" and ?v = "nd_view (net x)"
  note x = net_start_okD(1-4) [OF assms(5,9)] and h = net_node_inv(3) [OF assms(5) inv assms(9)]
  have "supported ?V (mock_manager m) ?v (block_digest E b)"
    using inv node_votesD(8) [of ?V "I x" h "net x" b] assms(9,10) x(1,2) by (simp add: net_inv_def node_blocks_iff)
  then obtain a as where s: "mock_is_proposer m a ?v" "distinct (a # as)" "usize_pred (mock_quorum m h) \<le> length as"
    "\<forall>b' \<in> set as. mock_is_validator m b' h \<and> ?V b' ?v (block_digest E b)"
    using h by (auto simp: supported_def mock_manager_def)
  have "set as \<subseteq> set (mock_validators m)" using s(4) by (auto simp: mock_is_validator_iff)
  then obtain y where y: "y \<in> set as" "y \<in> honest"
    unfolding assms(4) using s(2,3) by (auto intro: honest_among [OF assms(1-3)])
  have "block_digest E b \<in> set (prevotes ?v (nd_sent (net y)))" using s(4) y h by (simp add: net_votes_def)
  moreover have "\<not> is_proposer (ibft_validators (I y)) (self_of (I y)) ?v"
    using net_start_okD(2,3) [OF assms(5) y(2)] s(1,2) y(1) by (auto simp: mock_manager_def mock_is_proposer_def Let_def)
  ultimately obtain q where q: "Prepare q \<in> set (nd_sent (net y))" "pr_digest q = block_digest E b"
    using vote_is_prepare [OF net_start_okD(4) [OF assms(5) y(2)] net_node_inv(1) [OF assms(5) inv y(2)]] by blast
  obtain raw r where "raw \<in> B" "checked I honest raw" "pr_digest q = digest_block E raw r"
    using prepare_checked [OF assms(1-5) inv net_reachable_valid [OF assms(5,6,8)] assms(7) y(2) q(1)] by blast
  then show thesis using that q(2) by simp
qed

text \<open>C4: Validity. From every admissible start, with fewer than a third of the mock's (at least two) validators faulty
  and sending anything they can sign, in every reachable state of the network: a block that an honest
  validator finalizes has the digest of a block that the block service of an honest validator has
  accepted, and is that block if it is one of those in circulation. This holds across rounds: a
  block that is proposed again with a certificate is not checked again, but goes back to a check in an
  earlier round. The blocks \<open>B\<close> in circulation, those of the proposals the network delivers, have
  no colliding digests.\<close>

theorem network_validity:
  assumes "distinct (mock_validators m)" and "3 * card (set (mock_validators m) \<inter> faulty) < length (mock_validators m)"
    and "2 \<le> length (mock_validators m)" and "honest = set (mock_validators m) - faulty"
    and "net_start_ok E (mock_manager m) I honest h s mh" and "valid_start I honest h B s" and "collision_free E B"
    and "net_reachable I honest h (proposes B) (net_start I h s mh) net" and "x \<in> honest" and "b \<in> set (nd_blocks (net x))"
  shows "(\<exists>raw \<in> B. \<exists>r. checked I honest raw \<and>
      digest_block E raw r = digest_block E (final_raw_block b) (proof_round (final_proof b))) \<and>
    (final_raw_block b \<in> B \<longrightarrow> checked I honest (final_raw_block b))"
proof -
  obtain raw r where raw: "raw \<in> B" "checked I honest raw" "block_digest E b = digest_block E raw r"
    by (rule finalized_checked [OF assms])
  then have "final_raw_block b \<in> B \<longrightarrow> final_raw_block b = raw"
    using assms(7) unfolding collision_free_def block_digest_def by metis
  then show ?thesis using raw by (metis block_digest_def)
qed

theorem network_validity_witness:
  "\<exists>net b. net_reachable pair_ibft {pair_first, pair_second} 1 (proposes {[1, 2, 3]}) pair_net net \<and>
     nd_blocks (net pair_first) = [b] \<and> checked pair_ibft {pair_first, pair_second} (final_raw_block b)"
proof -
  let ?H = "{pair_first, pair_second}" and ?B = "{[1, 2, 3]}"
  have H: "?H = set (mock_validators pair_mock) - {}" by simp
  have delivery: "pair_delivery = proposes ?B" by (rule ext) (simp add: pair_delivery_def proposes_def split: ibft_message.split)
  obtain net b where net: "net_reachable pair_ibft ?H 1 (proposes ?B) pair_net net" "nd_blocks (net pair_first) = [b]"
    "final_raw_block b = [1, 2, 3]" by (rule pair_finished [unfolded delivery])
  have "valid_start pair_ibft ?H 1 ?B messages_new"
    by (simp add: valid_start_def store_all_def store_verified_def store_laws)
  moreover have "collision_free sample_externals ?B" by (simp add: collision_free_def)
  ultimately have "final_raw_block b \<in> ?B \<longrightarrow> checked pair_ibft ?H (final_raw_block b)"
    using network_validity [where m = pair_mock and faulty = "{}", OF _ _ _ H pair_net_ok _ _ net(1) [unfolded pair_net_def], of pair_first b] net(2)
    by simp
  then show ?thesis using net by blast
qed

end
