(* ===== verification/Simulation.thy ===== *)
theory Simulation
  imports Validity
begin

text \<open>
  The simulation tests of the consensus (\<open>sim_tests/mod.rs\<close>): several engines over one \<open>Mock\<close>, which run
  the heights from 1 to 500 together and assert after each that the blocks agree and carry a quorum of seals.
  The state has for each validator its engine, the node of the height it runs, what its
  \<open>run_height\<close> has returned, its channel, and the messages its broadcasts are still to send. Validators, channels and
  engines are found by address: the addresses of the random signers are assumed distinct. The steps
  of all tasks interleave freely; what the simulator's coins (\<open>buggify_with_prob\<close>) decide is free in
  the buggified test and never happens in the other. The model allows more than the simulator does: a
  timeout may fire at any moment, \<open>build_block\<close> may fail, and a task may go on while a send of its broadcast still
  waits for room. A copy of a message that went through Borsh is the message itself, and
  the receivers of the channels live as long as the test, so of the \<open>unwrap\<close>s of a broadcast only that of the signer is left.
\<close>

subsection \<open>The tests\<close>

definition SIM_CHANNEL_SIZE :: nat where
  "SIM_CHANNEL_SIZE = 128"

definition SIM_HEIGHTS :: u64 where
  "SIM_HEIGHTS = 500"

text \<open>The random signers are given; each validator has an empty channel.\<close>

definition create_validators :: "signer list \<Rightarrow> address list \<times> signer list \<times> ibft_message list list" where
  "create_validators signers = (map signer_address signers, signers, map (\<lambda>_. []) signers)"

text \<open>What \<open>Mock::broadcast_message\<close> sends: a copy to every validator but the signer, unless a coin skips it. \<open>None\<close> is the panic of \<open>unwrap\<close>.\<close>

definition message_signer :: "externals \<Rightarrow> ibft_message \<Rightarrow> address anyhow" where
  "message_signer E msg =
     (case msg of
        Proposal p \<Rightarrow> proposal_recover_signer E p
      | Prepare p \<Rightarrow> prepare_recover_signer E p
      | Commit c \<Rightarrow> commit_recover_signer E c
      | RoundChange rc \<Rightarrow> rc_recover_signer E rc)"

fun mock_sends :: "externals \<Rightarrow> mock \<Rightarrow> (ibft_message \<Rightarrow> address set) \<Rightarrow> ibft_message list \<Rightarrow> (address \<times> ibft_message) list option" where
  "mock_sends E m skips [] = Some []"
| "mock_sends E m skips (msg # msgs) =
     (case message_signer E msg of
        Inl e \<Rightarrow> None
      | Inr sender \<Rightarrow>
          map_option (append (map (\<lambda>y. (y, msg)) (mock_broadcast_message m (skips msg) sender))) (mock_sends E m skips msgs))"

text \<open>The blocks \<open>build_block\<close> may return.\<close>

definition mock_blocks :: "bool \<Rightarrow> bytes set" where
  "mock_blocks buggify = {raw. \<exists>coin1 coin2 h. (buggify \<or> \<not> coin1) \<and> mock_build_block coin1 coin2 h = Inr raw}"

text \<open>The assertions on the blocks of a height: \<open>windows(2)\<close> with its \<open>unwrap\<close>s.\<close>

fun check_windows :: "mock \<Rightarrow> u64 \<Rightarrow> finalized_block option list \<Rightarrow> bool" where
  "check_windows m h (x # y # rest) =
     (case (x, y) of
        (Some b1, Some b2) \<Rightarrow>
          final_raw_block b1 = final_raw_block b2 \<and> length (proof_seals (final_proof b1)) \<ge> mock_quorum m h \<and>
          check_windows m h (y # rest)
      | _ \<Rightarrow> False)"
| "check_windows m h _ = True"

text \<open>How a test fails: the \<open>unwrap\<close> of a broadcast, a panic of a validator's \<open>run_height\<close>, an assertion on the blocks of a height.\<close>

datatype sim_failure = BroadcastPanic address | RunPanic address | AssertionFailed

record simulation =
  sm_height :: u64
  sm_engines :: "address \<Rightarrow> consensus_engine"
  sm_nodes :: network
  sm_done :: "address \<Rightarrow> (consensus_engine \<times> finalized_block) option"
  sm_rx :: "address \<Rightarrow> ibft_message list"
  sm_sending :: "address \<Rightarrow> (address \<times> ibft_message) list"
  sm_failed :: "sim_failure option"

abbreviation sm_ibft :: "simulation \<Rightarrow> address \<Rightarrow> ibft" where
  "sm_ibft s x \<equiv> engine_ibft (sm_engines s x)"

definition sim_engine :: "externals \<Rightarrow> mock \<Rightarrow> signer list \<Rightarrow> address \<Rightarrow> consensus_engine" where
  "sim_engine E m signers a =
     engine_new E (mock_manager m) mock_block_service 0 (the (find (\<lambda>sg. signer_address sg = a) signers)) 1000000000"

definition sim_start :: "externals \<Rightarrow> mock \<Rightarrow> signer list \<Rightarrow> simulation" where
  "sim_start E m signers =
     \<lparr>sm_height = 1, sm_engines = sim_engine E m signers, sm_nodes = (\<lambda>a. run_height_start 1 (sim_engine E m signers a)),
      sm_done = (\<lambda>_. None), sm_rx = (\<lambda>_. []), sm_sending = (\<lambda>_. []), sm_failed = None\<rparr>"

text \<open>\<open>join_all\<close> has all blocks: the engines go on to the next height.\<close>

definition sim_next :: "simulation \<Rightarrow> simulation" where
  "sim_next s =
     (let h = sm_height s + 1; engines = (\<lambda>a. case sm_done s a of None \<Rightarrow> sm_engines s a | Some (e, b) \<Rightarrow> e)
      in s\<lparr>sm_height := h, sm_engines := engines, sm_nodes := (\<lambda>a. run_height_start h (engines a)), sm_done := (\<lambda>_. None)\<rparr>)"

definition sim_blocks :: "signer list \<Rightarrow> simulation \<Rightarrow> finalized_block option list" where
  "sim_blocks signers s = map (\<lambda>sg. map_option snd (sm_done s (signer_address sg))) signers"

text \<open>The broadcasts of a step: the sends are queued, or the \<open>unwrap\<close> of a signer panics and the test fails.\<close>

definition sim_broadcast :: "externals \<Rightarrow> mock \<Rightarrow> (ibft_message \<Rightarrow> address set) \<Rightarrow> address \<Rightarrow> ibft_message list \<Rightarrow> simulation \<Rightarrow> simulation" where
  "sim_broadcast E m skips x msgs s =
     (case mock_sends E m skips msgs of
        None \<Rightarrow> s\<lparr>sm_failed := Some (BroadcastPanic x)\<rparr>
      | Some out \<Rightarrow> s\<lparr>sm_sending := (sm_sending s)(x := sm_sending s x @ out)\<rparr>)"

text \<open>
  A step of a validator's tasks, which may broadcast and may end in a panic; the end of its \<open>run_height\<close>; a send that has room in the channel;
  sends of an aborted task that never happen; the message handler during a height and after it; the next height
  when the assertions hold; and the failures: a run loop has panicked, the assertions do not hold. The tests keep the
  senders of the cancel signal, so the branch of the \<open>select!\<close> that returns no block is never taken. A task of a round that panics ends
  alone, as under \<open>tokio\<close>.
\<close>

inductive sim_step :: "externals \<Rightarrow> mock \<Rightarrow> signer list \<Rightarrow> bool \<Rightarrow> simulation \<Rightarrow> simulation \<Rightarrow> bool" for E m signers buggify where
  work: "x \<in> set (mock_validators m) \<Longrightarrow> sm_done s x = None \<Longrightarrow>
    node_builds (sm_ibft s x) (\<lambda>raw. raw \<in> mock_blocks buggify) (sm_nodes s x) n \<Longrightarrow>
    nd_pc n \<noteq> RunReturn None \<Longrightarrow> (\<forall>r. nd_pc n \<noteq> RunExit r) \<Longrightarrow>
    nd_sent n = nd_sent (sm_nodes s x) @ msgs \<Longrightarrow> (\<not> buggify \<longrightarrow> (\<forall>msg. skips msg = {})) \<Longrightarrow>
    sim_step E m signers buggify s (sim_broadcast E m skips x msgs (s\<lparr>sm_nodes := (sm_nodes s)(x := n)\<rparr>))"
| finish: "x \<in> set (mock_validators m) \<Longrightarrow> sm_done s x = None \<Longrightarrow>
    run_step (sm_ibft s x) False (sm_nodes s x) = Some n \<Longrightarrow> nd_pc n = RunExit (Some b) \<Longrightarrow>
    sim_step E m signers buggify s
      (s\<lparr>sm_nodes := (sm_nodes s)(x := n), sm_done := (sm_done s)(x \<mapsto> (run_height_end n (sm_engines s x), b))\<rparr>)"
| send: "sm_sending s x = xs @ (y, msg) # ys \<Longrightarrow> length (sm_rx s y) < SIM_CHANNEL_SIZE \<Longrightarrow>
    sim_step E m signers buggify s (s\<lparr>sm_rx := (sm_rx s)(y := sm_rx s y @ [msg]), sm_sending := (sm_sending s)(x := xs @ ys)\<rparr>)"
| aborted: "sm_sending s x = xs @ ys @ zs \<Longrightarrow>
    sim_step E m signers buggify s (s\<lparr>sm_sending := (sm_sending s)(x := xs @ zs)\<rparr>)"
| receive: "y \<in> set (mock_validators m) \<Longrightarrow> sm_rx s y = msg # rest \<Longrightarrow> sm_done s y = None \<Longrightarrow>
    sim_step E m signers buggify s
      (s\<lparr>sm_rx := (sm_rx s)(y := rest), sm_nodes := (sm_nodes s)(y := node_deliver (sm_ibft s y) msg (sm_nodes s y))\<rparr>)"
| receive_done: "sm_rx s y = msg # rest \<Longrightarrow> sm_done s y = Some (e, b) \<Longrightarrow>
    sim_step E m signers buggify s (s\<lparr>sm_rx := (sm_rx s)(y := rest), sm_done := (sm_done s)(y \<mapsto> (engine_deliver msg e, b))\<rparr>)"
| next_height: "\<forall>x \<in> set (mock_validators m). sm_done s x \<noteq> None \<Longrightarrow> check_windows m (sm_height s) (sim_blocks signers s) \<Longrightarrow>
    sm_height s < SIM_HEIGHTS \<Longrightarrow> sim_step E m signers buggify s (sim_next s)"
| run_panic: "x \<in> set (mock_validators m) \<Longrightarrow> sm_done s x = None \<Longrightarrow> nd_pc (sm_nodes s x) = RunPanicked \<Longrightarrow>
    sim_step E m signers buggify s (s\<lparr>sm_failed := Some (RunPanic x)\<rparr>)"
| assertion_fails: "\<forall>x \<in> set (mock_validators m). sm_done s x \<noteq> None \<Longrightarrow> \<not> check_windows m (sm_height s) (sim_blocks signers s) \<Longrightarrow>
    sim_step E m signers buggify s (s\<lparr>sm_failed := Some AssertionFailed\<rparr>)"

text \<open>A run ends with the first failure.\<close>

inductive sim_reachable :: "externals \<Rightarrow> mock \<Rightarrow> signer list \<Rightarrow> bool \<Rightarrow> simulation \<Rightarrow> bool" for E m signers buggify where
  init: "sim_reachable E m signers buggify (sim_start E m signers)"
| step: "sim_reachable E m signers buggify s \<Longrightarrow> sm_failed s = None \<Longrightarrow> sim_step E m signers buggify s s' \<Longrightarrow> sim_reachable E m signers buggify s'"

lemma mock_blocks_eq: "mock_blocks buggify = (if buggify then {[1, 2, 3], [1, 2]} else {[1, 2, 3]})"
  by (auto simp: mock_blocks_def mock_build_block_def)

subsection \<open>Heights and blocks of messages\<close>

definition certificate_upto :: "u64 \<Rightarrow> prepared_certificate \<Rightarrow> bool" where
  "certificate_upto h pc \<longleftrightarrow> (\<forall>q \<in> set (pc_prepares pc). view_height (pr_view q) \<le> h)"

text \<open>A message of a height up to \<open>h\<close>, also inside its certificates, with a block of \<open>B\<close>.\<close>

definition settled :: "u64 \<Rightarrow> bytes set \<Rightarrow> ibft_message \<Rightarrow> bool" where
  "settled h B m \<longleftrightarrow> view_height (message_view m) \<le> h \<and>
     (case m of
        Proposal p \<Rightarrow> raw_block (ps_block p) \<in> B \<and>
          (\<forall>rcc x pc. proposal_rcc (proposal_message p) = Some rcc \<longrightarrow> x \<in> set (rcc_messages rcc) \<longrightarrow>
             rcm_certificate x = Some pc \<longrightarrow> certificate_upto h pc)
      | RoundChange rc \<Rightarrow>
          (\<forall>pp. rcs_prepared rc = Some pp \<longrightarrow> raw_block (pp_block pp) \<in> B \<and> certificate_upto h (pp_certificate pp))
      | _ \<Rightarrow> True)"

interpretation settled: closed_messages I h "settled h B" "\<lambda>raw. raw \<in> B" sent for I h B sent
proof
  fix v p q c rc
  show "settled h B (Proposal p)" if p: "own_proposal I v p" "view_height v = h" "certified (settled h B) (proposal_rcc (proposal_message p))"
    "sourced (settled h B) (\<lambda>raw. raw \<in> B) (raw_block (ps_block p))"
  proof -
    have "raw_block (ps_block p) \<in> B" using p(4) by (auto simp: sourced_def settled_def)
    moreover have "certificate_upto h pc"
      if x: "proposal_rcc (proposal_message p) = Some rcc" "x \<in> set (rcc_messages rcc)" "rcm_certificate x = Some pc" for rcc x pc
    proof -
      obtain rc where "settled h B (RoundChange rc)" "x = snd (rc_into_metadata rc)"
        using p(3) x(1,2) unfolding certified_def by blast
      then show ?thesis using x(3) by (auto simp: settled_def rc_into_metadata_def split: option.splits)
    qed
    ultimately show ?thesis using p(1,2) by (simp add: settled_def own_proposal_def)
  qed
  show "settled h B (Prepare q)" if "own_prepare I v q" "view_height v = h" using that by (simp add: settled_def own_prepare_def)
  show "settled h B (Commit c)" if "own_commit I v c" "view_height v = h" using that by (simp add: settled_def own_commit_def)
  show "settled h B (RoundChange rc)" if "view_height (rcs_view rc) = h" "backs (settled h B) (rc_message rc)"
    using that by (force simp: settled_def backs_def certificate_upto_def prepared_proposed_new_def Let_def)
qed

lemma settled_mono: "settled h B msg \<Longrightarrow> h \<le> k \<Longrightarrow> settled k B msg"
  by (cases msg) (fastforce simp: settled_def certificate_upto_def)+

text \<open>Messages of earlier heights hold no votes of the height.\<close>

lemma settled_unforged:
  assumes "settled h B msg" and "\<And>a v d. view_height v \<le> h \<Longrightarrow> V a v d"
  shows "unforged V E msg"
proof -
  have "certificate_upto h pc \<Longrightarrow> certificate_unforged V E pc" for pc
    using assms(2) by (simp add: certificate_upto_def certificate_unforged_def)
  then show ?thesis using assms by (cases msg) (auto simp: settled_def unforged_def)
qed

lemma settled_proposes: "settled h B msg \<Longrightarrow> proposes B msg"
  by (cases msg) (simp_all add: settled_def proposes_def)

lemma settled_store:
  assumes "store_wf s" and "store_all (settled h B) s" and "h < view_height v"
  shows "proposal_at s v = None" and "prepares_at s v = []"
proof -
  note filed = store_wf_filed [OF assms(1)] and all = store_allD [OF assms(2)]
  have "\<not> view_height v \<le> h" using assms(3) by simp
  then show "proposal_at s v = None" using filed(1) all(1) by (cases "proposal_at s v") (auto simp: settled_def)
  have False if "(a, q) \<in> set (prepares_at s v)" for a q
    using filed(2) [OF that] all(2) [OF that] \<open>\<not> view_height v \<le> h\<close> by (simp add: settled_def)
  then show "prepares_at s v = []" by (cases "prepares_at s v") auto
qed

subsection \<open>The invariant\<close>

definition sim_ibft_ok :: "externals \<Rightarrow> mock \<Rightarrow> address \<Rightarrow> ibft \<Rightarrow> bool" where
  "sim_ibft_ok E m x I \<longleftrightarrow> ibft_externals I = E \<and> ibft_validators I = mock_manager m \<and> ibft_blocks I = mock_block_service \<and>
     self_of I = x \<and> (\<forall>k. ibft_ok I k)"

text \<open>The nodes of the height have run as a network of honest validators.\<close>

definition sim_net :: "externals \<Rightarrow> mock \<Rightarrow> bool \<Rightarrow> simulation \<Rightarrow> bool" where
  "sim_net E m buggify s \<longleftrightarrow>
     (\<exists>st mh. net_start_ok E (mock_manager m) (sm_ibft s) (set (mock_validators m)) (sm_height s) st mh \<and>
        valid_start (sm_ibft s) (set (mock_validators m)) (sm_height s) (mock_blocks buggify) st \<and>
        net_reachable (sm_ibft s) (set (mock_validators m)) (sm_height s) (proposes (mock_blocks buggify))
          (net_start (sm_ibft s) (sm_height s) st mh) (sm_nodes s))"

definition sim_traffic :: "externals \<Rightarrow> mock \<Rightarrow> bool \<Rightarrow> simulation \<Rightarrow> bool" where
  "sim_traffic E m buggify s \<longleftrightarrow>
     (\<forall>x. \<forall>msg \<in> set (sm_rx s x) \<union> snd ` set (sm_sending s x).
        unforged (net_votes (sm_height s) (set (mock_validators m)) (sm_nodes s)) E msg \<and>
        settled (sm_height s) (mock_blocks buggify) msg)"

definition sim_ended :: "mock \<Rightarrow> bool \<Rightarrow> simulation \<Rightarrow> bool" where
  "sim_ended m buggify s \<longleftrightarrow>
     (\<forall>x e b. sm_done s x = Some (e, b) \<longrightarrow> x \<in> set (mock_validators m) \<and> nd_pc (sm_nodes s x) = RunExit (Some b) \<and>
        engine_ibft e = sm_ibft s x \<and> engine_ok (sm_height s + 1) e \<and>
        store_all (settled (sm_height s) (mock_blocks buggify)) (engine_messages e))"

definition sim_inv :: "externals \<Rightarrow> mock \<Rightarrow> bool \<Rightarrow> simulation \<Rightarrow> bool" where
  "sim_inv E m buggify s \<longleftrightarrow>
     1 \<le> sm_height s \<and> sm_height s \<le> SIM_HEIGHTS \<and> (\<forall>x \<in> set (mock_validators m). sim_ibft_ok E m x (sm_ibft s x)) \<and>
     sim_net E m buggify s \<and> sim_traffic E m buggify s \<and> sim_ended m buggify s \<and>
     (\<forall>x \<in> set (mock_validators m).
        node_closed (settled (sm_height s) (mock_blocks buggify)) (\<lambda>raw. raw \<in> mock_blocks buggify) (sm_nodes s x))"

lemma sim_invD:
  assumes "sim_inv E m buggify s"
  shows "sm_height s \<le> SIM_HEIGHTS" and "x \<in> set (mock_validators m) \<Longrightarrow> sim_ibft_ok E m x (sm_ibft s x)"
    and "sim_net E m buggify s" and "sim_traffic E m buggify s" and "sim_ended m buggify s"
    and "x \<in> set (mock_validators m) \<Longrightarrow>
      node_closed (settled (sm_height s) (mock_blocks buggify)) (\<lambda>raw. raw \<in> mock_blocks buggify) (sm_nodes s x)"
  using assms unfolding sim_inv_def by blast+

lemma sim_inv_failed [simp]: "sim_inv E m buggify (s\<lparr>sm_failed := f\<rparr>) \<longleftrightarrow> sim_inv E m buggify s"
  by (simp add: sim_inv_def sim_net_def sim_traffic_def sim_ended_def)

lemma height_succ:
  assumes "sm_height s \<le> SIM_HEIGHTS"
  shows "sm_height s < sm_height s + 1"
  using assms by (simp add: SIM_HEIGHTS_def word_less_nat_alt word_le_nat_alt unat_word_ariths)

lemma net_step_votes:
  assumes "net_step I honest h ok net net'" and "net_votes h honest net a v d"
  shows "net_votes h honest net' a v d"
  using assms(1)
proof cases
  case (deliver x msg)
  have "\<exists>ms. nd_sent (node_deliver (I x) msg (net x)) = nd_sent (net x) @ ms" by (simp add: node_deliver_def)
  then show ?thesis unfolding deliver(1) by (rule net_votes_grow [OF assms(2)])
next
  case (internal x n)
  then show ?thesis using net_votes_grow [OF assms(2)] internal_sent by blast
qed

text \<open>What the network of a height gives for each node.\<close>

lemma sim_node:
  assumes "sim_inv E m buggify s" and "x \<in> set (mock_validators m)"
  shows "\<exists>st mh. start_ok (sm_ibft s x) (sm_height s) st mh \<and>
      node_reachable (sm_ibft s x) (node_start (sm_ibft s x) (sm_height s) st mh) (sm_nodes s x)"
    and "node_inv (sm_ibft s x) (sm_height s) (sm_nodes s x)" and "blocks_inv (sm_nodes s x)"
    and "node_votes (\<lambda>_ _ _. True) (sm_ibft s x) (sm_height s) (sm_nodes s x)"
    and "\<forall>msg \<in> set (nd_sent (sm_nodes s x)). unforged (net_votes (sm_height s) (set (mock_validators m)) (sm_nodes s)) E msg \<and>
      own_message (sm_ibft s x) (sm_height s) msg"
proof -
  let ?V = "set (mock_validators m)" and ?h = "sm_height s" and ?I = "sm_ibft s" and ?B = "mock_blocks buggify"
  obtain st mh where net: "net_start_ok E (mock_manager m) ?I ?V ?h st mh" "valid_start ?I ?V ?h ?B st"
    "net_reachable ?I ?V ?h (proposes ?B) (net_start ?I ?h st mh) (sm_nodes s)"
    using sim_invD(3) [OF assms(1)] unfolding sim_net_def by blast
  have inv: "net_inv ?I ?V ?h (net_start ?I ?h st mh) (sm_nodes s)" by (rule net_reachable_inv [OF net(1,3)])
  note node = net_node_inv [OF net(1) inv assms(2)] and start = net_start_okD [OF net(1) assms(2)]
  have closed: "node_closed (genuine (net_votes ?h ?V (sm_nodes s)) ?B (?I x)) (\<lambda>_. True) (sm_nodes s x)"
    using net_reachable_valid [OF net] assms(2) by (simp add: net_valid_def)
  show "\<forall>msg \<in> set (nd_sent (sm_nodes s x)). unforged (net_votes ?h ?V (sm_nodes s)) E msg \<and> own_message (?I x) ?h msg"
    using node_closedD(5) [OF closed] start(1) reachable_sent [OF start(4) node(1)] by (simp add: genuine_def sent_inv_def)
  show "node_votes (\<lambda>_ _ _. True) (?I x) ?h (sm_nodes s x)"
    using reachable_sent [OF start(4) node(1)] by (simp add: sent_inv_def)
  show "\<exists>st mh. start_ok (?I x) ?h st mh \<and> node_reachable (?I x) (node_start (?I x) ?h st mh) (sm_nodes s x)"
    using start(4) node(1) by blast
  show "node_inv (?I x) ?h (sm_nodes s x)" "blocks_inv (sm_nodes s x)" by (rule node(2), rule reachable_blocks [OF node(1)])
qed


text \<open>Steps that keep the height and the engines: the network moves on or stays, and the traffic is old or justified.\<close>

lemma sim_inv_step:
  assumes "sim_inv E m buggify s" and "s' = s\<lparr>sm_nodes := net, sm_rx := rx, sm_sending := out, sm_done := d\<rparr>"
    and "net = sm_nodes s \<or>
      net_step (sm_ibft s) (set (mock_validators m)) (sm_height s) (proposes (mock_blocks buggify)) (sm_nodes s) net"
    and "\<And>x msg. msg \<in> set (rx x) \<union> snd ` set (out x) \<Longrightarrow>
      (\<exists>y. msg \<in> set (sm_rx s y) \<union> snd ` set (sm_sending s y)) \<or>
      unforged (net_votes (sm_height s) (set (mock_validators m)) net) E msg \<and> settled (sm_height s) (mock_blocks buggify) msg"
    and "sim_ended m buggify s'"
    and "\<And>x. x \<in> set (mock_validators m) \<Longrightarrow>
      node_closed (settled (sm_height s) (mock_blocks buggify)) (\<lambda>raw. raw \<in> mock_blocks buggify) (net x)"
  shows "sim_inv E m buggify s'"
proof -
  let ?V = "set (mock_validators m)" and ?h = "sm_height s"
  have same: "sm_height s' = ?h" "sm_engines s' = sm_engines s" "sm_nodes s' = net" "sm_rx s' = rx" "sm_sending s' = out"
    by (simp_all add: assms(2))
  have "sim_net E m buggify s'"
    using sim_invD(3) [OF assms(1)] assms(3) net_reachable.step unfolding sim_net_def same by metis
  moreover have "sim_traffic E m buggify s'"
  proof -
    have grow: "net_votes ?h ?V (sm_nodes s) a v e \<Longrightarrow> net_votes ?h ?V net a v e" for a v e
      using assms(3) net_step_votes by blast
    have "unforged (net_votes ?h ?V net) E msg \<and> settled ?h (mock_blocks buggify) msg"
      if "msg \<in> set (rx x) \<union> snd ` set (out x)" for x msg
      using assms(4) [OF that] sim_invD(4) [OF assms(1)] unforged_mono [of "net_votes ?h ?V (sm_nodes s)" "net_votes ?h ?V net", OF grow]
      unfolding sim_traffic_def by blast
    then show ?thesis unfolding sim_traffic_def same by blast
  qed
  ultimately show ?thesis using assms(1,5,6) unfolding sim_inv_def same by blast
qed

lemma mock_sends_messages:
  assumes "mock_sends E m skips msgs = Some out"
  shows "snd ` set out \<subseteq> set msgs"
  using assms by (induction msgs arbitrary: out) (fastforce split: sum.splits)+

text \<open>A broadcast of the node's own messages does not panic.\<close>

lemma own_message_signer: "own_message I h msg \<Longrightarrow> message_signer (ibft_externals I) msg = Inr (self_of I)"
  by (cases msg) (simp_all add: own_message_def message_signer_def own_proposal_def own_prepare_def own_commit_def own_round_change_def)

lemma mock_sends_total:
  assumes "\<forall>msg \<in> set msgs. own_message I h msg"
  shows "\<exists>out. mock_sends (ibft_externals I) m skips msgs = Some out"
  using assms by (induction msgs) (auto simp: own_message_signer)

lemma sim_inv_internal:
  assumes "sim_inv E m buggify s" and "x \<in> set (mock_validators m)"
    and "node_builds (sm_ibft s x) (\<lambda>raw. raw \<in> mock_blocks buggify) (sm_nodes s x) n"
  defines "net \<equiv> (sm_nodes s)(x := n)"
  shows "net_step (sm_ibft s) (set (mock_validators m)) (sm_height s) (proposes (mock_blocks buggify)) (sm_nodes s) net"
    and "\<And>y. y \<in> set (mock_validators m) \<Longrightarrow>
      node_closed (settled (sm_height s) (mock_blocks buggify)) (\<lambda>raw. raw \<in> mock_blocks buggify) (net y)"
    and "\<And>msg. msg \<in> set (nd_sent n) \<Longrightarrow>
      unforged (net_votes (sm_height s) (set (mock_validators m)) net) E msg \<and> settled (sm_height s) (mock_blocks buggify) msg"
    and "\<And>msg. msg \<in> set (nd_sent n) \<Longrightarrow> own_message (sm_ibft s x) (sm_height s) msg"
proof -
  let ?V = "set (mock_validators m)" and ?h = "sm_height s" and ?B = "mock_blocks buggify" and ?I = "sm_ibft s"
  show step: "net_step ?I ?V ?h (proposes ?B) (sm_nodes s) net"
    unfolding net_def using assms(2) by (rule net_step.internal) (rule node_builds_mono [OF assms(3) TrueI])
  note n = sim_node(2-4) [OF assms(1,2)]
  have "node_closed (settled ?h ?B) (\<lambda>raw. raw \<in> ?B) n"
    by (rule settled.internal_closed [OF assms(3) n sim_invD(6) [OF assms(1,2)] subset_UNIV])
  then show closed: "node_closed (settled ?h ?B) (\<lambda>raw. raw \<in> ?B) (net y)" if "y \<in> ?V" for y
    using sim_invD(6) [OF assms(1) that] by (simp add: net_def)
  let ?t = "s\<lparr>sm_nodes := net, sm_rx := \<lambda>_. [], sm_sending := \<lambda>_. [], sm_done := \<lambda>_. None\<rparr>"
  have "sim_inv E m buggify ?t"
    by (rule sim_inv_step [OF assms(1) refl disjI2 [OF step] _ _ closed]) (simp_all add: sim_ended_def)
  from sim_node(5) [OF this assms(2)]
  have sent: "\<forall>msg \<in> set (nd_sent n). unforged (net_votes ?h ?V net) E msg \<and> own_message (?I x) ?h msg" by (simp add: net_def)
  then show "unforged (net_votes ?h ?V net) E msg \<and> settled ?h ?B msg" if "msg \<in> set (nd_sent n)" for msg
    using that node_closedD(5) [OF closed [OF assms(2)]] by (simp add: net_def)
  show "own_message (?I x) ?h msg" if "msg \<in> set (nd_sent n)" for msg using sent that by blast
qed

subsection \<open>Every step keeps the invariant\<close>

lemma sim_inv_work:
  assumes "sim_inv E m buggify s" and "x \<in> set (mock_validators m)" and "sm_done s x = None"
    and "node_builds (sm_ibft s x) (\<lambda>raw. raw \<in> mock_blocks buggify) (sm_nodes s x) n"
    and "nd_sent n = nd_sent (sm_nodes s x) @ msgs" and "mock_sends E m skips msgs = Some out"
  shows "sim_inv E m buggify (s\<lparr>sm_nodes := (sm_nodes s)(x := n), sm_sending := (sm_sending s)(x := sm_sending s x @ out)\<rparr>)"
proof (rule sim_inv_step [OF assms(1)])
  let ?s' = "s\<lparr>sm_nodes := (sm_nodes s)(x := n), sm_sending := (sm_sending s)(x := sm_sending s x @ out)\<rparr>"
  note step = sim_inv_internal [OF assms(1,2,4)]
  show "?s' = s\<lparr>sm_nodes := (sm_nodes s)(x := n), sm_rx := sm_rx s,
      sm_sending := (sm_sending s)(x := sm_sending s x @ out), sm_done := sm_done s\<rparr>" by simp
  show "(sm_nodes s)(x := n) = sm_nodes s \<or>
    net_step (sm_ibft s) (set (mock_validators m)) (sm_height s) (proposes (mock_blocks buggify)) (sm_nodes s) ((sm_nodes s)(x := n))"
    by (rule disjI2 [OF step(1)])
  have sent: "msg \<in> set (nd_sent n)" if "msg \<in> snd ` set out" for msg
    using that mock_sends_messages [OF assms(6)] assms(5) by auto
  show "(\<exists>z. msg \<in> set (sm_rx s z) \<union> snd ` set (sm_sending s z)) \<or>
      unforged (net_votes (sm_height s) (set (mock_validators m)) ((sm_nodes s)(x := n))) E msg \<and>
      settled (sm_height s) (mock_blocks buggify) msg"
    if "msg \<in> set (sm_rx s y) \<union> snd ` set (((sm_sending s)(x := sm_sending s x @ out)) y)" for y msg
  proof (cases "msg \<in> snd ` set out")
    case True
    then show ?thesis using step(3) sent by blast
  next
    case False
    then have "msg \<in> set (sm_rx s y) \<union> snd ` set (sm_sending s y)" using that by (auto simp: image_Un split: if_splits)
    then show ?thesis by blast
  qed
  show "sim_ended m buggify ?s'"
    using sim_invD(5) [OF assms(1)] assms(3) by (simp add: sim_ended_def)
  show "node_closed (settled (sm_height s) (mock_blocks buggify)) (\<lambda>raw. raw \<in> mock_blocks buggify) (((sm_nodes s)(x := n)) y)"
    if "y \<in> set (mock_validators m)" for y by (rule step(2) [OF that])
qed

text \<open>Whatever a step broadcasts is the validator's own, so its broadcasts do not panic.\<close>

lemma sim_work:
  assumes "sim_inv E m buggify s" and "x \<in> set (mock_validators m)"
    and "node_builds (sm_ibft s x) (\<lambda>raw. raw \<in> mock_blocks buggify) (sm_nodes s x) n"
    and "nd_sent n = nd_sent (sm_nodes s x) @ msgs"
  obtains out where "mock_sends E m skips msgs = Some out"
    "sim_broadcast E m skips x msgs (s\<lparr>sm_nodes := (sm_nodes s)(x := n)\<rparr>) =
      s\<lparr>sm_nodes := (sm_nodes s)(x := n), sm_sending := (sm_sending s)(x := sm_sending s x @ out)\<rparr>"
proof -
  have "\<forall>msg \<in> set msgs. own_message (sm_ibft s x) (sm_height s) msg"
    using sim_inv_internal(4) [OF assms(1-3)] assms(4) by simp
  then obtain out where "mock_sends E m skips msgs = Some out"
    using mock_sends_total [of msgs "sm_ibft s x" "sm_height s" m skips] sim_invD(2) [OF assms(1,2)] by (auto simp: sim_ibft_ok_def)
  then show thesis using that by (simp add: sim_broadcast_def)
qed

lemma sim_inv_finish:
  assumes "sim_inv E m buggify s" and "x \<in> set (mock_validators m)"
    and "run_step (sm_ibft s x) False (sm_nodes s x) = Some n" and "nd_pc n = RunExit (Some b)"
  shows "sim_inv E m buggify
    (s\<lparr>sm_nodes := (sm_nodes s)(x := n), sm_done := (sm_done s)(x \<mapsto> (run_height_end n (sm_engines s x), b))\<rparr>)"
proof (rule sim_inv_step [OF assms(1)])
  let ?I = "sm_ibft s x" and ?h = "sm_height s" and ?e = "run_height_end n (sm_engines s x)"
  let ?s' = "s\<lparr>sm_nodes := (sm_nodes s)(x := n), sm_done := (sm_done s)(x \<mapsto> (?e, b))\<rparr>"
  note step = sim_inv_internal [OF assms(1,2) node_builds.run [OF assms(3)]] and ibft = sim_invD(2) [OF assms(1,2)]
  show "?s' = s\<lparr>sm_nodes := (sm_nodes s)(x := n), sm_rx := sm_rx s, sm_sending := sm_sending s,
      sm_done := (sm_done s)(x \<mapsto> (?e, b))\<rparr>" by simp
  show "(sm_nodes s)(x := n) = sm_nodes s \<or>
    net_step (sm_ibft s) (set (mock_validators m)) ?h (proposes (mock_blocks buggify)) (sm_nodes s) ((sm_nodes s)(x := n))"
    by (rule disjI2 [OF step(1)])
  obtain st mh where n: "start_ok ?I ?h st mh" "node_reachable ?I (node_start ?I ?h st mh) (sm_nodes s x)"
    using sim_node(1) [OF assms(1,2)] by blast
  have "start_ok ?I (?h + 1) (nd_store n) (nd_handler n)"
    by (rule exit_start_ok [OF n assms(3,4) height_succ [OF sim_invD(1) [OF assms(1)]]])
      (use ibft in \<open>simp_all add: sim_ibft_ok_def mock_manager_def mock_quorum_def\<close>)
  then have e: "engine_ibft ?e = ?I" "engine_ok (?h + 1) ?e" by (simp_all add: engine_ok_def run_height_end_def)
  have "store_all (settled ?h (mock_blocks buggify)) (engine_messages ?e)"
    using node_closedD(1) [OF step(2) [OF assms(2)]] by (simp add: run_height_end_def)
  then show "sim_ended m buggify ?s'"
    using sim_invD(5) [OF assms(1)] e assms(2,4) by (simp add: sim_ended_def)
qed (use sim_inv_internal(2) [OF assms(1,2) node_builds.run [OF assms(3)]] in auto)

definition sm_messages :: "simulation \<Rightarrow> ibft_message set" where
  "sm_messages s = (\<Union>y. set (sm_rx s y) \<union> snd ` set (sm_sending s y))"

lemma sm_messages_mem: "set (sm_rx s x) \<subseteq> sm_messages s" "snd ` set (sm_sending s x) \<subseteq> sm_messages s"
  by (auto simp: sm_messages_def)

lemma sim_inv_traffic:
  assumes "sim_inv E m buggify s" and "\<And>x. set (rx x) \<subseteq> sm_messages s" and "\<And>x. snd ` set (out x) \<subseteq> sm_messages s"
  shows "sim_inv E m buggify (s\<lparr>sm_rx := rx, sm_sending := out\<rparr>)"
proof (rule sim_inv_step [where net = "sm_nodes s" and rx = rx and out = out and d = "sm_done s", OF assms(1)])
  show "(\<exists>y. msg \<in> set (sm_rx s y) \<union> snd ` set (sm_sending s y)) \<or>
      unforged (net_votes (sm_height s) (set (mock_validators m)) (sm_nodes s)) E msg \<and>
      settled (sm_height s) (mock_blocks buggify) msg"
    if "msg \<in> set (rx x) \<union> snd ` set (out x)" for x msg using that assms(2,3) unfolding sm_messages_def by blast
  show "sim_ended m buggify (s\<lparr>sm_rx := rx, sm_sending := out\<rparr>)" using sim_invD(5) [OF assms(1)] by (simp add: sim_ended_def)
qed (use sim_invD(6) [OF assms(1)] in simp_all)

text \<open>What waits in a channel may be delivered.\<close>

lemma sim_rx:
  assumes "sim_inv E m buggify s" and "sm_rx s y = msg # rest"
  shows "unforged (net_votes (sm_height s) (set (mock_validators m)) (sm_nodes s)) E msg"
    and "settled (sm_height s) (mock_blocks buggify) msg"
  using sim_invD(4) [OF assms(1)] assms(2) unfolding sim_traffic_def by (metis UnI1 list.set_intros(1))+

lemma sim_inv_receive:
  assumes "sim_inv E m buggify s" and "y \<in> set (mock_validators m)" and "sm_rx s y = msg # rest" and "sm_done s y = None"
  shows "sim_inv E m buggify
    (s\<lparr>sm_rx := (sm_rx s)(y := rest), sm_nodes := (sm_nodes s)(y := node_deliver (sm_ibft s y) msg (sm_nodes s y))\<rparr>)"
proof -
  let ?I = "sm_ibft s" and ?V = "set (mock_validators m)" and ?h = "sm_height s" and ?B = "mock_blocks buggify"
  let ?net = "(sm_nodes s)(y := node_deliver (?I y) msg (sm_nodes s y))"
  note msg = sim_rx [OF assms(1,3)]
  have step: "net_step ?I ?V ?h (proposes ?B) (sm_nodes s) ?net"
    using assms(2) by (rule net_step.deliver)
      (use msg sim_invD(2) [OF assms(1,2)] in \<open>auto simp: sim_ibft_ok_def intro: settled_proposes\<close>)
  have "node_closed (settled ?h ?B) (\<lambda>raw. raw \<in> ?B) (node_deliver (?I y) msg (sm_nodes s y))"
    by (rule deliver_closed [OF node_votesD(1) [OF sim_node(4) [OF assms(1,2)]] sim_invD(6) [OF assms(1,2)] msg(2)])
  then have closed: "node_closed (settled ?h ?B) (\<lambda>raw. raw \<in> ?B) (?net x)" if "x \<in> ?V" for x
    using sim_invD(6) [OF assms(1) that] by simp
  have rx: "\<exists>z. a \<in> set (sm_rx s z) \<union> snd ` set (sm_sending s z)"
    if "a \<in> set (((sm_rx s)(y := rest)) x) \<union> snd ` set (sm_sending s x)" for x a
    using that assms(3) by (intro exI [of _ x]) (auto split: if_splits)
  show ?thesis
    by (rule sim_inv_step [where net = ?net and rx = "(sm_rx s)(y := rest)" and out = "sm_sending s" and d = "sm_done s",
          OF assms(1) _ disjI2 [OF step] disjI1 [OF rx] _ closed])
      (use sim_invD(5) [OF assms(1)] assms(4) in \<open>simp_all add: sim_ended_def\<close>)
qed

lemma sim_inv_receive_done:
  assumes "sim_inv E m buggify s" and "sm_rx s y = msg # rest" and "sm_done s y = Some (e, b)"
  shows "sim_inv E m buggify (s\<lparr>sm_rx := (sm_rx s)(y := rest), sm_done := (sm_done s)(y \<mapsto> (engine_deliver msg e, b))\<rparr>)"
proof -
  let ?P = "settled (sm_height s) (mock_blocks buggify)"
  let ?s' = "s\<lparr>sm_rx := (sm_rx s)(y := rest), sm_done := (sm_done s)(y \<mapsto> (engine_deliver msg e, b))\<rparr>"
  have ended: "engine_ok (sm_height s + 1) e" "store_all ?P (engine_messages e)"
    using sim_invD(5) [OF assms(1)] assms(3) unfolding sim_ended_def by blast+
  have "store_wf (engine_messages e)" using ended(1) store_invD(1) by (auto simp: engine_ok_def start_ok_def)
  then have "store_all ?P (engine_messages (engine_deliver msg e))"
    using store_all_handler [OF _ ended(2) sim_rx(2) [OF assms(1,2)]] by (simp add: engine_deliver_def)
  then have "sim_ended m buggify ?s'"
    using sim_invD(5) [OF assms(1)] assms(3) engine_deliver_ok [OF ended(1)] by (simp add: sim_ended_def)
  moreover have "\<exists>z. a \<in> set (sm_rx s z) \<union> snd ` set (sm_sending s z)"
    if "a \<in> set (((sm_rx s)(y := rest)) x) \<union> snd ` set (sm_sending s x)" for x a
    using that assms(2) by (intro exI [of _ x]) (auto split: if_splits)
  ultimately show ?thesis
    by (intro sim_inv_step [where net = "sm_nodes s" and rx = "(sm_rx s)(y := rest)" and out = "sm_sending s" and
          d = "(sm_done s)(y \<mapsto> (engine_deliver msg e, b))", OF assms(1)] disjI1)
      (use sim_invD(6) [OF assms(1)] in simp_all)
qed

lemma store_all_mono: "store_all P s \<Longrightarrow> (\<And>msg. P msg \<Longrightarrow> Q msg) \<Longrightarrow> store_all Q s"
  unfolding store_all_def by blast

text \<open>The stores a height leaves behind are an admissible start of the network of the next height: no vote for it exists yet.\<close>

lemma settled_start:
  assumes "\<And>x. x \<in> honest \<Longrightarrow> ibft_externals (I x) = E \<and> ibft_validators (I x) = M \<and> self_of (I x) = x \<and> start_ok (I x) k (st x) (mh x)"
    and "\<And>x. x \<in> honest \<Longrightarrow> store_all (settled h B) (st x)" and "h < k"
  shows "net_start_ok E M I honest k st mh" and "valid_start I honest k B st"
proof -
  have wf: "store_wf (st x)" if "x \<in> honest" for x using assms(1) [OF that] store_invD(1) by (auto simp: start_ok_def)
  note empty = settled_store [OF wf assms(2)]
  show "net_start_ok E M I honest k st mh"
    using assms(1,3) empty by (simp add: net_start_ok_def store_votes_def)
  have "genuine (\<lambda>a v d. view_height v = k \<longrightarrow> a \<notin> honest) B (I x) msg" if "settled h B msg" for x msg
  proof -
    have "unforged (\<lambda>a v d. view_height v = k \<longrightarrow> a \<notin> honest) (ibft_externals (I x)) msg"
      by (rule settled_unforged [OF that]) (use assms(3) in auto)
    then show ?thesis
      using settled_proposes [OF that] by (auto simp: genuine_def circulating_def proposes_def split: ibft_message.splits)
  qed
  then show "valid_start I honest k B st"
    using assms(2,3) empty by (auto simp: valid_start_def store_verified_def intro: store_all_mono)
qed

lemma sim_inv_next:
  assumes "sim_inv E m buggify s" and "\<forall>x \<in> set (mock_validators m). sm_done s x \<noteq> None" and "sm_height s < SIM_HEIGHTS"
  shows "sim_inv E m buggify (sim_next s)"
proof -
  let ?V = "set (mock_validators m)" and ?h = "sm_height s" and ?B = "mock_blocks buggify"
  let ?e = "sm_engines (sim_next s)" and ?k = "sm_height s + 1"
  let ?I = "\<lambda>x. engine_ibft (?e x)" and ?st = "\<lambda>x. engine_messages (?e x)" and ?mh = "\<lambda>x. engine_handler (?e x)"
  have h: "?h < ?k" by (rule height_succ [OF sim_invD(1) [OF assms(1)]])
  have s': "sm_height (sim_next s) = ?k" "sm_nodes (sim_next s) = net_start ?I ?k ?st ?mh" "sm_rx (sim_next s) = sm_rx s"
    "sm_sending (sim_next s) = sm_sending s" "sm_done (sim_next s) = (\<lambda>_. None)"
    by (simp_all add: sim_next_def Let_def fun_eq_iff net_start_def run_height_start_def)
  have e: "?I x = sm_ibft s x \<and> engine_ok ?k (?e x) \<and> store_all (settled ?h ?B) (?st x)" if "x \<in> ?V" for x
    using assms(2) that sim_invD(5) [OF assms(1)] by (auto simp: sim_ended_def sim_next_def Let_def)
  have ibft: "sim_ibft_ok E m x (?I x)" if "x \<in> ?V" for x using e [OF that] sim_invD(2) [OF assms(1) that] by simp
  have start: "net_start_ok E (mock_manager m) ?I ?V ?k ?st ?mh" "valid_start ?I ?V ?k ?B ?st"
    using e ibft h by (auto intro!: settled_start [where h = ?h] simp: sim_ibft_ok_def engine_ok_def)
  have "sim_net E m buggify (sim_next s)"
    unfolding sim_net_def s' using start net_reachable.init by blast
  moreover have "sim_traffic E m buggify (sim_next s)"
  proof -
    have "unforged (net_votes ?k ?V net) E msg \<and> settled ?k ?B msg" if "settled ?h ?B msg" for net msg
      using h by (intro conjI settled_unforged [OF that] settled_mono [OF that]) (auto simp: net_votes_def)
    then show ?thesis using sim_invD(4) [OF assms(1)] by (simp add: sim_traffic_def s')
  qed
  moreover have "node_closed (settled ?k ?B) (\<lambda>raw. raw \<in> ?B) (sm_nodes (sim_next s) x)" if "x \<in> ?V" for x
    unfolding s' net_start_def
    by (rule node_start_closed, rule store_all_mono, use e [OF that] in blast) (rule settled_mono [OF _ less_imp_le [OF h]])
  moreover have "1 \<le> ?k \<and> ?k \<le> SIM_HEIGHTS"
    using assms(1,3) h inc_le by (auto simp: sim_inv_def intro: order_trans less_imp_le)
  ultimately show ?thesis using ibft by (simp add: sim_inv_def s'(1,5) sim_ended_def)
qed

subsection \<open>The start\<close>

definition sim_setup :: "externals \<Rightarrow> mock \<Rightarrow> signer list \<Rightarrow> bool" where
  "sim_setup E m signers \<longleftrightarrow>
     externals_ok E \<and> (\<forall>sg \<in> set signers. signer_wf E sg) \<and> distinct (map signer_address signers) \<and>
     mock_new (fst (create_validators signers)) = Some m"

lemma sim_setupD:
  assumes "sim_setup E m signers"
  shows "mock_validators m = sort (map signer_address signers)" and "distinct (mock_validators m)" and "mock_validators m \<noteq> []"
    and "set (mock_validators m) = signer_address ` set signers" and "length (mock_validators m) = length signers"
proof -
  show sorted: "mock_validators m = sort (map signer_address signers)"
    using assms by (auto simp: sim_setup_def create_validators_def mock_new_def split: if_splits)
  show "distinct (mock_validators m)" "set (mock_validators m) = signer_address ` set signers" "length (mock_validators m) = length signers"
    using assms by (simp_all add: sim_setup_def sorted)
  have "signers \<noteq> []" using assms by (auto simp: sim_setup_def create_validators_def mock_new_def)
  then show "mock_validators m \<noteq> []" using \<open>length (mock_validators m) = length signers\<close> by auto
qed

lemma sim_engine_ok:
  assumes "sim_setup E m signers" and "x \<in> set (mock_validators m)"
  shows "sim_ibft_ok E m x (engine_ibft (sim_engine E m signers x))" and "engine_ok 1 (sim_engine E m signers x)"
proof -
  obtain sg where sg: "find (\<lambda>sg. signer_address sg = x) signers = Some sg"
    using assms sim_setupD(4) [OF assms(1)] by (cases "find (\<lambda>sg. signer_address sg = x) signers") (auto simp: find_None_iff)
  then have mem: "sg \<in> set signers" "signer_address sg = x" by (auto simp: find_Some_iff)
  let ?I = "ibft_new E (mock_manager m) mock_block_service sg 1000000000"
  have ok: "ibft_ok ?I k" for k
    using assms mem by (simp add: ibft_ok_def ibft_new_def sim_setup_def mock_manager_def mock_is_validator_iff mock_is_proposer_def Let_def)
  then show "sim_ibft_ok E m x (engine_ibft (sim_engine E m signers x))"
    using mem by (simp add: sim_ibft_ok_def sim_engine_def engine_new_def sg) (simp add: ibft_new_def)
  show "engine_ok 1 (sim_engine E m signers x)"
    unfolding sim_engine_def sg option.sel by (rule new_engine_ok [OF ok]) (simp_all add: mock_manager_def mock_quorum_def)
qed

lemma sim_inv_start:
  assumes "sim_setup E m signers"
  shows "sim_inv E m buggify (sim_start E m signers)"
proof -
  let ?V = "set (mock_validators m)" and ?B = "mock_blocks buggify" and ?e = "sim_engine E m signers"
  let ?I = "\<lambda>x. engine_ibft (?e x)" and ?st = "\<lambda>x. engine_messages (?e x)" and ?mh = "\<lambda>x. engine_handler (?e x)"
  have all: "store_all (settled k ?B) (?st x)" for k x
    by (simp add: sim_engine_def engine_new_def store_all_def store_laws)
  have start: "net_start_ok E (mock_manager m) ?I ?V 1 ?st ?mh" "valid_start ?I ?V 1 ?B ?st"
    using sim_engine_ok [OF assms] all [of 0] by (auto intro!: settled_start [where h = 0] simp: sim_ibft_ok_def engine_ok_def)
  have nodes: "(\<lambda>a. run_height_start 1 (?e a)) = net_start ?I 1 ?st ?mh"
    by (simp add: fun_eq_iff net_start_def run_height_start_def)
  have "sim_net E m buggify (sim_start E m signers)"
    unfolding sim_net_def sim_start_def simulation.simps nodes using start net_reachable.init by blast
  then show ?thesis
    using sim_engine_ok(1) [OF assms] node_start_closed [OF all]
    by (simp add: sim_inv_def sim_start_def SIM_HEIGHTS_def sim_traffic_def sim_ended_def run_height_start_def)
qed

lemma sim_inv_step_rel:
  assumes "sim_inv E m buggify s" and "sim_step E m signers buggify s s'"
  shows "sim_inv E m buggify s'"
  using assms(2)
proof cases
  case (work x n msgs skips)
  obtain out where "mock_sends E m skips msgs = Some out" "s' = s\<lparr>sm_nodes := (sm_nodes s)(x := n), sm_sending := (sm_sending s)(x := sm_sending s x @ out)\<rparr>"
    using sim_work [OF assms(1) work(2,4,7), of skips] work(1) by metis
  then show ?thesis using sim_inv_work [OF assms(1) work(2,3,4,7)] by simp
next
  case (finish x n b)
  then show ?thesis using sim_inv_finish [OF assms(1)] by blast
next
  case (send x xs y msg ys)
  have old: "msg \<in> snd ` set (sm_sending s x)" "snd ` set (xs @ ys) \<subseteq> snd ` set (sm_sending s x)" unfolding send(2) by auto
  have "sim_inv E m buggify (s\<lparr>sm_rx := (sm_rx s)(y := sm_rx s y @ [msg]), sm_sending := (sm_sending s)(x := xs @ ys)\<rparr>)"
  proof (rule sim_inv_traffic [OF assms(1)])
    show "set (((sm_rx s)(y := sm_rx s y @ [msg])) z) \<subseteq> sm_messages s" for z
      using sm_messages_mem(1) [of s z] sm_messages_mem(2) [of s x] old(1) by auto
    show "snd ` set (((sm_sending s)(x := xs @ ys)) z) \<subseteq> sm_messages s" for z
      using order_trans [OF old(2) sm_messages_mem(2)] sm_messages_mem(2) [of s z] by simp
  qed
  then show ?thesis using send(1) by simp
next
  case (aborted x xs ys zs)
  have "sim_inv E m buggify (s\<lparr>sm_rx := sm_rx s, sm_sending := (sm_sending s)(x := xs @ zs)\<rparr>)"
  proof (rule sim_inv_traffic [OF assms(1) sm_messages_mem(1)])
    have old: "snd ` set (xs @ zs) \<subseteq> snd ` set (sm_sending s x)" unfolding aborted(2) by auto
    show "snd ` set (((sm_sending s)(x := xs @ zs)) z) \<subseteq> sm_messages s" for z
      using order_trans [OF old sm_messages_mem(2)] sm_messages_mem(2) [of s z] by simp
  qed
  then show ?thesis using aborted(1) by simp
next
  case (receive y msg rest)
  then show ?thesis using sim_inv_receive [OF assms(1)] by blast
next
  case (receive_done y msg rest e b)
  then show ?thesis using sim_inv_receive_done [OF assms(1)] by blast
next
  case next_height
  then show ?thesis using sim_inv_next [OF assms(1)] by blast
qed (use assms(1) in simp_all)

lemma sim_reachable_inv:
  assumes "sim_setup E m signers" and "sim_reachable E m signers buggify s"
  shows "sim_inv E m buggify s"
  using assms(2) by induction (use sim_inv_start [OF assms(1)] sim_inv_step_rel in blast)+

subsection \<open>The assertions\<close>

text \<open>The block a validator has returned.\<close>

lemma returned_block:
  assumes "sim_setup E m signers" and "sim_reachable E m signers buggify s" and "sm_done s x = Some (e, b)"
  shows "x \<in> set (mock_validators m)" and "nd_blocks (sm_nodes s x) = [b]" and "final_raw_block b \<in> mock_blocks buggify"
    and "mock_quorum m (sm_height s) \<le> length (proof_seals (final_proof b))"
proof -
  have inv: "sim_inv E m buggify s" by (rule sim_reachable_inv [OF assms(1,2)])
  show x: "x \<in> set (mock_validators m)" using sim_invD(5) [OF inv] assms(3) by (simp add: sim_ended_def)
  have pc: "nd_pc (sm_nodes s x) = RunExit (Some b)" using sim_invD(5) [OF inv] assms(3) by (simp add: sim_ended_def)
  then show blocks: "nd_blocks (sm_nodes s x) = [b]" using sim_node(3) [OF inv x] by (simp add: blocks_inv_def)
  show "final_raw_block b \<in> mock_blocks buggify"
    using node_closedD(6) [OF sim_invD(6) [OF inv x]] blocks by (auto simp: blocks_closed_def node_blocks_def settled_def)
  have "ibft_validators (sm_ibft s x) = mock_manager m" using sim_invD(2) [OF inv x] by (simp add: sim_ibft_ok_def)
  then show "mock_quorum m (sm_height s) \<le> length (proof_seals (final_proof b))"
    using sim_node(2) [OF inv x] blocks by (auto simp: node_inv_def block_valid_def seals_valid_def mock_manager_def)
qed

text \<open>With coins a proposer may build the invalid block \<open>[1, 2]\<close>, but it is not finalized.\<close>

lemma returned_raw_block:
  assumes "sim_setup E m signers" and "buggify \<Longrightarrow> 2 \<le> length signers \<and> collision_free E (mock_blocks True)"
    and "sim_reachable E m signers buggify s" and "sm_done s x = Some (e, b)"
  shows "final_raw_block b = [1, 2, 3]"
proof (cases buggify)
  case False
  then show ?thesis using returned_block(3) [OF assms(1,3,4)] by (simp add: mock_blocks_eq)
next
  case True
  let ?V = "set (mock_validators m)" and ?B = "mock_blocks buggify"
  note vs = sim_setupD [OF assms(1)] and b = returned_block [OF assms(1,3,4)]
  have inv: "sim_inv E m buggify s" by (rule sim_reachable_inv [OF assms(1,3)])
  obtain st mh where net: "net_start_ok E (mock_manager m) (sm_ibft s) ?V (sm_height s) st mh"
    "valid_start (sm_ibft s) ?V (sm_height s) ?B st"
    "net_reachable (sm_ibft s) ?V (sm_height s) (proposes ?B) (net_start (sm_ibft s) (sm_height s) st mh) (sm_nodes s)"
    using sim_invD(3) [OF inv] unfolding sim_net_def by blast
  have n: "3 * card (?V \<inter> {}) < length (mock_validators m)" "2 \<le> length (mock_validators m)" "?V = ?V - {}" "collision_free E ?B"
    using True assms(2) vs(3,5) by auto
  obtain raw r where raw: "raw \<in> ?B" "checked (sm_ibft s) ?V raw" "block_digest E b = digest_block E raw r"
    by (rule finalized_checked [OF vs(2) n(1-3) net(1,2) n(4) net(3) b(1)]) (use b(2) in simp_all)
  then have "final_raw_block b = raw" using n(4) b(3) unfolding collision_free_def block_digest_def by metis
  moreover have "verify_block (ibft_blocks (sm_ibft s y)) = mock_verify_block" if "y \<in> ?V" for y
    using sim_invD(2) [OF inv that] by (simp add: sim_ibft_ok_def mock_block_service_def)
  ultimately show ?thesis using raw(2) by (auto simp: checked_def mock_verify_block_def split: if_splits)
qed

lemma check_windowsI:
  assumes "\<forall>y \<in> set bs. \<exists>b. y = Some b \<and> final_raw_block b = raw \<and> mock_quorum m h \<le> length (proof_seals (final_proof b))"
  shows "check_windows m h bs"
  using assms by (induction m h bs rule: check_windows.induct) auto

lemma windows_hold:
  assumes "sim_setup E m signers" and "buggify \<Longrightarrow> 2 \<le> length signers \<and> collision_free E (mock_blocks True)"
    and "sim_reachable E m signers buggify s" and "\<forall>x \<in> set (mock_validators m). sm_done s x \<noteq> None"
  shows "check_windows m (sm_height s) (sim_blocks signers s)"
proof -
  have "final_raw_block b = [1, 2, 3] \<and> mock_quorum m (sm_height s) \<le> length (proof_seals (final_proof b))"
    if "sm_done s x = Some (e, b)" for x e b
    using returned_raw_block [OF assms(1-3) that] returned_block(4) [OF assms(1,3) that] by blast
  then show ?thesis
    using assms(4) sim_setupD(4) [OF assms(1)] by (intro check_windowsI [where raw = "[1, 2, 3]"]) (auto simp: sim_blocks_def)
qed

text \<open>The run loop of a validator has given up: it has asked for a round beyond the last one.\<close>

definition out_of_rounds :: "node \<Rightarrow> bool" where
  "out_of_rounds n \<longleftrightarrow> nd_pc n = RunPanicked \<and> view_round (nd_view n) = MAX_ROUND \<and>
     (\<exists>rc. nd_latest n = Some rc \<and> view_round (rcs_view rc) = MAX_ROUND + 1)"

lemma sim_panicked:
  assumes "sim_inv E m buggify s" and "x \<in> set (mock_validators m)" and "nd_pc (sm_nodes s x) = RunPanicked"
  shows "out_of_rounds (sm_nodes s x)"
  using sim_node(2) [OF assms(1,2)] assms(3)
  by (auto simp: out_of_rounds_def node_inv_def tasks_inv_def exited_def pc_inv_def latest_inv_def)

lemma sim_failures:
  assumes "sim_setup E m signers" and "buggify \<Longrightarrow> 2 \<le> length signers \<and> collision_free E (mock_blocks True)"
    and "sim_reachable E m signers buggify s" and "sm_failed s = Some f"
  shows "\<exists>x \<in> set (mock_validators m). f = RunPanic x \<and> out_of_rounds (sm_nodes s x)"
  using assms(3)
proof cases
  case init
  then show ?thesis using assms(4) by (simp add: sim_start_def)
next
  case (step s0)
  have inv: "sim_inv E m buggify s0" by (rule sim_reachable_inv [OF assms(1) step(1)])
  from step(3) show ?thesis
  proof cases
    case (work x n msgs skips)
    obtain out where "s = s0\<lparr>sm_nodes := (sm_nodes s0)(x := n), sm_sending := (sm_sending s0)(x := sm_sending s0 x @ out)\<rparr>"
      using sim_work [OF inv work(2,4,7), of skips] work(1) by metis
    then show ?thesis using step(2) assms(4) by simp
  next
    case (run_panic x)
    then show ?thesis using assms(4) sim_panicked [OF inv run_panic(2,4)] by auto
  next
    case assertion_fails
    then show ?thesis using windows_hold [OF assms(1,2) step(1)] by blast
  qed (use step(2) assms(4) in \<open>simp_all add: sim_next_def Let_def\<close>)
qed

text \<open>C5: The assertions of the simulation tests hold in every run. Whatever the random signers are, if their
  addresses differ, however the tasks of the validators, the sends and the message handlers interleave, and
  whatever timeouts and (in the buggified test) coins do: every block that a validator returns at any of the 500
  heights is the valid block \<open>[1, 2, 3]\<close> with at least a quorum of seals, so once all have returned, the assertions on the
  windows hold and the test can go on to the next height. A run ends with the first failure, and of the three ways in which a test may fail
  only one is left: neither does an assertion fail, nor does the \<open>unwrap\<close> of the signer in
  \<open>broadcast_message\<close> panic on anything a validator broadcasts; a \<open>run_height\<close> may only panic when all 22 rounds of its height have timed
  out. The buggified test needs two validators
  and that the digests of the two blocks the mock builds do not collide.\<close>

theorem simulation_assertions_hold:
  assumes "sim_setup E m signers" and "buggify \<Longrightarrow> 2 \<le> length signers \<and> collision_free E (mock_blocks True)"
    and "sim_reachable E m signers buggify s"
  shows "sm_height s \<le> SIM_HEIGHTS \<and>
    (\<forall>x e b. sm_done s x = Some (e, b) \<longrightarrow>
       final_raw_block b = [1, 2, 3] \<and> mock_quorum m (sm_height s) \<le> length (proof_seals (final_proof b))) \<and>
    ((\<forall>x \<in> set (mock_validators m). sm_done s x \<noteq> None) \<longrightarrow>
       check_windows m (sm_height s) (sim_blocks signers s) \<and>
       (sm_height s < SIM_HEIGHTS \<longrightarrow> sim_step E m signers buggify s (sim_next s))) \<and>
    (\<forall>x \<in> set (mock_validators m). \<forall>skips. mock_sends E m skips (nd_sent (sm_nodes s x)) \<noteq> None) \<and>
    sm_failed s \<noteq> Some AssertionFailed \<and> (\<forall>x. sm_failed s \<noteq> Some (BroadcastPanic x)) \<and>
    (\<forall>x. sm_failed s = Some (RunPanic x) \<longrightarrow> x \<in> set (mock_validators m) \<and>
       nd_pc (sm_nodes s x) = RunPanicked \<and> view_round (nd_view (sm_nodes s x)) = MAX_ROUND \<and>
       (\<exists>rc. nd_latest (sm_nodes s x) = Some rc \<and> view_round (rcs_view rc) = MAX_ROUND + 1))"
proof -
  have inv: "sim_inv E m buggify s" by (rule sim_reachable_inv [OF assms(1,3)])
  have blocks: "\<forall>x e b. sm_done s x = Some (e, b) \<longrightarrow>
      final_raw_block b = [1, 2, 3] \<and> mock_quorum m (sm_height s) \<le> length (proof_seals (final_proof b))"
    using returned_raw_block [OF assms] returned_block(4) [OF assms(1,3)] by blast
  have sends: "mock_sends E m skips (nd_sent (sm_nodes s x)) \<noteq> None" if "x \<in> set (mock_validators m)" for x skips
    using mock_sends_total [of "nd_sent (sm_nodes s x)" "sm_ibft s x" "sm_height s" m skips] sim_node(5) [OF inv that]
      sim_invD(2) [OF inv that] by (auto simp: sim_ibft_ok_def)
  have failures: "sm_failed s \<noteq> Some AssertionFailed" "\<And>x. sm_failed s \<noteq> Some (BroadcastPanic x)"
    "\<And>x. sm_failed s = Some (RunPanic x) \<Longrightarrow> x \<in> set (mock_validators m) \<and> out_of_rounds (sm_nodes s x)"
    using sim_failures [OF assms] by blast+
  show ?thesis
    using sim_invD(1) [OF inv] blocks windows_hold [OF assms] sends sim_step.next_height [of m s signers E buggify] failures
    unfolding out_of_rounds_def by blast
qed

text \<open>A validator of the simulation may take any schedule of its own.\<close>

lemma sim_scheduled:
  assumes "sim_setup E m signers" and "x \<in> set (mock_validators m)"
  shows "scheduled (engine_ibft (es x)) (\<lambda>raw. raw \<in> mock_blocks buggify)
    (\<lambda>n. \<exists>s. sim_reachable E m signers buggify s \<and> sm_nodes s x = n \<and> sm_done s x = None \<and> sm_height s = h \<and> sm_engines s = es \<and> sm_failed s = None)"
proof
  fix n n'
  assume "\<exists>s. sim_reachable E m signers buggify s \<and> sm_nodes s x = n \<and> sm_done s x = None \<and> sm_height s = h \<and> sm_engines s = es \<and> sm_failed s = None"
    and builds: "node_builds (engine_ibft (es x)) (\<lambda>raw. raw \<in> mock_blocks buggify) n n'" and stays: "\<not> leaves (nd_pc n')"
  then obtain s where s: "sim_reachable E m signers buggify s" "sm_nodes s x = n" "sm_done s x = None" "sm_height s = h" "sm_engines s = es"
    "sm_failed s = None" by blast
  have inv: "sim_inv E m buggify s" by (rule sim_reachable_inv [OF assms(1) s(1)])
  have builds': "node_builds (sm_ibft s x) (\<lambda>raw. raw \<in> mock_blocks buggify) (sm_nodes s x) n'" using builds s(2,5) by simp
  obtain msgs where msgs: "nd_sent n' = nd_sent (sm_nodes s x) @ msgs"
    using internal_sent [OF node_builds_mono [OF builds' TrueI]] by blast
  let ?s' = "sim_broadcast E m (\<lambda>_. {}) x msgs (s\<lparr>sm_nodes := (sm_nodes s)(x := n')\<rparr>)"
  have "sim_reachable E m signers buggify ?s'"
    by (rule sim_reachable.step [OF s(1,6) sim_step.work [OF assms(2) s(3) builds' _ _ msgs]])
      (use stays in \<open>auto simp: leaves_def exited_def\<close>)
  moreover obtain out where "?s' = s\<lparr>sm_nodes := (sm_nodes s)(x := n'), sm_sending := (sm_sending s)(x := sm_sending s x @ out)\<rparr>"
    by (rule sim_work [OF inv assms(2) builds' msgs])
  ultimately show "\<exists>s. sim_reachable E m signers buggify s \<and> sm_nodes s x = n' \<and> sm_done s x = None \<and> sm_height s = h \<and> sm_engines s = es \<and> sm_failed s = None"
    using s(3-6) by (intro exI [of _ ?s']) simp
qed

abbreviation single_mock :: mock where
  "single_mock \<equiv> \<lparr>mock_validators = [pair_first]\<rparr>"

lemma single_setup: "sim_setup sample_externals single_mock [sample_signer 1]"
  by (simp add: sim_setup_def sample_externals_ok sample_signer_wf create_validators_def mock_new_def sample_address)

text \<open>One validator returns the block of height 1.\<close>

lemma single_returns:
  obtains s e b where "sim_reachable sample_externals single_mock [sample_signer 1] False s" "sm_done s pair_first = Some (e, b)" "sm_height s = 1"
proof -
  let ?E = sample_externals and ?m = single_mock and ?sg = "[sample_signer 1]" and ?v = "view_new 1 0"
  let ?es = "sim_engine ?E ?m ?sg" and ?R = "sim_reachable ?E ?m ?sg False"
  let ?I = "engine_ibft (?es pair_first)" and ?s = "messages_new pair_first" and ?mh = "handler_new 0 pair_first"
  let ?Q = "\<lambda>n. \<exists>s. ?R s \<and> sm_nodes s pair_first = n \<and> sm_done s pair_first = None \<and> sm_height s = 1 \<and> sm_engines s = ?es \<and> sm_failed s = None"
  have V: "pair_first \<in> set (mock_validators ?m)" by simp
  note sch = sim_scheduled [OF single_setup V, where es = ?es and h = 1 and buggify = False]
  have Q: "?Q (node_start ?I 1 ?s ?mh)"
    by (intro exI [of _ "sim_start ?E ?m ?sg"])
      (simp add: sim_reachable.init, simp add: sim_start_def run_height_start_def sim_engine_def engine_new_def sample_address)
  have I: "ibft_validators ?I = mock_manager ?m" "self_of ?I = pair_first" "ibft_ok ?I 1"
    using sim_engine_ok(1) [OF single_setup V] by (simp_all add: sim_ibft_ok_def)
  have inv: "store_inv ?I ?s" using store_inv_new [of ?I] I(2) by simp
  obtain t s' p c seals where polls: "round_polls 7 ?I (Inr [1, 2, 3]) (round_task_new (shared_run_state_new ?v)) ?s = Some (t, s', [Proposal p, Commit c])"
    "rt_pc t = RoundDone seals" "proposal_at s' ?v = Some p"
    using proposer_completes_round [OF I(3) inv, of ?v _ "[1, 2, 3]"] I(1,2)
    by (force simp: view_new_def new_laws usize_pred_def mock_manager_def mock_is_proposer_def mock_quorum_def)
  obtain n where n: "?Q n" "nd_pc n = RunSelect 0" "nd_view n = ?v" "nd_store n = s'" "nd_blocks n = []" "nd_handler n = ?mh" "nd_rounds n = [t]"
    using scheduled.scheduled_round_0 [OF sch Q _ refl polls(1)] I(1) by (auto simp: mock_manager_def mock_quorum_def mock_blocks_eq)
  have "store_wf (nd_store n)"
    using n(1) store_invD(1) [OF node_votesD(1) [OF sim_node(4) [OF sim_reachable_inv [OF single_setup] V]]] by blast
  then obtain n4 n' b where fin: "?Q n4" "run_step ?I False n4 = Some n'" "nd_pc n' = RunExit (Some b)"
    using scheduled.scheduled_finish [OF sch n(1,2,7) polls(2) n(5)] n(3,4,6) polls(3) by (auto simp: view_new_def handler_new_def)
  obtain s4 where s4: "?R s4" "sm_nodes s4 pair_first = n4" "sm_done s4 pair_first = None" "sm_height s4 = 1" "sm_engines s4 = ?es" "sm_failed s4 = None"
    using fin(1) by blast
  have "run_step (sm_ibft s4 pair_first) False (sm_nodes s4 pair_first) = Some n'" using fin(2) s4(2,5) by simp
  from sim_reachable.step [OF s4(1,6) sim_step.finish [OF V s4(3) this fin(3)]] show thesis
    by (rule that) (simp_all add: s4(4))
qed

text \<open>Two validators and the two blocks of the mock for the buggified test.\<close>

lemma pair_setup: "sim_setup sample_externals pair_mock [sample_signer 1, sample_signer 2]"
  by (simp add: sim_setup_def sample_externals_ok sample_signer_wf create_validators_def mock_new_def sample_address less_eq_address_def numeral_eq_Suc)

lemma mock_blocks_distinct: "collision_free sample_externals (mock_blocks True)"
proof -
  have "le32 3 = [3, 0, 0, 0]" "le32 2 = [2, 0, 0, 0]" by code_simp+
  then show ?thesis
    by (auto simp: collision_free_def mock_blocks_eq digest_block_def sha256_def codec_serialize_def sample_externals_def sample_hash_def)
qed

theorem simulation_assertions_hold_witness:
  "(\<exists>s e b. sim_reachable sample_externals single_mock [sample_signer 1] False s \<and>
     sm_done s pair_first = Some (e, b) \<and> final_raw_block b = [1, 2, 3] \<and> 1 \<le> length (proof_seals (final_proof b)) \<and>
     sim_step sample_externals single_mock [sample_signer 1] False s (sim_next s)) \<and>
   sim_reachable sample_externals pair_mock [sample_signer 1, sample_signer 2] True
     (sim_start sample_externals pair_mock [sample_signer 1, sample_signer 2]) \<and>
   sm_height (sim_start sample_externals pair_mock [sample_signer 1, sample_signer 2]) \<le> SIM_HEIGHTS"
proof
  obtain s e b where s: "sim_reachable sample_externals single_mock [sample_signer 1] False s" "sm_done s pair_first = Some (e, b)" "sm_height s = 1"
    by (rule single_returns)
  note holds = simulation_assertions_hold [OF single_setup _ s(1)]
  have "final_raw_block b = [1, 2, 3] \<and> mock_quorum single_mock (sm_height s) \<le> length (proof_seals (final_proof b))"
    using holds s(2) by blast
  moreover have "sim_step sample_externals single_mock [sample_signer 1] False s (sim_next s)"
    using holds s(2,3) by (simp add: SIM_HEIGHTS_def)
  ultimately show "\<exists>s e b. sim_reachable sample_externals single_mock [sample_signer 1] False s \<and>
     sm_done s pair_first = Some (e, b) \<and> final_raw_block b = [1, 2, 3] \<and> 1 \<le> length (proof_seals (final_proof b)) \<and>
     sim_step sample_externals single_mock [sample_signer 1] False s (sim_next s)" using s(1,2) by (auto simp: mock_quorum_def)
  have "2 \<le> length [sample_signer 1, sample_signer 2]" by simp
  from simulation_assertions_hold [OF pair_setup conjI [OF this mock_blocks_distinct] sim_reachable.init]
  show "sim_reachable sample_externals pair_mock [sample_signer 1, sample_signer 2] True
     (sim_start sample_externals pair_mock [sample_signer 1, sample_signer 2]) \<and>
   sm_height (sim_start sample_externals pair_mock [sample_signer 1, sample_signer 2]) \<le> SIM_HEIGHTS"
    using sim_reachable.init by blast
qed

end
