(* ===== verification/Fork.thy ===== *)
theory Fork
  imports Validity
begin

text \<open>
  Agreement ends at the round. Four honest validators, a network that only delays messages, and rounds that time out: one
  validator finalizes a block of round 0 while two others that have committed to it lose their prepared
  certificates (see \<open>Lost_Certificates\<close>); in round 1 they and the fourth one finalize another block.
\<close>

subsection \<open>A proposal of a later round\<close>

lemma retain_verified:
  "\<forall>x \<in> set L. f (fst (snd x)) \<Longrightarrow>
     map fst (retain_round_changes f L) = map fst L \<and> map (\<lambda>(_, rc, _). rc) (retain_round_changes f L) = map (\<lambda>(_, rc, _). rc) L"
  by (induction f L rule: retain_round_changes.induct) auto

text \<open>The proposer of a later round that holds a quorum of round changes without certificates proposes a new block, and the others accept it.\<close>

lemma proposes_later_round:
  assumes "ibft_ok I h" and "store_inv I s" and "view_round v \<noteq> 0" and "view_round v \<le> MAX_ROUND" and "is_proposer (ibft_validators I) (self_of I) v"
    and "quorum_of I v \<le> length (round_changes_at s v)" and "distinct (map fst (round_changes_at s v))"
    and "\<And>a rc b. (a, (rc, b)) \<in> set (round_changes_at s v) \<Longrightarrow> rcs_prepared rc = None"
  obtains p s1 where "round_polls 4 I (Inr raw) (round_task_new (shared_run_state_new v)) s =
      Some (voting_task v (ps_digest p), add_proposal_message p (self_of I) s1, [Proposal p])"
    "own_proposal I v p" "ps_block p = \<lparr>raw_block = raw, block_round = view_round v\<rparr>" "store_inv I s1" "proposal_at s1 = proposal_at s" "prepares_at s1 = prepares_at s"
    "commits_at s1 = commits_at s"
    "\<And>B. verify_block B raw = Inr () \<Longrightarrow> proposal_1_verify_fn (ibft_externals I) (ibft_validators I) B (quorum_of I v) p = Inr ()"
proof -
  let ?E = "ibft_externals I" and ?V = "ibft_validators I" and ?t0 = "round_task_new (shared_run_state_new v)"
  let ?f = "round_change_verify_fn ?E ?V (view_height v)" and ?L = "round_changes_at s v"
  let ?rcs = "map (\<lambda>(_, rc, _). rc) ?L"
  note wf = store_invD(1) [OF assms(2)] and auth = store_authD(4) [OF store_invD(2) [OF assms(2)]]
  have "?f (fst (snd x))" if "x \<in> set ?L" for x
  proof -
    have "rcs_prepared (fst (snd x)) = None" using assms(8) [of "fst x" "fst (snd x)" "snd (snd x)"] that by simp
    then show ?thesis by (simp add: round_change_verify_fn_def)
  qed
  then have retain: "map fst (retain_round_changes ?f ?L) = map fst ?L" "map (\<lambda>(_, rc, _). rc) (retain_round_changes ?f ?L) = ?rcs"
    using retain_verified [of ?L ?f] by blast+
  have "length (retain_round_changes ?f ?L) = length ?L" using retain(1) by (metis length_map)
  then obtain s1 where taken: "take_valid_round_change_messages v ?f (quorum_of I v) s = ((Some ?rcs, length ?L), s1)"
    using take_valid_round_change_laws(1) [OF wf, of v ?f "quorum_of I v"] assms(6) retain(2)
    by (cases "take_valid_round_change_messages v ?f (quorum_of I v) s") (simp add: Let_def)
  have s1: "s1 = snd (take_valid_round_change_messages v ?f (quorum_of I v) s)" using taken by simp
  have unprepared: "first_prepared ?rcs = None" using assms(8) by (auto simp: first_prepared_None)
  obtain rcc bs where rcc: "assemble_rcc ?rcs = Some (rcc, None)" "round_changes_valid ?E ?V v (rcc_messages rcc) bs"
    "set (rcc_messages rcc) = (\<lambda>rc. snd (rc_into_metadata rc)) ` set ?rcs" "length (rcc_messages rcc) = length ?rcs"
  proof (rule assembled [of ?E ?rcs "map fst ?L" ?V v])
    show "signed_by (rc_recover_signer ?E) ?rcs (map fst ?L)" using auth by (fastforce simp: signed_by_def round_change_auth_def)
    show "\<forall>a \<in> set (map fst ?L). is_validator ?V a (view_height v)" using auth by (fastforce simp: round_change_auth_def)
    show "\<forall>rc \<in> set ?rcs. rcs_view rc = v" using store_wf_filed(4) [OF wf] by auto
  qed (use assms(7) unprepared in simp_all)
  obtain p where p: "propose I v raw (Some rcc) = BroadcastProposal p" "own_proposal I v p" by (rule propose_pc [OF assms(1,5)])
  note message = propose_message [OF p(1)]
  have "round_polls 2 I (Inr raw) ?t0 s = Some (rt_goto (BroadcastProposal p) ?t0, s1, [])"
    using assms(3,5,6) taken rcc(1) p(1)
    by (simp add: numeral_eq_Suc round_poll_def Let_def task_new_simps wait_rcc_taken_def build_and_propose_def)
  from round_polls_add [OF this proposal_stored]
  have "round_polls 4 I (Inr raw) ?t0 s = Some (voting_task v (ps_digest p), add_proposal_message p (self_of I) s1, [Proposal p])"
    by simp
  moreover have "only_round_0_certificates (rcc_messages rcc)"
    using assms(8) by (auto simp: only_round_0_certificates_def rcc(3) rc_into_metadata_def split: option.splits)
  then have "proposal_1_verify_fn ?E ?V B (quorum_of I v) p = Inr ()" if "verify_block B raw = Inr ()" for B
    unfolding proposal_1_accepts_iff using rcc(2,4) assms(6) message proposal_new_digest [OF message] that by auto
  moreover have "store_inv I s1"
    unfolding s1 by (rule store_effect_inv [OF query_round_changes_inv(1) [OF assms(2,4)]])
  ultimately show thesis
    using that p(2) message s1 take_valid_round_change_laws(3,5,6) [OF wf, of v ?f "quorum_of I v"] by simp
qed

subsection \<open>A node in a round\<close>

text \<open>The run loop waits in the \<open>select!\<close> for the task \<open>t\<close> of view \<open>v\<close>, and its monitors have found nothing.\<close>

definition selecting :: "view \<Rightarrow> round_task \<Rightarrow> node \<Rightarrow> bool" where
  "selecting v t n \<longleftrightarrow> nd_pc n = RunSelect 0 \<and> nd_view n = v \<and> (\<exists>ts. nd_rounds n = t # ts) \<and>
     (\<exists>ms. nd_proposal_monitors n = monitor_new FutureProposal v # ms) \<and>
     (\<exists>ms. nd_rcc_monitors n = monitor_new FutureRcc v # ms) \<and> nd_blocks n = [] \<and> handler_height (nd_handler n) < view_height v"

lemma selecting_deliver [simp]: "selecting v t (node_deliver I m n) \<longleftrightarrow> selecting v t n"
  by (simp add: selecting_def node_deliver_def)

context scheduled
begin

lemma selecting_start:
  assumes "R (node_start I h s mh)" and "quorum (ibft_validators I) h \<noteq> 0" and "handler_height mh < h"
  shows "\<exists>n. R n \<and> selecting (view_new h 0) (round_task_new (shared_run_state_new (view_new h 0))) n \<and>
    nd_store n = s \<and> nd_sent n = [] \<and> nd_latest n = None \<and> nd_handler n = mh"
proof -
  have polls: "round_polls 0 I (Inl []) (round_task_new (shared_run_state_new (view_new h 0))) s =
      Some (round_task_new (shared_run_state_new (view_new h 0)), s, [])" by simp
  from scheduled_round_0 [OF assms(1,2) refl polls] show ?thesis
    using assms(3) by (auto simp: selecting_def view_new_def)
qed

lemma selecting_polls:
  assumes "R n" and "selecting v t n" and "round_polls k I b t (nd_store n) = Some (t', s', msgs)"
    and "\<And>raw. b = Inr raw \<Longrightarrow> built raw"
  shows "\<exists>n'. R n' \<and> selecting v t' n' \<and> nd_store n' = s' \<and> nd_sent n' = nd_sent n @ msgs \<and> nd_latest n' = nd_latest n \<and> nd_handler n' = nd_handler n"
proof -
  obtain ts where ts: "nd_rounds n = t # ts" using assms(2) by (auto simp: selecting_def)
  have "R (n\<lparr>nd_store := s', nd_rounds := t' # ts, nd_sent := nd_sent n @ msgs\<rparr>)"
    by (rule scheduled_polls [OF assms(3,1) refl ts]) (use assms(2,4) in \<open>simp_all add: selecting_def\<close>)
  then show ?thesis
    using assms(2) by (intro exI conjI) (assumption, simp_all add: selecting_def)
qed

lemma selecting_timeout:
  assumes "R n" and "selecting v t n" and "ibft_ok I h" and "\<And>seals. rt_pc t \<noteq> RoundDone seals"
    and "shared_run_state_get (rt_state t) \<in> {Some StProposal, Some StPrepare}" and "nd_latest n = None"
    and "view_height v = h" and "view_round v < MAX_ROUND" and "w = view_new h (view_round v + 1)"
  shows "\<exists>n' rc. R n' \<and> selecting w (round_task_new (shared_run_state_new w)) n' \<and> nd_handler n' = nd_handler n \<and>
    nd_sent n' = nd_sent n @ [RoundChange rc] \<and> rcs_view rc = w \<and> rcs_prepared rc = None \<and>
    nd_store n' = (if is_proposer (ibft_validators I) (self_of I) w then add_round_change_message rc (self_of I) (nd_store n) else nd_store n)"
proof -
  obtain ts ps ms where n: "nd_pc n = RunSelect 0" "nd_view n = v" "nd_rounds n = t # ts" "nd_proposal_monitors n = monitor_new FutureProposal v # ps"
    "nd_rcc_monitors n = monitor_new FutureRcc v # ms" "nd_blocks n = []" "handler_height (nd_handler n) < h"
    using assms(2,7) by (auto simp: selecting_def)
  have "R (n\<lparr>nd_pc := RunTimeout\<rparr>)"
    by (rule scheduled_passes(2) [OF assms(1) n(1,3) assms(4) n(4) _ n(5)]) (simp_all add: monitor_new_def)
  from scheduled_timeout [OF this assms(3), of t ts w] n assms(5-9) obtain n' rc where n': "R n'" "nd_pc n' = RunSelect 0" "nd_view n' = w"
    "nd_rounds n' = round_task_new (shared_run_state_new w) # t # ts" "nd_proposal_monitors n' = monitor_new FutureProposal w # nd_proposal_monitors n"
    "nd_rcc_monitors n' = monitor_new FutureRcc w # nd_rcc_monitors n" "nd_blocks n' = []" "nd_handler n' = nd_handler n"
    "nd_sent n' = nd_sent n @ [RoundChange rc]" "rcs_view rc = w" "rcs_prepared rc = None"
    "nd_store n' = (if is_proposer (ibft_validators I) (self_of I) w then add_round_change_message rc (self_of I) (nd_store n) else nd_store n)"
    by auto
  have "handler_height (nd_handler n') < view_height w" using n(7) n'(8) assms(9) by (simp add: view_new_def)
  then have "selecting w (round_task_new (shared_run_state_new w)) n'" using n'(2-7) by (simp add: selecting_def)
  then show ?thesis using n'(1,8-12) by (intro exI conjI) assumption+
qed

end

subsection \<open>A network that only passes on\<close>

text \<open>
  Messages are delivered late, repeatedly, out of order or not at all, but only to others than the sender, and only what a
  validator has sent: nothing is made up, not even in the name of a faulty validator.
\<close>

inductive relay_step :: "(address \<Rightarrow> ibft) \<Rightarrow> address set \<Rightarrow> network \<Rightarrow> network \<Rightarrow> bool" for I validators where
  deliver: "x \<in> validators \<Longrightarrow> y \<in> validators \<Longrightarrow> y \<noteq> x \<Longrightarrow> msg \<in> set (nd_sent (net y)) \<Longrightarrow>
    relay_step I validators net (net(x := node_deliver (I x) msg (net x)))"
| internal: "x \<in> validators \<Longrightarrow> node_internal (I x) (net x) n \<Longrightarrow> relay_step I validators net (net(x := n))"

inductive relay_reachable :: "(address \<Rightarrow> ibft) \<Rightarrow> address set \<Rightarrow> network \<Rightarrow> network \<Rightarrow> bool" for I validators net0 where
  init: "relay_reachable I validators net0 net0"
| step: "relay_reachable I validators net0 net \<Longrightarrow> relay_step I validators net net' \<Longrightarrow> relay_reachable I validators net0 net'"

lemma relay_scheduled:
  assumes "x \<in> validators"
  shows "scheduled (I x) (\<lambda>_. True) (\<lambda>n. relay_reachable I validators net0 (net(x := n)))"
proof
  fix n n'
  assume reach: "relay_reachable I validators net0 (net(x := n))" and step: "node_internal (I x) n n'"
  have "relay_step I validators (net(x := n)) ((net(x := n))(x := n'))"
    by (rule relay_step.internal [OF assms]) (simp add: step)
  from relay_reachable.step [OF reach this] show "relay_reachable I validators net0 (net(x := n'))" by simp
qed

subsection \<open>Four honest validators\<close>

text \<open>A block service that accepts every block, so that two valid blocks compete.\<close>

definition fork_ibft :: "address \<Rightarrow> ibft" where
  "fork_ibft a = \<lparr>ibft_externals = sample_externals, ibft_validators = sample_manager, ibft_blocks = \<lparr>verify_block = (\<lambda>_. Inr ())\<rparr>,
     ibft_signer = sample_signer (hd (address_bytes a)), base_round_time = 1000000000\<rparr>"

abbreviation fork_validators :: "address set" where
  "fork_validators \<equiv> set (mock_validators sample_mock)"

definition fork_start :: network where
  "fork_start = net_start fork_ibft 1 messages_new (handler_new 0)"

abbreviation fork_reaches :: "network \<Rightarrow> bool" where
  "fork_reaches \<equiv> relay_reachable fork_ibft fork_validators fork_start"

lemma fork_ibft_simps [simp]:
  "ibft_externals (fork_ibft a) = sample_externals" "ibft_validators (fork_ibft a) = sample_manager"
  "verify_block (ibft_blocks (fork_ibft a)) raw = Inr ()"
  by (simp_all add: fork_ibft_def)

lemma fork_validators_iff: "x \<in> fork_validators \<longleftrightarrow> (\<exists>n \<in> {1, 2, 3, 4}. x = Address (replicate 24 n))"
  by (auto simp: sample_mock_def sample_address)

lemma fork_self [simp]: "x \<in> fork_validators \<Longrightarrow> self_of (fork_ibft x) = x"
  by (auto simp: fork_validators_iff fork_ibft_def sample_address)

lemma fork_ibft_ok: "x \<in> fork_validators \<Longrightarrow> ibft_ok (fork_ibft x) h"
  by (simp add: ibft_ok_def sample_externals_ok) (auto simp: fork_ibft_def sample_signer_wf fork_validators_iff)

lemma fork_start_ok: "net_start_ok sample_externals sample_manager fork_ibft fork_validators 1 messages_new (handler_new 0)"
proof -
  have "store_inv (fork_ibft x) (messages_new x)" if "x \<in> fork_validators" for x
    using store_inv_new [of "fork_ibft x"] that by simp
  then show ?thesis
    using fork_ibft_ok by (auto simp: net_start_ok_def start_ok_def store_votes_def store_laws handler_new_def new_laws) (simp_all add: messages_new_def)
qed

lemma fork_valid_start: "valid_start fork_ibft fork_validators 1 UNIV messages_new"
  by (simp add: valid_start_def store_all_def store_verified_def store_laws)

text \<open>In the network of \<open>Network\<close>, of which the one above is a part, the messages of the validators are not forged.\<close>

lemma net_fork_node:
  assumes "net_reachable fork_ibft fork_validators 1 (\<lambda>_. True) fork_start net" and "x \<in> fork_validators"
  shows "store_inv (fork_ibft x) (nd_store (net x))" and "handler_address (nd_handler (net x)) = x"
    and "msg \<in> set (nd_sent (net x)) \<Longrightarrow> own_message (fork_ibft x) 1 msg \<and> unforged (net_votes 1 fork_validators net) sample_externals msg"
proof -
  have reach: "net_reachable fork_ibft fork_validators 1 (proposes UNIV) (net_start fork_ibft 1 messages_new (handler_new 0)) net"
  proof -
    have "proposes UNIV = (\<lambda>_. True)" by (rule ext) (simp add: proposes_def split: ibft_message.split)
    then show ?thesis using assms(1) by (simp add: fork_start_def)
  qed
  have inv: "net_inv fork_ibft fork_validators 1 (net_start fork_ibft 1 messages_new (handler_new 0)) net"
    by (rule net_reachable_inv [OF fork_start_ok reach])
  note node = net_node_inv [OF fork_start_ok inv assms(2)] and start = net_start_okD(4) [OF fork_start_ok assms(2)]
  show "store_inv (fork_ibft x) (nd_store (net x))" using inv assms(2) node_votesD(1) by (auto simp: net_inv_def)
  show "handler_address (nd_handler (net x)) = x" using node(2) assms(2) by (simp add: node_inv_def)
  have closed: "node_closed (genuine (net_votes 1 fork_validators net) UNIV (fork_ibft x)) (\<lambda>_. True) (net x)"
    using net_reachable_valid [OF fork_start_ok fork_valid_start reach] assms(2) by (simp add: net_valid_def)
  show "own_message (fork_ibft x) 1 msg \<and> unforged (net_votes 1 fork_validators net) sample_externals msg" if "msg \<in> set (nd_sent (net x))"
    using node_closedD(5) [OF closed that] that reachable_sent [OF start node(1)] by (auto simp: genuine_def sent_inv_def)
qed

lemma fork_reaches_net: "fork_reaches net \<Longrightarrow> net_reachable fork_ibft fork_validators 1 (\<lambda>_. True) fork_start net"
proof (induction rule: relay_reachable.induct)
  case (step net net')
  from step.hyps(2) have "net_step fork_ibft fork_validators 1 (\<lambda>_. True) net net'"
  proof cases
    case (deliver x y msg)
    then show ?thesis using net_fork_node(3) [OF step.IH deliver(3,5)] by (auto intro: net_step.deliver)
  qed (auto intro: net_step.internal)
  then show ?case by (rule net_reachable.step [OF step.IH])
qed (rule net_reachable.init)

lemmas fork_node = net_fork_node [OF fork_reaches_net]

subsection \<open>Relaying messages\<close>

definition file_message :: "ibft_message \<Rightarrow> address \<Rightarrow> consensus_messages \<Rightarrow> consensus_messages" where
  "file_message msg a s =
     (case msg of
        Proposal p \<Rightarrow> add_proposal_message p a s
      | Prepare q \<Rightarrow> add_prepare_message q a s
      | Commit c \<Rightarrow> add_commit_message c a s
      | RoundChange rc \<Rightarrow> add_round_change_message rc a s)"

lemma file_message_simps [simp]:
  "file_message (Proposal p) a s = add_proposal_message p a s" "file_message (Prepare q) a s = add_prepare_message q a s"
  "file_message (Commit c) a s = add_commit_message c a s" "file_message (RoundChange rc) a s = add_round_change_message rc a s"
  by (simp_all add: file_message_def)

lemma own_message_filed:
  assumes "own_message J h msg" and "ibft_ok J h" and "handler_address mh \<noteq> self_of J" and "handler_height mh < h"
    and "view_round (message_view msg) \<le> MAX_ROUND"
  shows "snd (handle_consensus_message (ibft_externals J) (ibft_validators J) mh msg s) = file_message msg (self_of J) s"
  using assms
  by (cases msg) (auto simp: own_message_def ibft_ok_def Let_def own_proposal_def own_prepare_def own_commit_def own_round_change_def)

text \<open>A message that a validator has sent may be delivered to another one, and is stored there.\<close>

lemma fork_relay:
  assumes "fork_reaches net" and "x \<in> fork_validators" and "y \<in> fork_validators" and "y \<noteq> x" and "msg \<in> set (nd_sent (net y))"
    and "handler_height (nd_handler (net x)) < 1" and "view_round (message_view msg) \<le> MAX_ROUND"
  shows "fork_reaches (net(x := (net x)\<lparr>nd_store := file_message msg y (nd_store (net x))\<rparr>))"
proof -
  note y = fork_node(3) [OF assms(1,3,5)]
  have "node_deliver (fork_ibft x) msg (net x) = (net x)\<lparr>nd_store := file_message msg y (nd_store (net x))\<rparr>"
    using own_message_filed [of "fork_ibft y" 1 msg "nd_handler (net x)"] y fork_ibft_ok assms(3,4,6,7) fork_node(2) [OF assms(1,2)]
    by (simp add: node_deliver_def)
  moreover have "relay_step fork_ibft fork_validators net (net(x := node_deliver (fork_ibft x) msg (net x)))"
    using assms(2-4) by (rule relay_step.deliver) (rule assms(5))
  ultimately show ?thesis using relay_reachable.step [OF assms(1)] by simp
qed

lemma fork_relays:
  assumes "fork_reaches net" and "x \<in> fork_validators" and "handler_height (nd_handler (net x)) < 1"
    and "\<forall>(msg, y) \<in> set L. y \<in> fork_validators \<and> y \<noteq> x \<and> msg \<in> set (nd_sent (net y)) \<and> view_round (message_view msg) \<le> MAX_ROUND"
  shows "fork_reaches (net(x := (net x)\<lparr>nd_store := fold (\<lambda>(msg, y). file_message msg y) L (nd_store (net x))\<rparr>))"
  using assms
proof (induction L arbitrary: net)
  case (Cons my L)
  obtain msg y where my: "my = (msg, y)" by force
  let ?net = "net(x := (net x)\<lparr>nd_store := file_message msg y (nd_store (net x))\<rparr>)"
  have reach: "fork_reaches ?net" by (rule fork_relay [OF Cons.prems(1,2)]) (use Cons.prems(3,4) my in auto)
  have "\<forall>(msg, z) \<in> set L. z \<in> fork_validators \<and> z \<noteq> x \<and> msg \<in> set (nd_sent (?net z)) \<and> view_round (message_view msg) \<le> MAX_ROUND"
    using Cons.prems(4) by auto
  from Cons.IH [OF reach Cons.prems(2) _ this] show ?case using Cons.prems(3) my by (simp cong: if_cong)
qed simp

text \<open>A turn of a validator: messages of others are delivered to it, then its round task runs.\<close>

abbreviation filed :: "(ibft_message \<times> address) list \<Rightarrow> consensus_messages \<Rightarrow> consensus_messages" where
  "filed \<equiv> fold (\<lambda>(msg, y). file_message msg y)"

definition relayable :: "network \<Rightarrow> address \<Rightarrow> (ibft_message \<times> address) list \<Rightarrow> bool" where
  "relayable net x L \<longleftrightarrow> (\<forall>(msg, y) \<in> set L. y \<in> fork_validators \<and> y \<noteq> x \<and> msg \<in> set (nd_sent (net y)) \<and>
     view_round (message_view msg) \<le> MAX_ROUND)"

lemma relayable_simps [simp]:
  "relayable net x []"
  "relayable net x ((msg, y) # L) \<longleftrightarrow> y \<in> fork_validators \<and> y \<noteq> x \<and> msg \<in> set (nd_sent (net y)) \<and>
     view_round (message_view msg) \<le> MAX_ROUND \<and> relayable net x L"
  by (simp_all add: relayable_def)

lemma fork_scheduled: "x \<in> fork_validators \<Longrightarrow> scheduled (fork_ibft x) (\<lambda>_. True) (\<lambda>n. fork_reaches (net(x := n)))"
  by (rule relay_scheduled)

lemma selecting_store [simp]: "selecting v t (n\<lparr>nd_store := s\<rparr>) \<longleftrightarrow> selecting v t n"
  by (simp add: selecting_def)

lemma fork_delivered:
  assumes "fork_reaches net" and "x \<in> fork_validators" and "selecting v t (net x)" and "view_height v = 1" and "relayable net x L"
  shows "fork_reaches (net(x := (net x)\<lparr>nd_store := filed L (nd_store (net x))\<rparr>))"
    and "store_inv (fork_ibft x) (filed L (nd_store (net x)))"
proof -
  show reach: "fork_reaches (net(x := (net x)\<lparr>nd_store := filed L (nd_store (net x))\<rparr>))"
    by (rule fork_relays [OF assms(1,2)]) (use assms(3-5) in \<open>simp_all add: selecting_def relayable_def\<close>)
  show "store_inv (fork_ibft x) (filed L (nd_store (net x)))" using fork_node(1) [OF reach assms(2)] by simp
qed

lemma fork_turn:
  assumes "fork_reaches net" and "x \<in> fork_validators" and "selecting v t (net x)" and "view_height v = 1" and "relayable net x L"
    and "round_polls k (fork_ibft x) b t (filed L (nd_store (net x))) = Some (t', s', msgs)"
  obtains n where "fork_reaches (net(x := n))" "selecting v t' n" "nd_store n = s'" "nd_sent n = nd_sent (net x) @ msgs" "nd_latest n = nd_latest (net x)"
proof -
  let ?n = "(net x)\<lparr>nd_store := filed L (nd_store (net x))\<rparr>"
  have "\<exists>n. fork_reaches (net(x := n)) \<and> selecting v t' n \<and> nd_store n = s' \<and> nd_sent n = nd_sent ?n @ msgs \<and> nd_latest n = nd_latest ?n \<and>
      nd_handler n = nd_handler ?n"
    by (rule scheduled.selecting_polls [OF fork_scheduled [OF assms(2)] fork_delivered(1) [OF assms(1-5)]])
      (use assms(3,6) in simp_all)
  then show thesis using that by auto
qed

text \<open>A turn in which a validator prepares, and one in which it commits.\<close>

lemma fork_prepares:
  assumes "fork_reaches net" and "x \<in> fork_validators" and "selecting v (round_task_new (shared_run_state_new v)) (net x)"
    and "view_height v = 1" and "view_round v \<le> MAX_ROUND" and "\<not> is_proposer sample_manager x v" and "relayable net x L"
    and "s = filed L (nd_store (net x))" and "proposal_at s v = Some p" and "verification_at s v = None"
    and "proposal_verify_fn (fork_ibft x) v p = Inr ()" and "map_of (prepares_at s v) x = None"
  obtains n m where "fork_reaches (net(x := n))" "selecting v (voting_task v (ps_digest p)) n" "same_but v s (nd_store n)"
    "prepares_at (nd_store n) v = prepares_at s v @ [(x, m)]" "nd_sent n = nd_sent (net x) @ [Prepare m]" "nd_latest n = nd_latest (net x)"
    "own_prepare (fork_ibft x) v m" "pr_digest m = ps_digest p" "length (ps_digest p) = 32"
proof -
  note inv = fork_delivered(2) [OF assms(1-4,7), folded assms(8)]
  obtain m s' where m: "round_polls 4 (fork_ibft x) (Inl []) (round_task_new (shared_run_state_new v)) s =
      Some (voting_task v (ps_digest p), s', [Prepare m])" "own_prepare (fork_ibft x) v m" "pr_digest m = ps_digest p" "length (ps_digest p) = 32"
    "same_but v s s'" "prepares_at s' v = prepares_at s v @ [(self_of (fork_ibft x), m)]"
    by (rule validator_prepares [OF fork_ibft_ok [OF assms(2)] inv assms(4,5), where b = "Inl []" and p = p])
      (use assms(2,6,9-12) in \<open>simp_all del: sample_manager_simps\<close>)
  obtain n where n: "fork_reaches (net(x := n))" "selecting v (voting_task v (ps_digest p)) n" "nd_store n = s'" "nd_sent n = nd_sent (net x) @ [Prepare m]"
    "nd_latest n = nd_latest (net x)"
    by (rule fork_turn [OF assms(1-4,7) m(1) [unfolded assms(8)]])
  show thesis by (rule that [OF n(1,2)]) (use m n assms(2) in simp_all)
qed

lemma fork_commits:
  assumes "fork_reaches net" and "x \<in> fork_validators" and "selecting v (voting_task v d) (net x)" and "view_height v = 1" and "relayable net x L"
    and "s = filed L (nd_store (net x))" and "length d = 32" and "2 \<le> preps s v d"
  obtains n c where "fork_reaches (net(x := n))" "selecting v (rt_goto (AddCommit c) (voting_task v d)) n" "same_but v s (nd_store n)"
    "nd_sent n = nd_sent (net x) @ [Commit c]" "nd_latest n = nd_latest (net x)" "own_commit (fork_ibft x) v c" "cm_digest c = d"
proof -
  note inv = fork_delivered(2) [OF assms(1-5), folded assms(6)]
  obtain c s' where c: "round_polls 2 (fork_ibft x) (Inl []) (voting_task v d) s = Some (rt_goto (AddCommit c) (voting_task v d), s', [Commit c])"
    "own_commit (fork_ibft x) v c" "cm_digest c = d" "same_but v s s'"
    by (rule prepared_commits [OF fork_ibft_ok [OF assms(2)] inv voting_task_simps(2) [where v = v] assms(7), where b = "Inl []"])
      (use assms(8) in \<open>simp_all add: usize_pred_def\<close>)
  obtain n where n: "fork_reaches (net(x := n))" "selecting v (rt_goto (AddCommit c) (voting_task v d)) n" "nd_store n = s'"
    "nd_sent n = nd_sent (net x) @ [Commit c]" "nd_latest n = nd_latest (net x)"
    by (rule fork_turn [OF assms(1-5) c(1) [unfolded assms(6)]])
  show thesis by (rule that [OF n(1,2)]) (use c n in simp_all)
qed

subsection \<open>A round that one validator finishes\<close>

text \<open>A validator in a round for which its store holds nothing.\<close>

definition waiting :: "view \<Rightarrow> node \<Rightarrow> bool" where
  "waiting v n \<longleftrightarrow> selecting v (round_task_new (shared_run_state_new v)) n \<and> vacant (nd_store n) v"

text \<open>A validator that has prepared and committed for the digest, and is not in the commit state yet.\<close>

definition voted :: "address \<Rightarrow> view \<Rightarrow> bytes \<Rightarrow> node \<Rightarrow> node \<Rightarrow> prepare_signed \<Rightarrow> commit_signed \<Rightarrow> bool" where
  "voted x v d n n' m c \<longleftrightarrow> selecting v (rt_goto (AddCommit c) (voting_task v d)) n' \<and> same_but v (nd_store n) (nd_store n') \<and>
     nd_latest n' = nd_latest n \<and> nd_sent n' = nd_sent n @ [Prepare m, Commit c] \<and>
     own_prepare (fork_ibft x) v m \<and> own_commit (fork_ibft x) v c \<and> pr_digest m = d \<and> cm_digest c = d"

lemma waiting_given:
  assumes "fork_reaches net" and "z \<in> fork_validators" and "z \<noteq> a" and "ps_view p = v" and "waiting v (net z)"
  defines "s \<equiv> add_proposal_message p a (nd_store (net z))"
  shows "proposal_at s v = Some p \<and> verification_at s v = None \<and> prepares_at s v = [] \<and> store_wf s \<and> same_but v (nd_store (net z)) s"
proof -
  note inv = store_invD(1,3) [OF fork_node(1) [OF assms(1,2)]]
  show ?thesis
    using inv assms(2-5) same_but_adds(1) [OF inv(1) assms(4)] by (simp add: s_def waiting_def vacant_def store_laws wf_intros)
qed

lemma fork_votes:
  assumes "fork_reaches net" and "{a, x, y} \<subseteq> fork_validators" and "a \<noteq> x" and "a \<noteq> y" and "x \<noteq> y"
    and "view_height v = 1" and "view_round v \<le> MAX_ROUND" and "is_proposer sample_manager a v"
    and "Proposal p \<in> set (nd_sent (net a))" and "ps_view p = v"
    and "waiting v (net x)" and "waiting v (net y)"
    and "proposal_verify_fn (fork_ibft x) v p = Inr ()" and "proposal_verify_fn (fork_ibft y) v p = Inr ()"
  obtains nx ny mx my cx cy where "fork_reaches (net(x := nx, y := ny))"
    "voted x v (ps_digest p) (net x) nx mx cx" "voted y v (ps_digest p) (net y) ny my cy"
proof -
  let ?d = "ps_digest p" and ?sx = "add_proposal_message p a (nd_store (net x))" and ?sy = "add_proposal_message p a (nd_store (net y))"
  have V: "a \<in> fork_validators" "x \<in> fork_validators" "y \<in> fork_validators" using assms(2) by auto
  have voter: "\<not> is_proposer sample_manager x v" "\<not> is_proposer sample_manager y v" using assms(3,4,8) by simp_all
  note sx = waiting_given [OF assms(1) V(2) assms(3) [symmetric] assms(10,11)] and sy = waiting_given [OF assms(1) V(3) assms(4) [symmetric] assms(10,12)]
  have sel: "selecting v (round_task_new (shared_run_state_new v)) (net x)" "selecting v (round_task_new (shared_run_state_new v)) (net y)"
    using assms(11,12) by (simp_all add: waiting_def)
  obtain n1 mx where x1: "fork_reaches (net(x := n1))" "selecting v (voting_task v ?d) n1" "same_but v ?sx (nd_store n1)"
    "prepares_at (nd_store n1) v = prepares_at ?sx v @ [(x, mx)]" "nd_sent n1 = nd_sent (net x) @ [Prepare mx]" "nd_latest n1 = nd_latest (net x)"
    "own_prepare (fork_ibft x) v mx" "pr_digest mx = ?d" "length ?d = 32"
    by (rule fork_prepares [OF assms(1) V(2) sel(1) assms(6,7) voter(1), of "[(Proposal p, a)]" ?sx p])
      (use assms(3,7,9,10,13) V sx in simp_all)
  let ?sy' = "add_prepare_message mx x ?sy"
  have mx: "pr_view mx = v" using x1(7) by (simp add: own_prepare_def)
  have sy': "proposal_at ?sy' v = Some p" "verification_at ?sy' v = None" "prepares_at ?sy' v = [(x, mx)]" "same_but v (nd_store (net y)) ?sy'"
    using sy mx same_but_trans [OF _ same_but_adds(2)] by (simp_all add: store_laws)
  obtain n2 my where y2: "fork_reaches (net(x := n1, y := n2))" "selecting v (voting_task v ?d) n2" "same_but v ?sy' (nd_store n2)"
    "prepares_at (nd_store n2) v = prepares_at ?sy' v @ [(y, my)]" "nd_sent n2 = nd_sent (net y) @ [Prepare my]" "nd_latest n2 = nd_latest (net y)"
    "own_prepare (fork_ibft y) v my" "pr_digest my = ?d"
    by (rule fork_prepares [OF x1(1) V(3) _ assms(6,7) voter(2), of "[(Proposal p, a), (Prepare mx, x)]" ?sy' p])
      (use assms(3-5,7,9,10,14) V sel(2) sy' x1(5) mx in simp_all)
  obtain n3 cy where y3: "fork_reaches (net(x := n1, y := n3))" "selecting v (rt_goto (AddCommit cy) (voting_task v ?d)) n3"
    "same_but v (nd_store n2) (nd_store n3)" "nd_sent n3 = nd_sent n2 @ [Commit cy]" "nd_latest n3 = nd_latest n2" "own_commit (fork_ibft y) v cy" "cm_digest cy = ?d"
    by (rule fork_commits [OF y2(1) V(3) _ assms(6), of ?d "[]" "nd_store n2"])
      (use assms(5) x1(8,9) y2(2,4,8) sy'(3) in \<open>simp_all add: preps_def\<close>)
  let ?sx' = "add_prepare_message my y (nd_store n1)"
  have my: "pr_view my = v" using y2(7) by (simp add: own_prepare_def)
  have wf1: "store_wf (nd_store n1)" using store_invD(1) [OF fork_node(1) [OF x1(1) V(2)]] by simp
  have sx': "preps ?sx' v ?d = 2" "same_but v (nd_store n1) ?sx'"
    using my x1(4,8) y2(8) sx wf1 assms(5) same_but_adds(2) by (simp_all add: store_laws preps_def)
  obtain n4 cx where x4: "fork_reaches (net(y := n3, x := n4))" "selecting v (rt_goto (AddCommit cx) (voting_task v ?d)) n4"
    "same_but v ?sx' (nd_store n4)" "nd_sent n4 = nd_sent n1 @ [Commit cx]" "nd_latest n4 = nd_latest n1" "own_commit (fork_ibft x) v cx" "cm_digest cx = ?d"
    by (rule fork_commits [OF y3(1) V(2) _ assms(6), of ?d "[(Prepare my, y)]" ?sx'])
      (use assms(5,7) V x1(2,9) y2(5) y3(4) sx' my in \<open>simp_all add: fun_upd_twist\<close>)
  show thesis
  proof (rule that [of n4 n3 mx cx my cy])
    show "fork_reaches (net(x := n4, y := n3))" using x4(1) assms(5) by (simp add: fun_upd_twist)
    show "voted x v ?d (net x) n4 mx cx"
      using x1 x4 sx sx' by (auto simp: voted_def intro: same_but_trans)
    show "voted y v ?d (net y) n3 my cy"
      using y2 y3 sy' by (auto simp: voted_def intro: same_but_trans)
  qed
qed

text \<open>With their votes the proposer ends the round and returns the block.\<close>

lemma fork_finishes:
  assumes "fork_reaches net" and "{a, x, y} \<subseteq> fork_validators" and "a \<noteq> x" and "a \<noteq> y" and "x \<noteq> y"
    and "view_height v = 1" and "view_round v \<le> MAX_ROUND"
    and "selecting v (voting_task v (ps_digest p)) (net a)" and "proposal_at (nd_store (net a)) v = Some p"
    and "prepares_at (nd_store (net a)) v = []" and "commits_at (nd_store (net a)) v = []"
    and "voted x v (ps_digest p) nx (net x) mx cx" and "voted y v (ps_digest p) ny (net y) my cy"
  obtains n seals where "fork_reaches (net(a := n))" "nd_blocks n = [finalized_block_new (ps_block p) seals]" "nd_view n = v"
proof -
  let ?d = "ps_digest p" and ?s = "nd_store (net a)" and ?L = "[(Prepare mx, x), (Prepare my, y), (Commit cx, x), (Commit cy, y)]"
  have V: "a \<in> fork_validators" "x \<in> fork_validators" "y \<in> fork_validators" using assms(2) by auto
  have x: "Prepare mx \<in> set (nd_sent (net x))" "Commit cx \<in> set (nd_sent (net x))" "pr_view mx = v" "cm_view cx = v" "pr_digest mx = ?d" "cm_digest cx = ?d" "length ?d = 32"
    using assms(12) by (auto simp: voted_def own_prepare_def own_commit_def)
  have y: "Prepare my \<in> set (nd_sent (net y))" "Commit cy \<in> set (nd_sent (net y))" "pr_view my = v" "cm_view cy = v" "pr_digest my = ?d" "cm_digest cy = ?d"
    using assms(13) by (auto simp: voted_def own_prepare_def own_commit_def)
  have relay: "relayable net a ?L" using V assms(3,4,7) x y by auto
  have wf: "store_wf ?s" by (rule store_invD(1) [OF fork_node(1) [OF assms(1) V(1)]])
  have at: "proposal_at (filed ?L ?s) v = Some p" "preps (filed ?L ?s) v ?d = 2" "commits_at (filed ?L ?s) v = [(x, cx), (y, cy)]"
    using assms(5,9-11) x y wf by (simp_all add: preps_def store_laws wf_intros)
  have "\<exists>t' s' c seals. round_polls 4 (fork_ibft a) (Inl []) (voting_task v ?d) (filed ?L ?s) = Some (t', s', [Commit c]) \<and> rt_pc t' = RoundDone seals \<and>
     rt_view t' = rt_view (voting_task v ?d) \<and> own_commit (fork_ibft a) (rt_view (voting_task v ?d)) c \<and> cm_digest c = ?d \<and>
     seals_valid (fork_ibft a) 1 ?d seals \<and> proposal_at s' = proposal_at (filed ?L ?s)"
    by (rule prepare_completes [OF fork_ibft_ok [OF V(1)] fork_delivered(2) [OF assms(1) V(1) assms(8,6) relay]])
      (use assms(3,4,6,7) x(6,7) y(6) at V in \<open>simp_all add: usize_pred_def commit_votes_def del: fold_simps\<close>)
  then obtain t' s' c seals where polls: "round_polls 4 (fork_ibft a) (Inl []) (voting_task v ?d) (filed ?L ?s) = Some (t', s', [Commit c])"
    "rt_pc t' = RoundDone seals" "proposal_at s' v = Some p"
    using at(1) by (auto simp del: fold_simps)
  obtain n where n: "fork_reaches (net(a := n))" "selecting v t' n" "nd_store n = s'"
    by (rule fork_turn [OF assms(1) V(1) assms(8,6) relay polls(1)])
  obtain ts where ts: "nd_pc n = RunSelect 0" "nd_rounds n = t' # ts" "nd_blocks n = []" "nd_view n = v" "handler_height (nd_handler n) < view_height v"
    using n(2) by (auto simp: selecting_def)
  have "store_wf (nd_store n)" using store_invD(1) [OF fork_node(1) [OF n(1) V(1)]] by simp
  then obtain n' n'' where fin: "fork_reaches (net(a := n'))" "run_step (fork_ibft a) False n' = Some n''" "nd_blocks n'' = [finalized_block_new (ps_block p) seals]"
    "nd_view n'' = v"
    using scheduled.scheduled_finish [OF fork_scheduled [OF V(1)] n(1) ts(1,2) polls(2) ts(3)] n(3) ts(4,5) polls(3) by (auto simp: fun_upd_def)
  have "relay_step fork_ibft fork_validators (net(a := n')) ((net(a := n'))(a := n''))"
    by (rule relay_step.internal [OF V(1)]) (use fin(2) in \<open>auto intro: node_builds.run\<close>)
  from relay_reachable.step [OF fin(1) this] show thesis using that [of n'' seals] fin(3,4) by simp
qed

text \<open>Hence a proposer whose proposal two others accept returns its block, and they are left before their commit state.\<close>

lemma fork_round:
  assumes "fork_reaches net" and "{a, x, y} \<subseteq> fork_validators" and "a \<noteq> x" and "a \<noteq> y" and "x \<noteq> y"
    and "view_height v = 1" and "view_round v \<le> MAX_ROUND" and "is_proposer sample_manager a v"
    and "Proposal p \<in> set (nd_sent (net a))" and "waiting v (net x)" and "waiting v (net y)"
    and "proposal_verify_fn (fork_ibft x) v p = Inr ()" and "proposal_verify_fn (fork_ibft y) v p = Inr ()"
    and "selecting v (voting_task v (ps_digest p)) (net a)" and "proposal_at (nd_store (net a)) v = Some p"
    and "prepares_at (nd_store (net a)) v = []" and "commits_at (nd_store (net a)) v = []"
  obtains na nx ny mx my cx cy seals where "fork_reaches (net(x := nx, y := ny, a := na))" "nd_blocks na = [finalized_block_new (ps_block p) seals]" "nd_view na = v"
    "voted x v (ps_digest p) (net x) nx mx cx" "voted y v (ps_digest p) (net y) ny my cy"
proof -
  have "a \<in> fork_validators" using assms(2) by simp
  then have view: "ps_view p = v"
    using store_wf_filed(1) [OF store_invD(1) [OF fork_node(1) [OF assms(1)]] assms(15)] by simp
  obtain nx ny mx my cx cy where votes: "fork_reaches (net(x := nx, y := ny))"
    "voted x v (ps_digest p) (net x) nx mx cx" "voted y v (ps_digest p) (net y) ny my cy"
    by (rule fork_votes [OF assms(1-9) view assms(10-13)])
  obtain na seals where "fork_reaches ((net(x := nx, y := ny))(a := na))" "nd_blocks na = [finalized_block_new (ps_block p) seals]" "nd_view na = v"
    by (rule fork_finishes [OF votes(1) assms(2-7), of p "net x" mx cx "net y" my cy]) (use assms(3-5,14-17) votes(2,3) in simp_all)
  then show thesis using that votes(2,3) by blast
qed

subsection \<open>The fork\<close>

abbreviation fork_node_address :: "u8 \<Rightarrow> address" where
  "fork_node_address n \<equiv> Address (replicate 24 n)"

text \<open>A validator that has come into round 0 and heard nothing.\<close>

definition entered :: "address \<Rightarrow> node \<Rightarrow> bool" where
  "entered x n \<longleftrightarrow> waiting (view_new 1 0) n \<and> nd_store n = messages_new x \<and> nd_sent n = [] \<and> nd_latest n = None"

lemma fork_enters:
  assumes "fork_reaches net" and "x \<in> fork_validators" and "net x = fork_start x"
  obtains n where "fork_reaches (net(x := n))" "entered x n"
proof -
  have start: "fork_reaches (net(x := node_start (fork_ibft x) 1 (messages_new x) (handler_new 0 x)))"
    using assms(1) unfolding assms(3) [unfolded fork_start_def net_start_def, symmetric] by simp
  have "\<exists>n. fork_reaches (net(x := n)) \<and> selecting (view_new 1 0) (round_task_new (shared_run_state_new (view_new 1 0))) n \<and>
    nd_store n = messages_new x \<and> nd_sent n = [] \<and> nd_latest n = None \<and> nd_handler n = handler_new 0 x"
    by (rule scheduled.selecting_start [OF fork_scheduled [OF assms(2)] start]) (simp_all add: handler_new_def)
  then show thesis using that by (auto simp: entered_def waiting_def vacant_def new_laws)
qed

lemma fork_all_enter:
  obtains net where "fork_reaches net" "\<And>x. x \<in> fork_validators \<Longrightarrow> entered x (net x)"
proof -
  let ?a = fork_node_address
  have V: "?a n \<in> fork_validators" if "n \<in> {1, 2, 3, 4}" for n using that by (auto simp: fork_validators_iff)
  obtain n1 where 1: "fork_reaches (fork_start(?a 1 := n1))" "entered (?a 1) n1"
    by (rule fork_enters [OF relay_reachable.init V [of 1]]) simp_all
  obtain n2 where 2: "fork_reaches (fork_start(?a 1 := n1, ?a 2 := n2))" "entered (?a 2) n2"
    by (rule fork_enters [OF 1(1) V [of 2]]) simp_all
  obtain n3 where 3: "fork_reaches (fork_start(?a 1 := n1, ?a 2 := n2, ?a 3 := n3))" "entered (?a 3) n3"
    by (rule fork_enters [OF 2(1) V [of 3]]) simp_all
  obtain n4 where 4: "fork_reaches (fork_start(?a 1 := n1, ?a 2 := n2, ?a 3 := n3, ?a 4 := n4))" "entered (?a 4) n4"
    by (rule fork_enters [OF 3(1) V [of 4]]) simp_all
  show thesis by (rule that [OF 4(1)]) (use 1(2) 2(2) 3(2) 4(2) in \<open>auto simp: fork_validators_iff\<close>)
qed

text \<open>A validator that has not got to the commit state asks for round 1 without a certificate.\<close>

lemma fork_times_out:
  assumes "fork_reaches net" and "x \<in> fork_validators" and "selecting (view_new 1 0) t (net x)" and "\<And>seals. rt_pc t \<noteq> RoundDone seals"
    and "shared_run_state_get (rt_state t) \<in> {Some StProposal, Some StPrepare}" and "nd_latest (net x) = None" and "v = view_new 1 1"
  obtains n rc where "fork_reaches (net(x := n))" "selecting v (round_task_new (shared_run_state_new v)) n"
    "nd_sent n = nd_sent (net x) @ [RoundChange rc]" "rcs_view rc = v" "rcs_prepared rc = None"
    "nd_store n = (if is_proposer sample_manager x v then add_round_change_message rc x (nd_store (net x)) else nd_store (net x))"
proof -
  have reach: "fork_reaches (net(x := net x))" using assms(1) by simp
  have "\<exists>n rc. fork_reaches (net(x := n)) \<and> selecting v (round_task_new (shared_run_state_new v)) n \<and> nd_handler n = nd_handler (net x) \<and>
    nd_sent n = nd_sent (net x) @ [RoundChange rc] \<and> rcs_view rc = v \<and> rcs_prepared rc = None \<and>
    nd_store n = (if is_proposer (ibft_validators (fork_ibft x)) (self_of (fork_ibft x)) v
      then add_round_change_message rc (self_of (fork_ibft x)) (nd_store (net x)) else nd_store (net x))"
    by (rule scheduled.selecting_timeout [OF fork_scheduled [OF assms(2)] reach assms(3) fork_ibft_ok [OF assms(2)] assms(4-6)])
      (simp_all add: assms(7) view_new_def MAX_ROUND_def)
  then show thesis using that assms(2) by auto
qed

text \<open>A validator that has committed to a digest in round 0, before its commit state; and once it has asked for round 1 without a certificate.\<close>

definition committed :: "bytes \<Rightarrow> node \<Rightarrow> bool" where
  "committed d n \<longleftrightarrow> (\<exists>t. selecting (view_new 1 0) t n \<and> (\<forall>seals. rt_pc t \<noteq> RoundDone seals) \<and>
     shared_run_state_get (rt_state t) = Some StPrepare) \<and> nd_latest n = None \<and> vacant (nd_store n) (view_new 1 1) \<and>
     (\<exists>m c. nd_sent n = [Prepare m, Commit c] \<and> cm_view c = view_new 1 0 \<and> cm_digest c = d)"

definition gave_up :: "bytes \<Rightarrow> ibft_message list \<Rightarrow> bool" where
  "gave_up d msgs \<longleftrightarrow> (\<exists>m c rc. msgs = [Prepare m, Commit c, RoundChange rc] \<and> cm_view c = view_new 1 0 \<and> cm_digest c = d \<and>
     rcs_view rc = view_new 1 1 \<and> rcs_prepared rc = None)"

lemma voted_committed:
  assumes "voted x (view_new 1 0) d n n' m c" and "entered x n"
  shows "committed d n'"
proof -
  have "vacant (nd_store n) (view_new 1 1)" using assms(2) by (simp add: entered_def vacant_def new_laws)
  then have "vacant (nd_store n') (view_new 1 1)"
    using assms(1) vacant_same [of "view_new 1 0" "nd_store n" "nd_store n'" "view_new 1 1"] by (simp add: voted_def view_new_def)
  then show ?thesis
    using assms by (auto simp: committed_def voted_def entered_def rt_goto_def own_commit_def
        intro!: exI [of _ "rt_goto (AddCommit c) (voting_task (view_new 1 0) d)"])
qed

text \<open>The digest of a block made from an own proposal is the digest of the proposal.\<close>

lemma proposal_block_digest:
  "own_proposal I v p \<Longrightarrow> block_digest (ibft_externals I) (finalized_block_new (ps_block p) seals) = ps_digest p"
  by (simp add: own_proposal_def proposal_verify_block_digest_def proposed_block_digest_def block_digest_def finalized_block_new_def finalization_proof_new_def)

lemma fork_first_block:
  obtains net b d where "fork_reaches net" "nd_blocks (net (fork_node_address 2)) = [b]" "nd_view (net (fork_node_address 2)) = view_new 1 0"
    "final_raw_block b = [1]" "proof_round (final_proof b) = 0" "d = block_digest sample_externals b"
    "committed d (net (fork_node_address 1))" "committed d (net (fork_node_address 4))" "entered (fork_node_address 3) (net (fork_node_address 3))"
proof -
  let ?A = "fork_node_address 2" and ?B = "fork_node_address 1" and ?D = "fork_node_address 4" and ?v = "view_new 1 0"
  obtain net where net: "fork_reaches net" "\<And>x. x \<in> fork_validators \<Longrightarrow> entered x (net x)" by (rule fork_all_enter) blast
  have V: "?A \<in> fork_validators" "?B \<in> fork_validators" "?D \<in> fork_validators" "fork_node_address 3 \<in> fork_validators" by (auto simp: fork_validators_iff)
  have A: "is_proposer sample_manager ?A ?v" by (simp add: view_new_def)
  obtain p where p: "round_polls 3 (fork_ibft ?A) (Inr [1]) (round_task_new (shared_run_state_new ?v)) (messages_new ?A) =
      Some (voting_task ?v (ps_digest p), add_proposal_message p ?A (messages_new ?A), [Proposal p])"
    "own_proposal (fork_ibft ?A) ?v p" "ps_block p = \<lparr>raw_block = [1], block_round = 0\<rparr>"
    by (rule proposes_round_0 [OF fork_ibft_ok [OF V(1)], of ?v "[1]" "messages_new ?A"]) (use V(1) A in \<open>simp_all add: view_new_def\<close>)
  obtain n where n: "fork_reaches (net(?A := n))" "selecting ?v (voting_task ?v (ps_digest p)) n" "nd_store n = add_proposal_message p ?A (messages_new ?A)"
    "nd_sent n = nd_sent (net ?A) @ [Proposal p]"
    by (rule fork_turn [OF net(1) V(1), of ?v "round_task_new (shared_run_state_new ?v)" "[]" 3 "Inr [1]"])
      (use net(2) [OF V(1)] p(1) in \<open>simp_all add: entered_def waiting_def view_new_def\<close>)
  have verify: "proposal_verify_fn (fork_ibft x) ?v p = Inr ()" for x
    using p(2) by (simp add: proposal_verify_fn_def proposal_0_accepts_iff own_proposal_def view_new_def)
  obtain na nx ny mx my cx cy seals where r: "fork_reaches (net(?A := n, ?B := nx, ?D := ny, ?A := na))" "nd_blocks na = [finalized_block_new (ps_block p) seals]" "nd_view na = ?v"
    "voted ?B ?v (ps_digest p) (net ?B) nx mx cx" "voted ?D ?v (ps_digest p) (net ?D) ny my cy"
    by (rule fork_round [OF n(1), of ?A ?B ?D ?v p])
      (use V A verify net(2) n(2-4) p(2) in \<open>simp_all add: view_new_def MAX_ROUND_def entered_def own_proposal_def store_laws messages_new_wf new_laws\<close>)
  show thesis
  proof (rule that [OF r(1)])
    show "nd_blocks ((net(?A := n, ?B := nx, ?D := ny, ?A := na)) ?A) = [finalized_block_new (ps_block p) seals]" using r(2) by simp
    show "final_raw_block (finalized_block_new (ps_block p) seals) = [1]" "proof_round (final_proof (finalized_block_new (ps_block p) seals)) = 0"
      using p(3) by (simp_all add: finalized_block_new_def finalization_proof_new_def)
    show "ps_digest p = block_digest sample_externals (finalized_block_new (ps_block p) seals)" using proposal_block_digest [OF p(2)] by simp
  qed (use r(3-5) net(2) V voted_committed in auto)
qed

text \<open>The committed ones time out and are ready for round 1.\<close>

lemma committed_times_out:
  assumes "fork_reaches net" and "x \<in> fork_validators" and "committed d (net x)" and "\<not> is_proposer sample_manager x (view_new 1 1)"
  obtains n rc where "fork_reaches (net(x := n))" "waiting (view_new 1 1) n" "RoundChange rc \<in> set (nd_sent n)"
    "rcs_view rc = view_new 1 1" "rcs_prepared rc = None" "gave_up d (nd_sent n)"
proof -
  obtain t where t: "selecting (view_new 1 0) t (net x)" "\<And>seals. rt_pc t \<noteq> RoundDone seals" "shared_run_state_get (rt_state t) = Some StPrepare"
    "nd_latest (net x) = None" "vacant (nd_store (net x)) (view_new 1 1)"
    "\<exists>m c. nd_sent (net x) = [Prepare m, Commit c] \<and> cm_view c = view_new 1 0 \<and> cm_digest c = d"
    using assms(3) unfolding committed_def by blast
  obtain n rc where "fork_reaches (net(x := n))" "selecting (view_new 1 1) (round_task_new (shared_run_state_new (view_new 1 1))) n"
    "nd_sent n = nd_sent (net x) @ [RoundChange rc]" "rcs_view rc = view_new 1 1" "rcs_prepared rc = None"
    "nd_store n = (if is_proposer sample_manager x (view_new 1 1) then add_round_change_message rc x (nd_store (net x)) else nd_store (net x))"
    by (rule fork_times_out [OF assms(1,2) t(1,2) _ t(4) refl]) (use t(3) in simp_all)
  then show thesis using that [of n rc] t(5,6) assms(4) by (auto simp: waiting_def gave_up_def)
qed

text \<open>The third validator gets their round changes and proposes a new block, which they accept.\<close>

lemma fork_second_proposal:
  assumes "fork_reaches net" and "committed d (net (fork_node_address 1))" and "committed d (net (fork_node_address 4))"
    and "entered (fork_node_address 3) (net (fork_node_address 3))"
  obtains n1 n4 n3 p where "fork_reaches (net(fork_node_address 1 := n1, fork_node_address 4 := n4, fork_node_address 3 := n3))"
    "waiting (view_new 1 1) n1" "waiting (view_new 1 1) n4" "selecting (view_new 1 1) (voting_task (view_new 1 1) (ps_digest p)) n3"
    "Proposal p \<in> set (nd_sent n3)" "own_proposal (fork_ibft (fork_node_address 3)) (view_new 1 1) p"
    "ps_block p = \<lparr>raw_block = [2], block_round = 1\<rparr>" "gave_up d (nd_sent n1)" "gave_up d (nd_sent n4)" "proposal_at (nd_store n3) (view_new 1 1) = Some p"
    "prepares_at (nd_store n3) (view_new 1 1) = []" "commits_at (nd_store n3) (view_new 1 1) = []"
    "\<And>x. proposal_verify_fn (fork_ibft x) (view_new 1 1) p = Inr ()"
proof -
  let ?B = "fork_node_address 1" and ?C = "fork_node_address 3" and ?D = "fork_node_address 4" and ?v = "view_new 1 1"
  let ?t0 = "round_task_new (shared_run_state_new ?v)"
  have V: "?B \<in> fork_validators" "?C \<in> fork_validators" "?D \<in> fork_validators" by (auto simp: fork_validators_iff)
  have pr: "is_proposer sample_manager ?C ?v" "\<not> is_proposer sample_manager ?B ?v" "\<not> is_proposer sample_manager ?D ?v"
    by (simp_all add: view_new_def)
  obtain n1 rb where B: "fork_reaches (net(?B := n1))" "waiting ?v n1" "RoundChange rb \<in> set (nd_sent n1)" "rcs_view rb = ?v" "rcs_prepared rb = None" "gave_up d (nd_sent n1)"
    by (rule committed_times_out [OF assms(1) V(1) assms(2) pr(2)])
  obtain n4 rd where D: "fork_reaches (net(?B := n1, ?D := n4))" "waiting ?v n4" "RoundChange rd \<in> set (nd_sent n4)" "rcs_view rd = ?v" "rcs_prepared rd = None" "gave_up d (nd_sent n4)"
    by (rule committed_times_out [OF B(1) V(3) _ pr(3)]) (use assms(3) in simp_all)
  let ?net = "net(?B := n1, ?D := n4)"
  obtain n3 rc where C: "fork_reaches (?net(?C := n3))" "selecting ?v ?t0 n3" "rcs_view rc = ?v" "rcs_prepared rc = None"
    "nd_store n3 = (if is_proposer sample_manager ?C ?v then add_round_change_message rc ?C (nd_store (?net ?C)) else nd_store (?net ?C))"
    by (rule fork_times_out [OF D(1) V(2), of "round_task_new (shared_run_state_new (view_new 1 0))"])
      (use assms(4) in \<open>simp_all add: entered_def waiting_def task_new_simps\<close>)
  let ?L = "[(RoundChange rb, ?B), (RoundChange rd, ?D)]"
  have relay: "relayable (?net(?C := n3)) ?C ?L" using V B(3,4) D(3,4) by (simp add: view_new_def MAX_ROUND_def)
  have store: "nd_store n3 = add_round_change_message rc ?C (messages_new ?C)" using C(5) pr(1) assms(4) by (simp add: entered_def)
  let ?s = "filed ?L (nd_store n3)"
  have at: "proposal_at ?s ?v = None" "prepares_at ?s ?v = []" "commits_at ?s ?v = []"
    "round_changes_at ?s ?v = [(?C, (rc, True)), (?B, (rb, False)), (?D, (rd, False))]"
    using B(4) C(3) D(4) by (simp_all add: store store_laws messages_new_wf wf_intros new_laws)
  have inv: "store_inv (fork_ibft ?C) ?s"
    using fork_delivered(2) [OF C(1) V(2) _ _ relay, of ?v ?t0] C(2) by (simp add: view_new_def)
  obtain p s1 where p: "round_polls 4 (fork_ibft ?C) (Inr [2]) ?t0 ?s =
      Some (voting_task ?v (ps_digest p), add_proposal_message p (self_of (fork_ibft ?C)) s1, [Proposal p])"
    "own_proposal (fork_ibft ?C) ?v p" "ps_block p = \<lparr>raw_block = [2], block_round = view_round ?v\<rparr>" "store_inv (fork_ibft ?C) s1" "proposal_at s1 = proposal_at ?s"
    "prepares_at s1 = prepares_at ?s" "commits_at s1 = commits_at ?s"
    "\<And>B. verify_block B [2] = Inr () \<Longrightarrow>
       proposal_1_verify_fn (ibft_externals (fork_ibft ?C)) (ibft_validators (fork_ibft ?C)) B (quorum_of (fork_ibft ?C) ?v) p = Inr ()"
    by (rule proposes_later_round [OF fork_ibft_ok [OF V(2)] inv, of ?v "[2]"])
      (use V(2) pr(1) at(4) B(5) C(4) D(5) in \<open>auto simp: view_new_def MAX_ROUND_def simp del: fold_simps\<close>)
  obtain n where n: "fork_reaches (?net(?C := n3, ?C := n))" "selecting ?v (voting_task ?v (ps_digest p)) n"
    "nd_store n = add_proposal_message p ?C s1" "nd_sent n = nd_sent ((?net(?C := n3)) ?C) @ [Proposal p]"
    by (rule fork_turn [OF C(1) V(2) _ _ relay, of ?v ?t0 4 "Inr [2]"])
      (use C(2) p(1) V(2) in \<open>simp_all add: view_new_def del: fold_simps\<close>)
  note wf = store_invD(1) [OF p(4)]
  have stored: "proposal_at (nd_store n) ?v = Some p" "prepares_at (nd_store n) ?v = []" "commits_at (nd_store n) ?v = []"
    using p(2,5-7) at(1-3) wf n(3) by (simp_all add: store_laws own_proposal_def del: fold_simps)
  have verify: "proposal_verify_fn (fork_ibft x) ?v p = Inr ()" for x
    using p(8) [of "ibft_blocks (fork_ibft x)"] by (simp add: proposal_verify_fn_def view_new_def)
  show thesis by (rule that [of n1 n4 n p]) (use n B(2,6) D(2,6) p(2,3) stored verify in \<open>simp_all add: view_new_def\<close>)
qed

text \<open>What a validator has broadcast that commits in round 0, asks for round 1 without a certificate, and commits again there.\<close>

definition switched :: "bytes \<Rightarrow> bytes \<Rightarrow> ibft_message list \<Rightarrow> bool" where
  "switched d e msgs \<longleftrightarrow> (\<exists>m1 c1 rc m2 c2. msgs = [Prepare m1, Commit c1, RoundChange rc, Prepare m2, Commit c2] \<and>
     cm_view c1 = view_new 1 0 \<and> cm_digest c1 = d \<and> rcs_view rc = view_new 1 1 \<and> rcs_prepared rc = None \<and>
     cm_view c2 = view_new 1 1 \<and> cm_digest c2 = e)"

text \<open>C6: Agreement ends at the round. Four validators that all follow the protocol, from an admissible start with
  empty stores, over a network that passes on only what they have sent: a state is reachable in which one of them has
  finalized a block in round 0 and another one a different block in round 1 of the same height. Two
  validators have broadcast exactly this: a prepare and a commit to the first block in round 0, then, timed out before their run state was
  \<open>Commit\<close>, a round change for round 1 without a prepared certificate, then a prepare and a commit to the
  second block in round 1, which its proposer was free to build.\<close>

theorem rounds_can_fork:
  "net_start_ok sample_externals (mock_manager sample_mock) fork_ibft fork_validators 1 messages_new (handler_new 0) \<and>
   (\<exists>net b c. relay_reachable fork_ibft fork_validators (net_start fork_ibft 1 messages_new (handler_new 0)) net \<and>
      nd_blocks (net (fork_node_address 2)) = [b] \<and> nd_view (net (fork_node_address 2)) = view_new 1 0 \<and> proof_round (final_proof b) = 0 \<and>
      nd_blocks (net (fork_node_address 3)) = [c] \<and> nd_view (net (fork_node_address 3)) = view_new 1 1 \<and> proof_round (final_proof c) = 1 \<and>
      final_raw_block b \<noteq> final_raw_block c \<and>
      switched (block_digest sample_externals b) (block_digest sample_externals c) (nd_sent (net (fork_node_address 1))) \<and>
      switched (block_digest sample_externals b) (block_digest sample_externals c) (nd_sent (net (fork_node_address 4))))"
proof
  let ?A = "fork_node_address 2" and ?B = "fork_node_address 1" and ?C = "fork_node_address 3" and ?D = "fork_node_address 4" and ?v = "view_new 1 1"
  show "net_start_ok sample_externals sample_manager fork_ibft fork_validators 1 messages_new (handler_new 0)" by (rule fork_start_ok)
  obtain net b d where first: "fork_reaches net" "nd_blocks (net ?A) = [b]" "nd_view (net ?A) = view_new 1 0" "final_raw_block b = [1]"
    "proof_round (final_proof b) = 0" "d = block_digest sample_externals b"
    "committed d (net ?B)" "committed d (net ?D)" "entered ?C (net ?C)"
    by (rule fork_first_block)
  obtain n1 n4 n3 p where second: "fork_reaches (net(?B := n1, ?D := n4, ?C := n3))" "waiting ?v n1" "waiting ?v n4"
    "selecting ?v (voting_task ?v (ps_digest p)) n3" "Proposal p \<in> set (nd_sent n3)"
    "proposal_at (nd_store n3) ?v = Some p" "prepares_at (nd_store n3) ?v = []" "commits_at (nd_store n3) ?v = []"
    "\<And>x. proposal_verify_fn (fork_ibft x) ?v p = Inr ()"
    and p: "own_proposal (fork_ibft ?C) ?v p" "ps_block p = \<lparr>raw_block = [2], block_round = 1\<rparr>" and up: "gave_up d (nd_sent n1)" "gave_up d (nd_sent n4)"
    by (rule fork_second_proposal [OF first(1,7-9)]) blast
  have C: "is_proposer sample_manager ?C ?v" by (simp add: view_new_def)
  obtain na nx ny mx my cx cy seals where round: "fork_reaches (net(?B := n1, ?D := n4, ?C := n3, ?B := nx, ?D := ny, ?C := na))"
    "nd_blocks na = [finalized_block_new (ps_block p) seals]" "nd_view na = ?v"
    "voted ?B ?v (ps_digest p) n1 nx mx cx" "voted ?D ?v (ps_digest p) n4 ny my cy"
    by (rule fork_round [OF second(1), of ?C ?B ?D ?v p])
      (use C second in \<open>simp_all add: fork_validators_iff view_new_def MAX_ROUND_def\<close>)
  let ?c = "finalized_block_new (ps_block p) seals"
  have digest: "block_digest sample_externals ?c = ps_digest p" using proposal_block_digest [OF p(1)] by simp
  have sent: "switched (block_digest sample_externals b) (block_digest sample_externals ?c) (nd_sent n')"
    if "voted x ?v (ps_digest p) n n' m cm" "gave_up d (nd_sent n)" for x n n' m cm
    using that first(6) digest by (auto simp: voted_def gave_up_def switched_def own_commit_def)
  show "\<exists>net b c. relay_reachable fork_ibft fork_validators (net_start fork_ibft 1 messages_new (handler_new 0)) net \<and>
      nd_blocks (net ?A) = [b] \<and> nd_view (net ?A) = view_new 1 0 \<and> proof_round (final_proof b) = 0 \<and>
      nd_blocks (net ?C) = [c] \<and> nd_view (net ?C) = view_new 1 1 \<and> proof_round (final_proof c) = 1 \<and>
      final_raw_block b \<noteq> final_raw_block c \<and>
      switched (block_digest sample_externals b) (block_digest sample_externals c) (nd_sent (net ?B)) \<and>
      switched (block_digest sample_externals b) (block_digest sample_externals c) (nd_sent (net ?D))"
    using first(2-5) p(2) round(1-3) sent [OF round(4) up(1)] sent [OF round(5) up(2)] unfolding fork_start_def [symmetric]
    by (intro exI [of _ "net(?B := n1, ?D := n4, ?C := n3, ?B := nx, ?D := ny, ?C := na)"] exI [of _ b] exI [of _ ?c])
      (simp add: finalized_block_new_def finalization_proof_new_def)
qed

end
