(* ===== verification/Lost_Certificates.thy ===== *)
theory Lost_Certificates
  imports Node_Properties
begin

text \<open>
  Two orders of events in which a node that has committed to a block sends a round change without
  the prepared certificate of that block, although the round change is the only place where later rounds could
  learn of it. \<open>run_prepare\<close> broadcasts the commit before the run state is set to \<open>Commit\<close>, so a
  timeout in between finds the state \<open>Prepare\<close>; and a jump to a later round leaves the
  \<open>select!\<close> without \<open>handle_timeout\<close>, so the certificate is never taken from the store.
\<close>

lemma plain_timeout:
  assumes "ibft_ok I h" and "node_inv I h n" and "nd_pc n = RunTimeout" and "nd_rounds n = t # ts"
    and "shared_run_state_get (rt_state t) \<in> {Some StProposal, Some StPrepare}" and "nd_latest n = None"
  shows "\<exists>n' rc. node_reachable I n n' \<and> nd_sent n' = nd_sent n @ [RoundChange rc] \<and>
    rcs_view rc = view_new h (view_round (nd_view n) + 1) \<and> rcs_prepared rc = None"
proof -
  have live: "\<not> exited (nd_pc n)" by (simp add: assms(3) exited_def)
  note inv = live_inv [OF assms(2) live]
  obtain rc where rc: "rc_into_signed (ibft_externals I) (rc_new (view_new h (view_round (nd_view n) + 1)) None) (ibft_signer I) = Some rc"
    "rcs_view rc = view_new h (view_round (nd_view n) + 1)" "rcs_prepared rc = None"
    by (rule plain_round_change [OF assms(1) inv(1,2), of None])
  have "handle_timeout I n = n\<lparr>nd_pc := RunBroadcastRc rc\<rparr>"
    using assms(4-6) inv(1) rc(1) by (auto simp: handle_timeout_def Let_def broadcast_rc_def)
  then have "node_reachable I n (n\<lparr>nd_pc := RunBroadcastRc rc\<rparr>)"
    by (intro run_steps [OF node_reachable.init]) (simp add: run_step_def assms(3))
  then have "node_reachable I n (n\<lparr>nd_pc := RunStart (view_round (nd_view n) + 1), nd_sent := nd_sent n @ [RoundChange rc],
      nd_latest := Some rc\<rparr>)"
    by (rule run_steps) (simp add: run_step_def)
  then show ?thesis using rc(2,3) by (intro exI conjI) (assumption, simp_all)
qed

text \<open>C30: A node can commit to a block and then ask for the next round without its prepared certificate:
  if the timeout of its first round change fires after the commit of the round was broadcast and before the run
  state was set to \<open>Commit\<close>, the node broadcasts a round change that claims no prepared certificate,
  and its commit for the digest stands.\<close>

theorem commit_precedes_state:
  assumes "start_ok I h s mh" and "node_reachable I (node_start I h s mh) n" and "nd_pc n = RunTimeout"
    and "nd_rounds n = t # ts" and "rt_pc t = AddCommit c" and "nd_latest n = None"
  shows "\<exists>n' rc. node_reachable I n n' \<and> nd_sent n' = nd_sent n @ [RoundChange rc] \<and>
    rcs_view rc = view_new h (view_round (nd_view n) + 1) \<and> rcs_prepared rc = None \<and>
    precommits (nd_view n) (nd_sent n') = [cm_digest c]"
proof -
  have ok: "ibft_ok I h" using assms(1) by (simp add: start_ok_def)
  have inv: "node_inv I h n" by (rule reachable_inv [OF assms(1,2)])
  have live: "\<not> exited (nd_pc n)" by (simp add: assms(3) exited_def)
  have t: "rt_view t = nd_view n" "round_auth I h t"
    using live_inv(4,7) [OF inv live] assms(3,4) by (auto simp: pc_inv_def current_def rounds_inv_def)
  then have "shared_run_state_get (rt_state t) = Some StPrepare"
    using assms(5) by (simp add: round_auth_def pc_auth_def shared_run_state_get_def run_state_from_u8_def)
  then obtain n' rc where n': "node_reachable I n n'" "nd_sent n' = nd_sent n @ [RoundChange rc]"
    "rcs_view rc = view_new h (view_round (nd_view n) + 1)" "rcs_prepared rc = None"
    using plain_timeout [OF ok inv assms(3,4) _ assms(6)] by auto
  have "precommits (nd_view n) (nd_sent n) = [cm_digest c]"
    using reachable_history [OF assms(1,2)] assms(4,5) t(1) by (auto simp: history_inv_def)
  then show ?thesis using n' by auto
qed

text \<open>The two branches of the \<open>select!\<close> that leave for a later round: a future proposal, a certificate of future round changes.\<close>

definition jumps_to :: "u8 \<Rightarrow> node \<Rightarrow> bool" where
  "jumps_to r n \<longleftrightarrow>
     (case nd_pc n of
        RunSelect k \<Rightarrow>
          (k = 2 \<and> nd_proposal_monitors n \<noteq> [] \<and> mt_pc (hd (nd_proposal_monitors n)) = MonitorDone r) \<or>
          (k = 3 \<and> nd_rcc_monitors n \<noteq> [] \<and> mt_pc (hd (nd_rcc_monitors n)) = MonitorDone r)
      | _ \<Rightarrow> False)"

lemma jumpsD:
  assumes "jumps_to r n" and "node_inv I h n"
  shows "r \<le> MAX_ROUND" and "node_reachable I n (n\<lparr>nd_pc := RunStart r\<rparr>)"
proof -
  obtain k where k: "nd_pc n = RunSelect k" using assms(1) by (auto simp: jumps_to_def split: run_pc.splits)
  then have live: "\<not> exited (nd_pc n)" by (simp add: exited_def)
  consider m ms where "k = 2" "nd_proposal_monitors n = m # ms" "mt_pc m = MonitorDone r"
    | m ms where "k = 3" "nd_rcc_monitors n = m # ms" "mt_pc m = MonitorDone r"
    using assms(1) k by (auto simp: jumps_to_def neq_Nil_conv)
  then have "r \<le> MAX_ROUND \<and> run_step I False n = Some (n\<lparr>nd_pc := RunStart r\<rparr>)"
  proof cases
    case 1
    then show ?thesis
      using live_inv(5) [OF assms(2) live] k by (auto simp: monitors_inv_def monitor_auth_def Let_def run_step_def run_select_def)
  next
    case 2
    then show ?thesis
      using live_inv(6) [OF assms(2) live] k by (auto simp: monitors_inv_def monitor_auth_def Let_def run_step_def run_select_def)
  qed
  then show "r \<le> MAX_ROUND" and "node_reachable I n (n\<lparr>nd_pc := RunStart r\<rparr>)"
    using run_steps [OF node_reachable.init] by blast+
qed

text \<open>C31: A node that jumps to a later round forgets what it has prepared: if a node that has committed to a
  digest in its round, and has sent no round change yet, is taken to a later round by a future proposal or by a certificate
  of round changes, and that round times out, then the round change it broadcasts claims no prepared
  certificate, and its commit stands.\<close>

theorem jump_forgets_certificate:
  assumes "start_ok I h s mh" and "node_reachable I (node_start I h s mh) n"
    and "(nd_pc n = RunSelect 2 \<and> nd_proposal_monitors n = m # ms) \<or> (nd_pc n = RunSelect 3 \<and> nd_rcc_monitors n = m # ms)"
    and "precommits (nd_view n) (nd_sent n) = [d]" and "mt_pc m = MonitorDone r" and "nd_latest n = None"
  shows "\<exists>n' rc. node_reachable I n n' \<and> nd_sent n' = nd_sent n @ [RoundChange rc] \<and>
    rcs_view rc = view_new h (r + 1) \<and> rcs_prepared rc = None \<and> precommits (nd_view n) (nd_sent n') = [d]"
proof -
  have ok: "ibft_ok I h" using assms(1) by (simp add: start_ok_def)
  have inv: "node_inv I h n" by (rule reachable_inv [OF assms(1,2)])
  have "jumps_to r n" using assms(3,5) by (auto simp: jumps_to_def)
  note r = jumpsD(1) [OF this inv] and jump = jumpsD(2) [OF this inv]
  from round_times_out [OF jump _ r] obtain n1 t1 ts1 where n1: "node_reachable I n n1" "nd_pc n1 = RunTimeout"
    "view_round (nd_view n1) = r" "nd_sent n1 = nd_sent n" "nd_latest n1 = None" "nd_rounds n1 = t1 # ts1" "rt_pc t1 = Start"
    using assms(6) by auto
  have inv1: "node_inv I h n1" by (rule reachable_inv [OF assms(1) reachable_trans [OF n1(1) assms(2)]])
  have "\<not> exited (nd_pc n1)" by (simp add: n1(2) exited_def)
  then have "round_auth I h t1" using live_inv(4) [OF inv1] n1(6) by (auto simp: rounds_inv_def)
  then have "shared_run_state_get (rt_state t1) = Some StProposal"
    using n1(7) by (simp add: round_auth_def pc_auth_def shared_run_state_get_def run_state_from_u8_def)
  from plain_timeout [OF ok inv1 n1(2,6) _ n1(5)] this obtain n' rc where "node_reachable I n1 n'" "nd_sent n' = nd_sent n1 @ [RoundChange rc]"
    "rcs_view rc = view_new h (view_round (nd_view n1) + 1)" "rcs_prepared rc = None" by auto
  then show ?thesis using n1(1,3,4) reachable_trans [OF _ n1(1)] assms(4) by (intro exI [of _ n'] exI [of _ rc]) simp
qed

subsection \<open>Witnesses\<close>

text \<open>The proposer of round 0 that needs no prepares has broadcast its commit after five polls.\<close>

lemma proposer_broadcasts_commit:
  assumes "ibft_ok I h" and "store_inv I s" and "view_height v = h" and "view_round v = 0"
    and "is_proposer (ibft_validators I) (self_of I) v" and "proposal_at s v = None" and "quorum_of I v = 1"
  obtains t s' p c where
    "round_polls 5 I (Inr raw) (round_task_new (shared_run_state_new v)) s = Some (t, s', [Proposal p, Commit c])"
    "rt_pc t = AddCommit c" "cm_view c = v" "store_inv I s'" "round_changes_at s' = round_changes_at s"
proof -
  have wf: "store_wf s" by (rule store_invD(1) [OF assms(2)])
  obtain p where p: "round_polls 3 I (Inr raw) (round_task_new (shared_run_state_new v)) s =
      Some (voting_task v (ps_digest p), add_proposal_message p (self_of I) s, [Proposal p])" "own_proposal I v p"
    by (rule proposes_round_0 [OF assms(1,4,5)])
  let ?s3 = "add_proposal_message p (self_of I) s"
  have inv3: "store_inv I ?s3"
    using p(2) assms(4) by (intro store_effect_inv [OF add_proposal_effect [OF assms(2), where W = "{v}"]])
      (auto simp: own_proposal_def proposal_auth_def MAX_ROUND_def)
  have "length (ps_digest p) = 32" using p(2) digest_length_32 assms(1) by (auto simp: own_proposal_def ibft_ok_def)
  then obtain c s' where c: "round_polls 2 I (Inr raw) (voting_task v (ps_digest p)) ?s3 =
      Some (rt_goto (AddCommit c) (voting_task v (ps_digest p)), s', [Commit c])" "own_commit I v c" "store_inv I s'" "same_but v ?s3 s'"
    by (rule prepared_commits [OF assms(1) inv3 voting_task_simps(2) [where v = v]]) (use assms(7) in \<open>simp_all add: usize_pred_def\<close>)
  have "round_changes_at s' = round_changes_at s" using c(4) wf by (simp add: same_but_def store_laws)
  then show thesis
    using that [of _ s' p c] round_polls_add [OF p(1) c(1)] c(2,3) by (simp add: rt_goto_def own_commit_def)
qed

theorem commit_precedes_state_witness:
  "\<exists>n n' rc d. node_reachable (sample_ibft [1] 1) sample_start n \<and> node_reachable (sample_ibft [1] 1) n n' \<and>
     RoundChange rc \<in> set (nd_sent n') \<and> rcs_prepared rc = None \<and> precommits (view_new 1 0) (nd_sent n') = [d]"
proof -
  let ?I = "sample_ibft [1] 1" and ?v = "view_new 1 0"
  have inv: "store_inv ?I (messages_new (Address (replicate 24 1)))"
    using store_inv_new [of ?I] by (simp add: sample_address)
  obtain t s' p c where polls: "round_polls 5 ?I (Inr [1, 2, 3]) (round_task_new (shared_run_state_new ?v))
      (messages_new (Address (replicate 24 1))) = Some (t, s', [Proposal p, Commit c])" "rt_pc t = AddCommit c"
    by (rule proposer_broadcasts_commit [OF sample_ibft_ok [of 1 "[1]" 1] inv, of ?v "[1, 2, 3]"])
      (simp_all add: view_new_def sample_address new_laws)
  obtain n where n: "node_reachable ?I sample_start n" "nd_pc n = RunSelect 0" "nd_view n = ?v" "nd_rounds n = [t]" "nd_latest n = None"
    "nd_proposal_monitors n = [monitor_new FutureProposal ?v]" "nd_rcc_monitors n = [monitor_new FutureRcc ?v]"
    using round_0_polls [OF sample_started refl polls(1)] unfolding sample_start_def by blast
  have r: "node_reachable ?I sample_start (n\<lparr>nd_pc := RunTimeout\<rparr>)"
    using select_passes(2) [OF n(1,2,4) _ n(6) _ n(7)] polls(2) by (simp add: monitor_new_def)
  from commit_precedes_state [OF sample_started r [unfolded sample_start_def], of t "[]" c] obtain n' rc where
    "node_reachable ?I (n\<lparr>nd_pc := RunTimeout\<rparr>) n'" "nd_sent n' = nd_sent n @ [RoundChange rc]" "rcs_prepared rc = None"
    "precommits ?v (nd_sent n') = [cm_digest c]"
    using n(3-5) polls(2) by auto
  then show ?thesis
    using r by (intro exI [of _ "n\<lparr>nd_pc := RunTimeout\<rparr>"] exI [of _ n'] exI [of _ rc] exI [of _ "cm_digest c"]) simp
qed

text \<open>A second validator whose round change for round 1 is in the store; one vote is a quorum.\<close>

definition jump_ibft :: ibft where
  "jump_ibft = (sample_ibft [1] 1)\<lparr>ibft_validators :=
     \<lparr>is_validator = (\<lambda>a h. a \<in> {Address (replicate 24 1), Address (replicate 24 2)}),
      is_proposer = (\<lambda>a v. a = Address (replicate 24 1)), quorum = (\<lambda>h. 1)\<rparr>\<rparr>"

lemma jump_simps [simp]:
  "ibft_externals jump_ibft = sample_externals" "ibft_signer jump_ibft = sample_signer 1"
  "quorum (ibft_validators jump_ibft) h = 1" "is_proposer (ibft_validators jump_ibft) a v \<longleftrightarrow> a = Address (replicate 24 1)"
  "is_validator (ibft_validators jump_ibft) a h \<longleftrightarrow> a \<in> {Address (replicate 24 1), Address (replicate 24 2)}"
  by (simp_all add: jump_ibft_def)

lemma jump_ok: "ibft_ok jump_ibft h"
  by (auto simp: ibft_ok_def sample_address sample_externals_ok sample_signer_wf)

lemma jump_store:
  obtains rc s where "start_ok jump_ibft 1 s (handler_new 0 (Address (replicate 24 1)))"
    "round_changes_at s (view_new 1 1) = [(Address (replicate 24 2), (rc, False))]" "rcs_prepared rc = None"
    "\<forall>r. r \<noteq> 1 \<longrightarrow> round_changes_at s (view_new 1 r) = []"
proof -
  let ?s = "messages_new (Address (replicate 24 1))" and ?a = "Address (replicate 24 2)"
  have new: "store_inv jump_ibft ?s" using store_inv_new [of jump_ibft] by (simp add: sample_address)
  obtain rc where rc: "rc_message rc = rc_new (view_new 1 1) None" "rc_recover_signer sample_externals rc = Inr ?a"
    by (rule rc_into_signed_recovers [OF sample_externals_ok sample_signer_wf [of 2], of "rc_new (view_new 1 1) None"])
      (simp add: sample_address)
  let ?s1 = "add_round_change_message rc ?a ?s"
  have eff: "store_effect jump_ibft {} ?s ?s1"
    by (rule add_round_change_effect [OF new])
      (use rc in \<open>simp add: round_change_auth_def rc_new_def view_new_def MAX_ROUND_def\<close>)
  have "proposal_tx ?s1 = []"
    by (simp add: add_round_change_message_def messages_new_def Let_def split: prod.split option.split)
  then have "start_ok jump_ibft 1 ?s1 (handler_new 0 (Address (replicate 24 1)))"
    using store_effect_inv [OF eff] jump_ok by (simp add: start_ok_def handler_new_def sample_address store_laws messages_new_wf new_laws)
  moreover have "round_changes_at ?s1 (view_new 1 r) = (if r = 1 then [(?a, (rc, False))] else [])" for r
    using rc(1) by (simp add: store_laws messages_new_wf new_laws rc_new_def view_new_def)
  ultimately show thesis using that [of ?s1 rc] rc(1) by (simp add: rc_new_def)
qed

text \<open>Two polls of the monitor find the round change.\<close>

lemma jump_monitor:
  assumes "store_inv jump_ibft s" and "round_changes_at s (view_new 1 1) = [(a, (rc, False))]" and "rcs_prepared rc = None"
    and "\<forall>r. r \<noteq> 1 \<longrightarrow> round_changes_at s (view_new 1 r) = []"
  obtains m1 s1 m2 s2 where
    "monitor_step jump_ibft (Poll b) (monitor_new FutureRcc (view_new 1 0)) s = Some (m1, s1)" "mt_kind m1 = FutureRcc"
    "monitor_step jump_ibft (Poll b) m1 s1 = Some (m2, s2)" "mt_pc m2 = MonitorDone 1"
proof -
  note inv = store_invD [OF assms(1)]
  have "\<forall>v \<in> rc_views s. view_round v \<le> MAX_ROUND" using inv(4) by blast
  then obtain ns where ns: "fst (round_change_count_by_round 1 s) = Some ns" "length ns = ROUND_ARRAY_SIZE"
    "\<And>r. r \<le> MAX_ROUND \<Longrightarrow> ns ! unat r = length (round_changes_at s (view_new 1 r))"
    by (rule round_change_count_by_round_spec [OF inv(1)]) blast
  obtain s1 where s1: "round_change_count_by_round 1 s = (Some ns, s1)" using ns(1) by (metis prod.collapse)
  then have "s1 = snd (round_change_count_by_round 1 s)" by simp
  then have wf1: "store_wf s1" and rcs1: "round_changes_at s1 = round_changes_at s"
    by (simp_all add: wf_intros inv(1) store_laws)
  have "filter (\<lambda>r. 1 \<le> ns ! unat r) (rounds_above 0 ROUND_ARRAY_SIZE) = filter (\<lambda>r. r = 1) (rounds_above 0 ROUND_ARRAY_SIZE)"
  proof (rule filter_cong [OF refl])
    fix r assume "r \<in> set (rounds_above 0 ROUND_ARRAY_SIZE)"
    then have "r \<le> MAX_ROUND" using rounds_above_mem by blast
    then show "1 \<le> ns ! unat r \<longleftrightarrow> r = 1" using ns(3) [of r] assms(2,4) by (cases "r = 1") auto
  qed
  also have "\<dots> = [1]" by code_simp
  finally have scan: "filter (\<lambda>r. 1 \<le> ns ! unat r) (rounds_above 0 ROUND_ARRAY_SIZE) = [1]" .
  let ?m1 = "(monitor_new FutureRcc (view_new 1 0))\<lparr>mt_pc := MonitorScan [1] ns\<rparr>"
  have first: "monitor_step jump_ibft (Poll b) (monitor_new FutureRcc (view_new 1 0)) s = Some (?m1, s1)"
    using s1 scan ns(2) by (simp add: monitor_new_def rcc_monitor_poll_def Let_def view_new_def del: round_array_size)
  obtain k s2 where k: "get_valid_round_change_count (view_new 1 1)
      (round_change_verify_fn sample_externals (ibft_validators jump_ibft) 1) s1 = (k, s2)" by fastforce
  then have "k = 1"
    using store_laws(1) wf1 rcs1 assms(2,3) get_valid_round_change_count_laws(1) [OF wf1, of "view_new 1 1"]
    by (metis (no_types, lifting) One_nat_def fst_conv length_Cons list.size(3) retain_round_changes.simps option.case(1) round_change_verify_fn_def)
  then have "monitor_step jump_ibft (Poll b) ?m1 s1 = Some (?m1\<lparr>mt_pc := MonitorDone 1\<rparr>, s2)"
    using k by (simp add: monitor_new_def rcc_monitor_poll_def Let_def view_new_def)
  then show thesis using that [OF first] by (simp add: monitor_new_def)
qed

theorem jump_forgets_certificate_witness:
  "\<exists>s mh n n' rc d. start_ok jump_ibft 1 s mh \<and> node_reachable jump_ibft (node_start jump_ibft 1 s mh) n \<and>
     node_reachable jump_ibft n n' \<and> RoundChange rc \<in> set (nd_sent n') \<and> rcs_view rc = view_new 1 2 \<and> rcs_prepared rc = None \<and>
     precommits (view_new 1 0) (nd_sent n') = [d]"
proof -
  let ?I = jump_ibft and ?v = "view_new 1 0" and ?mh = "handler_new 0 (Address (replicate 24 1))"
  obtain rc s where start: "start_ok ?I 1 s ?mh" and rcs: "round_changes_at s (view_new 1 1) = [(Address (replicate 24 2), (rc, False))]"
    "rcs_prepared rc = None" "\<forall>r. r \<noteq> 1 \<longrightarrow> round_changes_at s (view_new 1 r) = []" by (rule jump_store)
  let ?n0 = "node_start ?I 1 s ?mh"
  obtain t s' p c where polls: "round_polls 5 ?I (Inr [1, 2, 3]) (round_task_new (shared_run_state_new ?v)) s =
      Some (t, s', [Proposal p, Commit c])" "rt_pc t = AddCommit c" "cm_view c = ?v" "store_inv ?I s'" "round_changes_at s' = round_changes_at s"
    by (rule proposer_broadcasts_commit [OF jump_ok [of 1], of s ?v "[1, 2, 3]"])
      (use start in \<open>simp_all add: start_ok_def view_new_def sample_address\<close>)
  obtain n where n: "node_reachable ?I ?n0 n" "nd_pc n = RunSelect 0" "nd_view n = ?v" "nd_store n = s'" "nd_sent n = [Proposal p, Commit c]"
    "nd_rounds n = [t]" "nd_latest n = None"
    "nd_proposal_monitors n = [monitor_new FutureProposal ?v]" "nd_rcc_monitors n = [monitor_new FutureRcc ?v]"
    using round_0_polls [OF start refl polls(1)] by blast
  have r3: "node_reachable ?I ?n0 (n\<lparr>nd_pc := RunSelect 3\<rparr>)"
    using select_passes(1) [OF n(1,2,6) _ n(8)] polls(2) by (simp add: monitor_new_def)
  obtain m1 s1 m2 s2 where m: "monitor_step ?I (Poll (Inr [])) (monitor_new FutureRcc ?v) s' = Some (m1, s1)"
    "monitor_step ?I (Poll (Inr [])) m1 s1 = Some (m2, s2)" "mt_pc m2 = MonitorDone 1"
    using jump_monitor [OF polls(4), of "Address (replicate 24 2)" rc "Inr []"] rcs polls(5) by metis
  let ?n4 = "n\<lparr>nd_pc := RunSelect 3, nd_store := s1, nd_rcc_monitors := [m1]\<rparr>"
  let ?n5 = "n\<lparr>nd_pc := RunSelect 3, nd_store := s2, nd_rcc_monitors := [m2]\<rparr>"
  have "node_step ?I (n\<lparr>nd_pc := RunSelect 3\<rparr>) ?n4"
    using node_step_internal(3) [of 0 "n\<lparr>nd_pc := RunSelect 3\<rparr>" "Poll (Inr [])" ?I m1 s1] n(4,9) m(1) by (simp add: event_from_def)
  moreover have "node_step ?I ?n4 ?n5"
    using node_step_internal(3) [of 0 ?n4 "Poll (Inr [])" ?I m2 s2] m(2) by (simp add: event_from_def)
  ultimately have r5: "node_reachable ?I ?n0 ?n5" using r3 node_reachable.step by blast
  have "precommits (nd_view ?n5) (nd_sent ?n5) = [cm_digest c]" using n(3,5) polls(3) by simp
  from jump_forgets_certificate [OF start r5 _ this, of m2 "[]" 1] obtain n' rc' where
    "node_reachable ?I ?n5 n'" "nd_sent n' = nd_sent n @ [RoundChange rc']" "rcs_view rc' = view_new 1 2" "rcs_prepared rc' = None"
    "precommits ?v (nd_sent n') = [cm_digest c]"
    using n(3,7) m(3) by auto
  then show ?thesis
    using start r5 by (intro exI [of _ s] exI [of _ ?mh] exI [of _ ?n5] exI [of _ n'] exI [of _ rc'] exI [of _ "cm_digest c"]) simp
qed

end
