(* ===== verification/P2p_Service.thy ===== *)
theory P2p_Service
  imports P2p
begin

text \<open>
  Setting up the network service: \<open>P2PService::new\<close> and \<open>listen\<close>, the three behaviours it combines
  (\<open>behaviour.rs\<close>, \<open>gossipsub/mod.rs\<close>, \<open>kademlia.rs\<close>, \<open>identify.rs\<close>) and the key conversion of \<open>config.rs\<close>.
  The constructors of \<open>libp2p\<close> are a parameter, the record \<open>libp2p\<close>; a peer id is a string.
  \<open>None\<close> is a failed \<open>expect\<close>.
\<close>

subsection \<open>What is outside\<close>

text \<open>The settings the code gives to the gossipsub builder: heartbeat in seconds, strict validation, message id.\<close>

record gossipsub_settings =
  gs_heartbeat :: nat
  gs_strict :: bool
  gs_message_id :: "bytes \<Rightarrow> bytes"

record ('gossip, 'kad, 'ident) tonic_behaviour =
  tb_gossipsub :: 'gossip
  tb_kademlia :: 'kad
  tb_identify :: 'ident

record ('key, 'gossip, 'kad, 'ident, 'sw, 'secret) libp2p =
  lp_peer_id :: "'key \<Rightarrow> string"
  lp_secret_key :: "bytes \<Rightarrow> 'secret anyhow"
  lp_keypair :: "'secret \<Rightarrow> 'key"
  lp_settings_ok :: "gossipsub_settings \<Rightarrow> bool"
  lp_gossipsub :: "'key \<Rightarrow> gossipsub_settings \<Rightarrow> 'gossip anyhow"
  lp_subscribe :: "string \<Rightarrow> 'gossip \<Rightarrow> 'gossip anyhow"
  lp_protocol_ok :: "string \<Rightarrow> bool"
  lp_kademlia :: "string \<Rightarrow> string \<Rightarrow> 'kad"
  lp_kad_server :: "'kad \<Rightarrow> 'kad"
  lp_kad_add :: "string \<Rightarrow> string multiaddr \<Rightarrow> 'kad \<Rightarrow> 'kad"
  lp_kad_bootstrap :: "'kad \<Rightarrow> unit anyhow \<times> 'kad"
  lp_identify :: "string \<Rightarrow> 'key \<Rightarrow> 'ident"
  lp_swarm :: "'key \<Rightarrow> ('gossip, 'kad, 'ident) tonic_behaviour \<Rightarrow> nat option \<Rightarrow> 'sw anyhow"
  lp_parse_addr :: "string \<Rightarrow> string multiaddr anyhow"
  lp_listen_on :: "string multiaddr \<Rightarrow> 'sw \<Rightarrow> 'sw anyhow"

subsection \<open>Keys and behaviours\<close>

definition convert_to_libp2p_keypair ::
    "('key, 'gossip, 'kad, 'ident, 'sw, 'secret) libp2p \<Rightarrow> bytes \<Rightarrow> 'key anyhow" where
  "convert_to_libp2p_keypair L bs =
     (case lp_secret_key L bs of Inl e \<Rightarrow> Inl e | Inr sk \<Rightarrow> Inr (lp_keypair L sk))"

definition default_gossipsub_config ::
    "externals \<Rightarrow> ('key, 'gossip, 'kad, 'ident, 'sw, 'secret) libp2p \<Rightarrow> gossipsub_settings option" where
  "default_gossipsub_config E L =
     (let settings = \<lparr>gs_heartbeat = 10, gs_strict = True, gs_message_id = sha256_digest E\<rparr>
      in if lp_settings_ok L settings then Some settings else None)"

fun subscribe_all ::
    "('key, 'gossip, 'kad, 'ident, 'sw, 'secret) libp2p \<Rightarrow> string list \<Rightarrow> 'gossip \<Rightarrow> 'gossip option" where
  "subscribe_all L [] g = Some g"
| "subscribe_all L (t # ts) g = (case lp_subscribe L t g of Inl e \<Rightarrow> None | Inr g' \<Rightarrow> subscribe_all L ts g')"

definition build_gossipsub_behaviour ::
    "externals \<Rightarrow> ('key, 'gossip, 'kad, 'ident, 'sw, 'secret) libp2p \<Rightarrow> ('key, string) p2p_config \<Rightarrow> 'gossip option" where
  "build_gossipsub_behaviour E L c =
     (case default_gossipsub_config E L of
        None \<Rightarrow> None
      | Some settings \<Rightarrow>
          (case lp_gossipsub L (pc_keypair c) settings of
             Inl e \<Rightarrow> None
           | Inr g \<Rightarrow> subscribe_all L (subscribed_topics c) g))"

definition default_kademlia_config ::
    "('key, 'gossip, 'kad, 'ident, 'sw, 'secret) libp2p \<Rightarrow> string \<Rightarrow> string option" where
  "default_kademlia_config L network_name =
     (let protocol_name = kademlia_protocol_name network_name
      in if lp_protocol_ok L protocol_name then Some protocol_name else None)"

text \<open>A failed bootstrap is only logged.\<close>

definition build_kademlia_behaviour ::
    "('key, 'gossip, 'kad, 'ident, 'sw, 'secret) libp2p \<Rightarrow> ('key, string) p2p_config \<Rightarrow> 'kad option" where
  "build_kademlia_behaviour L c =
     (case default_kademlia_config L (pc_network_name c) of
        None \<Rightarrow> None
      | Some protocol_name \<Rightarrow>
          let k = lp_kad_server L (lp_kademlia L (lp_peer_id L (pc_keypair c)) protocol_name);
              k' = fold (\<lambda>(peer_id, addr). lp_kad_add L peer_id addr) (bootstrap_addresses (pc_bootstrap_nodes c)) k
          in Some (snd (lp_kad_bootstrap L k')))"

definition default_identify_config :: "'key \<Rightarrow> string \<times> 'key" where
  "default_identify_config key = (''/tonic/1.0'', key)"

definition build_identify_behaviour ::
    "('key, 'gossip, 'kad, 'ident, 'sw, 'secret) libp2p \<Rightarrow> ('key, string) p2p_config \<Rightarrow> 'ident" where
  "build_identify_behaviour L c = (case default_identify_config (pc_keypair c) of (protocol, key) \<Rightarrow> lp_identify L protocol key)"

definition tonic_behaviour_new ::
    "externals \<Rightarrow> ('key, 'gossip, 'kad, 'ident, 'sw, 'secret) libp2p \<Rightarrow> ('key, string) p2p_config \<Rightarrow>
     ('gossip, 'kad, 'ident) tonic_behaviour option" where
  "tonic_behaviour_new E L c =
     (case build_gossipsub_behaviour E L c of
        None \<Rightarrow> None
      | Some g \<Rightarrow>
          (case build_kademlia_behaviour L c of
             None \<Rightarrow> None
           | Some k \<Rightarrow> Some \<lparr>tb_gossipsub = g, tb_kademlia = k, tb_identify = build_identify_behaviour L c\<rparr>))"

subsection \<open>The service\<close>

text \<open>The request receiver and the relayer are the channels and the proxy of \<open>P2p\<close>.\<close>

record 'sw p2p_service =
  sv_local_peer_id :: string
  sv_address :: "string multiaddr option"
  sv_swarm :: 'sw
  sv_tcp_port :: "16 word"

definition service_new ::
    "externals \<Rightarrow> ('key, 'gossip, 'kad, 'ident, 'sw, 'secret) libp2p \<Rightarrow> ('key, string) p2p_config \<Rightarrow> 'sw p2p_service option" where
  "service_new E L c =
     (case tonic_behaviour_new E L c of
        None \<Rightarrow> None
      | Some b \<Rightarrow>
          (case lp_swarm L (pc_keypair c) b (pc_connection_idle_timeout c) of
             Inl e \<Rightarrow> None
           | Inr swarm \<Rightarrow>
               Some \<lparr>sv_local_peer_id = lp_peer_id L (pc_keypair c), sv_address = None, sv_swarm = swarm,
                     sv_tcp_port = pc_tcp_port c\<rparr>))"

fun show_nat :: "nat \<Rightarrow> string" where
  "show_nat n = (if n < 10 then [char_of (48 + n)] else show_nat (n div 10) @ [char_of (48 + n mod 10)])"

declare show_nat.simps [simp del]

definition listen_address :: "16 word \<Rightarrow> string" where
  "listen_address port = ''/ip4/0.0.0.0/tcp/'' @ show_nat (unat port)"

text \<open>
  The loop of \<open>await_listen_address\<close> over the events the swarm yields before the timeout of five seconds:
  the first new address, or \<open>None\<close> when the events end without one and the timeout fires.
\<close>

fun await_listen_address :: "swarm_event list \<Rightarrow> string multiaddr option" where
  "await_listen_address [] = None"
| "await_listen_address (NewListenAddr a # evs) = Some a"
| "await_listen_address (ev # evs) = await_listen_address evs"

definition service_listen ::
    "('key, 'gossip, 'kad, 'ident, 'sw, 'secret) libp2p \<Rightarrow> swarm_event list \<Rightarrow> 'sw p2p_service \<Rightarrow> 'sw p2p_service option" where
  "service_listen L evs sv =
     (case lp_parse_addr L (listen_address (sv_tcp_port sv)) of
        Inl e \<Rightarrow> None
      | Inr addr \<Rightarrow>
          (case lp_listen_on L addr (sv_swarm sv) of
             Inl e \<Rightarrow> None
           | Inr swarm \<Rightarrow>
               (case await_listen_address evs of
                  None \<Rightarrow> None
                | Some new_addr \<Rightarrow> Some (sv\<lparr>sv_swarm := swarm, sv_address := Some new_addr\<rparr>))))"

subsection \<open>What the set-up gives\<close>

text \<open>
  Whatever \<open>libp2p\<close> does: the bootstrap nodes that are tried are those whose address ends in a peer id, in order; a new service
  has the swarm of its behaviours and no address; and \<open>listen\<close> sets the first
  address that the swarm announces.
\<close>

lemma bootstrap_addresses_eq:
  "bootstrap_addresses addrs = List.map_filter (\<lambda>addr. map_option (\<lambda>peer_id. (peer_id, addr)) (try_to_peer_id addr)) addrs"
  by (induction addrs) (auto simp: map_filter_simps split: option.split)

lemma subscribed_distinct: "distinct (subscribed_topics c)"
  by (simp add: subscribed_topics_def topic_name_def BLOCK_TOPIC_def CONSENSUS_TOPIC_def)

lemma service_new_Some:
  assumes "service_new E L c = Some sv"
  obtains g k where "build_gossipsub_behaviour E L c = Some g" "build_kademlia_behaviour L c = Some k"
    "lp_swarm L (pc_keypair c) \<lparr>tb_gossipsub = g, tb_kademlia = k, tb_identify = build_identify_behaviour L c\<rparr>
       (pc_connection_idle_timeout c) = Inr (sv_swarm sv)"
    "sv_address sv = None" "sv_local_peer_id sv = lp_peer_id L (pc_keypair c)"
  using assms by (auto simp: service_new_def tonic_behaviour_new_def split: option.splits sum.splits)

lemma await_listen_address_Some:
  assumes "await_listen_address evs = Some a"
  shows "\<exists>pre post. evs = pre @ NewListenAddr a # post \<and> (\<forall>b. NewListenAddr b \<notin> set pre)"
  using assms
proof (induction evs)
  case (Cons ev evs)
  show ?case
  proof (cases "\<exists>b. ev = NewListenAddr b")
    case True
    then show ?thesis using Cons.prems by (intro exI [of _ "[]"] exI [of _ evs]) auto
  next
    case False
    then have "await_listen_address evs = Some a" using Cons.prems by (cases ev) auto
    then obtain pre post where "evs = pre @ NewListenAddr a # post" "\<forall>b. NewListenAddr b \<notin> set pre"
      using Cons.IH by blast
    then show ?thesis using False by (intro exI [of _ "ev # pre"] exI [of _ post]) auto
  qed
qed simp

lemma service_listen_address:
  assumes "service_listen L evs sv = Some sv'"
  obtains pre a post where "evs = pre @ NewListenAddr a # post" "\<forall>b. NewListenAddr b \<notin> set pre" "sv_address sv' = Some a"
    "sv_local_peer_id sv' = sv_local_peer_id sv"
proof -
  obtain a where "await_listen_address evs = Some a" "sv_address sv' = Some a" "sv_local_peer_id sv' = sv_local_peer_id sv"
    using assms by (auto simp: service_listen_def split: sum.splits option.splits)
  then show thesis using that await_listen_address_Some by blast
qed

end
