(* ===== verification/Database.thy ===== *)
theory Database
  imports Collections
begin

text \<open>
  The key-value database (\<open>crates/database\<close>): schemas and codec, the traits of \<open>kv_store.rs\<close>, and
  \<open>RocksDB\<close>, the typed wrapper of \<open>rocksdb.rs\<close> around the crate \<open>rocksdb\<close>. The crate is a
  parameter, the record \<open>rocks\<close>; what the wrapper relies on is the predicate \<open>rocks_ok\<close>. A result is \<open>None\<close>
  where the code panics and an error value otherwise. Handles share one database through an \<open>Arc\<close>,
  so its state is passed explicitly and a handle holds only its snapshot.
\<close>

type_synonym 'a db_result = "(string + 'a) option"
type_synonym schema_name = string

subsection \<open>Schemas and codec\<close>

record schema_metadata =
  meta_name :: schema_name
  meta_prefix_size :: nat

text \<open>
  A schema with the Borsh codec of its key and value types, both derived by the crate \<open>borsh\<close>;
  \<open>deserialize\<close> panics on bytes that are not an encoding.
\<close>

record ('k, 'v) schema =
  schema_meta :: schema_metadata
  key_to_vec :: "'k \<Rightarrow> bytes"
  key_from_slice :: "bytes \<Rightarrow> 'k option"
  value_to_vec :: "'v \<Rightarrow> bytes"
  value_from_slice :: "bytes \<Rightarrow> 'v option"

abbreviation sname :: "('k, 'v) schema \<Rightarrow> schema_name" where
  "sname S \<equiv> meta_name (schema_meta S)"

definition define_schema ::
    "schema_name \<Rightarrow> ('k \<Rightarrow> bytes) \<Rightarrow> (bytes \<Rightarrow> 'k option) \<Rightarrow> ('v \<Rightarrow> bytes) \<Rightarrow> (bytes \<Rightarrow> 'v option) \<Rightarrow> ('k, 'v) schema" where
  "define_schema nm ks kd vs vd =
     \<lparr>schema_meta = \<lparr>meta_name = nm, meta_prefix_size = 0\<rparr>, key_to_vec = ks, key_from_slice = kd,
      value_to_vec = vs, value_from_slice = vd\<rparr>"

definition define_prefix_schema ::
    "schema_name \<Rightarrow> nat \<Rightarrow> ('k \<Rightarrow> bytes) \<Rightarrow> (bytes \<Rightarrow> 'k option) \<Rightarrow> ('v \<Rightarrow> bytes) \<Rightarrow> (bytes \<Rightarrow> 'v option) \<Rightarrow>
     ('k, 'v) schema" where
  "define_prefix_schema nm size_of_prefix ks kd vs vd =
     \<lparr>schema_meta = \<lparr>meta_name = nm, meta_prefix_size = size_of_prefix\<rparr>, key_to_vec = ks, key_from_slice = kd,
      value_to_vec = vs, value_from_slice = vd\<rparr>"

text \<open>Borsh decodes what it has encoded.\<close>

definition schema_ok :: "('k, 'v) schema \<Rightarrow> bool" where
  "schema_ok S \<longleftrightarrow>
     (\<forall>k. key_from_slice S (key_to_vec S k) = Some k) \<and> (\<forall>v. value_from_slice S (value_to_vec S v) = Some v)"

lemma key_to_vec_inj: "schema_ok S \<Longrightarrow> key_to_vec S k = key_to_vec S k' \<longleftrightarrow> k = k'"
  unfolding schema_ok_def by (metis option.inject)

subsection \<open>Writes\<close>

datatype write_operation = Put bytes | Delete

type_synonym changes = "(schema_name, (bytes, write_operation) btree_map) hash_map"

datatype batch_op = BatchPut schema_name bytes bytes | BatchDelete schema_name bytes

subsection \<open>The crate rocksdb\<close>

datatype direction = Forward | Reverse
datatype rocks_mode = RocksStart | RocksEnd | RocksFrom bytes direction

text \<open>The options \<open>open\<close> sets on the database, on its tables, and on each column family.\<close>

record db_options =
  create_if_missing :: bool
  create_missing_column_families :: bool
  compression_lz4 :: bool
  parallelism :: nat
  max_background_jobs :: nat
  opt_max_open_files :: int
  opt_max_total_wal_size :: u64
  bytes_per_sync :: nat
  row_cache_size :: u64

record block_options =
  block_size :: nat
  bloom_bits_per_key :: nat
  cache_index_and_filter_blocks :: bool
  pin_l0_filter_and_index_blocks_in_cache :: bool
  optimize_filters_for_memory :: bool
  block_cache_size :: u64

record cf_descriptor =
  cf_name :: schema_name
  cf_compression_lz4 :: bool
  cf_block_options :: block_options
  cf_fixed_prefix :: "nat option"

record ('db, 'snap) rocks =
  rdb_open :: "db_options \<Rightarrow> string \<Rightarrow> cf_descriptor list \<Rightarrow> string + 'db"
  rdb_cf_handle :: "'db \<Rightarrow> schema_name \<Rightarrow> bool"
  rdb_fixed_prefix :: "'db \<Rightarrow> schema_name \<Rightarrow> nat option"
  rdb_get_pinned :: "'db \<Rightarrow> 'snap option \<Rightarrow> schema_name \<Rightarrow> bytes \<Rightarrow> string + bytes option"
  rdb_batched_multi_get :: "'db \<Rightarrow> 'snap option \<Rightarrow> schema_name \<Rightarrow> bytes list \<Rightarrow> (string + bytes option) list"
  rdb_iterator :: "'db \<Rightarrow> 'snap option \<Rightarrow> schema_name \<Rightarrow> rocks_mode \<Rightarrow> (string + bytes \<times> bytes) list"
  rdb_put :: "'db \<Rightarrow> schema_name \<Rightarrow> bytes \<Rightarrow> bytes \<Rightarrow> (string + unit) \<times> 'db"
  rdb_delete :: "'db \<Rightarrow> schema_name \<Rightarrow> bytes \<Rightarrow> (string + unit) \<times> 'db"
  rdb_write :: "'db \<Rightarrow> batch_op list \<Rightarrow> (string + unit) \<times> 'db"
  rdb_snapshot :: "'db \<Rightarrow> 'snap"

text \<open>The content of a database: for every column family a map from keys to values.\<close>

type_synonym content = "schema_name \<Rightarrow> bytes \<rightharpoonup> bytes"

fun apply_batch_op :: "batch_op \<Rightarrow> content \<Rightarrow> content" where
  "apply_batch_op (BatchPut cf k v) w = w(cf := (w cf)(k \<mapsto> v))"
| "apply_batch_op (BatchDelete cf k) w = w(cf := (w cf)(k := None))"

definition apply_batch :: "batch_op list \<Rightarrow> content \<Rightarrow> content" where
  "apply_batch ops w = fold apply_batch_op ops w"

text \<open>The entries an iterator yields, given the entries of the column family in ascending order.\<close>

fun iterated :: "rocks_mode \<Rightarrow> (bytes \<times> bytes) list \<Rightarrow> (bytes \<times> bytes) list" where
  "iterated RocksStart xs = xs"
| "iterated RocksEnd xs = rev xs"
| "iterated (RocksFrom k Forward) xs = filter (\<lambda>p. k \<le> fst p) xs"
| "iterated (RocksFrom k Reverse) xs = rev (filter (\<lambda>p. fst p \<le> k) xs)"

text \<open>What a read sees: the content, or that of the snapshot it is given.\<close>

definition seen :: "('db \<Rightarrow> content) \<Rightarrow> ('snap \<Rightarrow> content) \<Rightarrow> 'db \<Rightarrow> 'snap option \<Rightarrow> content" where
  "seen view sview db so = (case so of None \<Rightarrow> view db | Some sn \<Rightarrow> sview sn)"

text \<open>
  The documented behaviour of the crate. A read that succeeds returns what is stored; a write that
  succeeds changes exactly its keys, a batch as a whole and in order, and a write that fails
  changes nothing; a snapshot keeps the content of the moment it is taken; the entries of a
  column family without a prefix extractor are iterated in the byte order of their keys (with one,
  the order past the prefix is not specified). A sorted multi-get answers key by key.
\<close>

definition rocks_reads_ok :: "('db, 'snap) rocks \<Rightarrow> ('db \<Rightarrow> content) \<Rightarrow> ('snap \<Rightarrow> content) \<Rightarrow> bool" where
  "rocks_reads_ok R view sview \<longleftrightarrow>
     (\<forall>db so cf k r. rdb_get_pinned R db so cf k = Inr r \<longrightarrow> r = seen view sview db so cf k) \<and>
     (\<forall>db so cf ks. sorted ks \<longrightarrow>
        list_all2 (\<lambda>k res. \<forall>r. res = Inr r \<longrightarrow> r = seen view sview db so cf k) ks (rdb_batched_multi_get R db so cf ks)) \<and>
     (\<forall>db so cf mode items. rdb_fixed_prefix R db cf = None \<longrightarrow> rdb_iterator R db so cf mode = map Inr items \<longrightarrow>
        (\<exists>xs. bt_wf xs \<and> map_of xs = seen view sview db so cf \<and> items = iterated mode xs)) \<and>
     (\<forall>db. sview (rdb_snapshot R db) = view db)"

definition wrote :: "('db \<Rightarrow> content) \<Rightarrow> content \<Rightarrow> 'db \<Rightarrow> (string + unit) \<times> 'db \<Rightarrow> bool" where
  "wrote view w db res \<longleftrightarrow> view (snd res) = (case fst res of Inl _ \<Rightarrow> view db | Inr _ \<Rightarrow> w)"

definition rocks_writes_ok :: "('db, 'snap) rocks \<Rightarrow> ('db \<Rightarrow> content) \<Rightarrow> bool" where
  "rocks_writes_ok R view \<longleftrightarrow>
     (\<forall>db cf k v. wrote view (apply_batch_op (BatchPut cf k v) (view db)) db (rdb_put R db cf k v) \<and>
        rdb_cf_handle R (snd (rdb_put R db cf k v)) = rdb_cf_handle R db) \<and>
     (\<forall>db cf k. wrote view (apply_batch_op (BatchDelete cf k) (view db)) db (rdb_delete R db cf k) \<and>
        rdb_cf_handle R (snd (rdb_delete R db cf k)) = rdb_cf_handle R db) \<and>
     (\<forall>db ops. wrote view (apply_batch ops (view db)) db (rdb_write R db ops) \<and>
        rdb_cf_handle R (snd (rdb_write R db ops)) = rdb_cf_handle R db)"

text \<open>
  Opening with \<open>create_missing_column_families\<close> gives a handle for every descriptor, and a prefix
  extractor only where a descriptor asks for one.
\<close>

definition rocks_open_ok :: "('db, 'snap) rocks \<Rightarrow> bool" where
  "rocks_open_ok R \<longleftrightarrow>
     (\<forall>opts path cfs db. create_missing_column_families opts \<longrightarrow> rdb_open R opts path cfs = Inr db \<longrightarrow>
        (\<forall>cf \<in> set cfs. rdb_cf_handle R db (cf_name cf)) \<and>
        (\<forall>nm. (\<forall>cf \<in> set cfs. cf_name cf = nm \<longrightarrow> cf_fixed_prefix cf = None) \<longrightarrow> rdb_fixed_prefix R db nm = None))"

definition rocks_ok :: "('db, 'snap) rocks \<Rightarrow> ('db \<Rightarrow> content) \<Rightarrow> ('snap \<Rightarrow> content) \<Rightarrow> bool" where
  "rocks_ok R view sview \<longleftrightarrow> rocks_reads_ok R view sview \<and> rocks_writes_ok R view \<and> rocks_open_ok R"

lemma iterator_entries:
  assumes "rocks_ok R view sview" and "rdb_fixed_prefix R db cf = None" and "rdb_iterator R db so cf mode = map Inr items"
  shows "\<exists>xs. bt_wf xs \<and> map_of xs = seen view sview db so cf \<and> items = iterated mode xs"
  using assms by (simp add: rocks_ok_def rocks_reads_ok_def)

subsection \<open>Opening a database\<close>

record config =
  max_open_files :: int
  max_total_wal_size :: u64
  max_cache_size :: u64

definition config_default :: config where
  "config_default = \<lparr>max_open_files = 512, max_total_wal_size = 256 * 1024 * 1024, max_cache_size = 128 * 1024 * 1024\<rparr>"

definition open_options :: "config \<Rightarrow> db_options" where
  "open_options c =
     \<lparr>create_if_missing = True, create_missing_column_families = True, compression_lz4 = True, parallelism = 2,
      max_background_jobs = 4, opt_max_open_files = max_open_files c, opt_max_total_wal_size = max_total_wal_size c,
      bytes_per_sync = 1024 * 1024, row_cache_size = max_cache_size c\<rparr>"

definition open_block_options :: "config \<Rightarrow> block_options" where
  "open_block_options c =
     \<lparr>block_size = 16 * 1024, bloom_bits_per_key = 10, cache_index_and_filter_blocks = True,
      pin_l0_filter_and_index_blocks_in_cache = True, optimize_filters_for_memory = True,
      block_cache_size = max_cache_size c\<rparr>"

definition open_cf :: "config \<Rightarrow> schema_metadata \<Rightarrow> cf_descriptor" where
  "open_cf c meta =
     \<lparr>cf_name = meta_name meta, cf_compression_lz4 = True, cf_block_options = open_block_options c,
      cf_fixed_prefix = (if meta_prefix_size meta > 0 then Some (meta_prefix_size meta) else None)\<rparr>"

text \<open>\<open>RocksDB<Access>\<close>: a full-access handle has no snapshot, a view-only handle has one.\<close>

record 'snap rocks_handle =
  rh_snapshot :: "'snap option"

definition full_access :: "'snap rocks_handle" where
  "full_access = \<lparr>rh_snapshot = None\<rparr>"

definition rocks_open ::
    "('db, 'snap) rocks \<Rightarrow> string \<Rightarrow> config \<Rightarrow> schema_metadata list \<Rightarrow> ('snap rocks_handle \<times> 'db) option" where
  "rocks_open R path c schemas =
     (case rdb_open R (open_options c) path (map (open_cf c) schemas) of
        Inl e \<Rightarrow> None
      | Inr db \<Rightarrow> Some (full_access, db))"

text \<open>An opened database has every schema, and a prefix extractor only for a schema with a prefix.\<close>

lemma rocks_open_schemas:
  assumes "rocks_open_ok R" and "rocks_open R path c schemas = Some (hnd, db)"
  shows "\<forall>meta \<in> set schemas. rdb_cf_handle R db (meta_name meta)"
    and "(\<forall>meta \<in> set schemas. meta_name meta = nm \<longrightarrow> meta_prefix_size meta = 0) \<Longrightarrow> rdb_fixed_prefix R db nm = None"
proof -
  have opened: "rdb_open R (open_options c) path (map (open_cf c) schemas) = Inr db"
    using assms(2) by (auto simp: rocks_open_def split: sum.splits)
  have "create_missing_column_families (open_options c)" by (simp add: open_options_def)
  note ok = assms(1) [unfolded rocks_open_ok_def, rule_format, OF this opened]
  show "\<forall>meta \<in> set schemas. rdb_cf_handle R db (meta_name meta)"
    using ok by (simp add: open_cf_def)
  assume "\<forall>meta \<in> set schemas. meta_name meta = nm \<longrightarrow> meta_prefix_size meta = 0"
  then show "rdb_fixed_prefix R db nm = None"
    using ok by (simp add: open_cf_def)
qed

text \<open>\<open>snapshot\<close>: a view-only handle on the same database.\<close>

definition rocks_snapshot :: "('db, 'snap) rocks \<Rightarrow> 'db \<Rightarrow> 'snap rocks_handle" where
  "rocks_snapshot R db = \<lparr>rh_snapshot = Some (rdb_snapshot R db)\<rparr>"

subsection \<open>Raw access\<close>

text \<open>\<open>cf_handle\<close> panics on a schema without column family.\<close>

definition with_cf :: "('db, 'snap) rocks \<Rightarrow> 'db \<Rightarrow> schema_name \<Rightarrow> 'a \<Rightarrow> 'a option" where
  "with_cf R db schema x = (if rdb_cf_handle R db schema then Some x else None)"

definition raw_get ::
    "('db, 'snap) rocks \<Rightarrow> 'snap rocks_handle \<Rightarrow> 'db \<Rightarrow> schema_name \<Rightarrow> bytes \<Rightarrow> bytes option db_result" where
  "raw_get R hnd db schema key = with_cf R db schema (rdb_get_pinned R db (rh_snapshot hnd) schema key)"

definition raw_multi_get ::
    "('db, 'snap) rocks \<Rightarrow> 'snap rocks_handle \<Rightarrow> 'db \<Rightarrow> schema_name \<Rightarrow> bytes list \<Rightarrow> (string + bytes option) list option" where
  "raw_multi_get R hnd db schema keys = with_cf R db schema (rdb_batched_multi_get R db (rh_snapshot hnd) schema keys)"

definition raw_iterator ::
    "('db, 'snap) rocks \<Rightarrow> 'snap rocks_handle \<Rightarrow> 'db \<Rightarrow> schema_name \<Rightarrow> rocks_mode \<Rightarrow> (string + bytes \<times> bytes) list option" where
  "raw_iterator R hnd db schema mode = with_cf R db schema (rdb_iterator R db (rh_snapshot hnd) schema mode)"

definition raw_put ::
    "('db, 'snap) rocks \<Rightarrow> 'db \<Rightarrow> schema_name \<Rightarrow> bytes \<Rightarrow> bytes \<Rightarrow> ((string + unit) \<times> 'db) option" where
  "raw_put R db schema key val = with_cf R db schema (rdb_put R db schema key val)"

definition raw_delete ::
    "('db, 'snap) rocks \<Rightarrow> 'db \<Rightarrow> schema_name \<Rightarrow> bytes \<Rightarrow> ((string + unit) \<times> 'db) option" where
  "raw_delete R db schema key = with_cf R db schema (rdb_delete R db schema key)"

fun batch_op_of :: "schema_name \<Rightarrow> bytes \<times> write_operation \<Rightarrow> batch_op" where
  "batch_op_of schema (key, Put val) = BatchPut schema key val"
| "batch_op_of schema (key, Delete) = BatchDelete schema key"

text \<open>The loops that fill the \<open>WriteBatch\<close>; a schema without column family panics.\<close>

fun fill_batch :: "('db, 'snap) rocks \<Rightarrow> 'db \<Rightarrow> changes \<Rightarrow> batch_op list option" where
  "fill_batch R db [] = Some []"
| "fill_batch R db ((schema, btree) # chgs) =
     (if rdb_cf_handle R db schema
      then map_option (\<lambda>ops. map (batch_op_of schema) btree @ ops) (fill_batch R db chgs) else None)"

definition raw_write_batch :: "('db, 'snap) rocks \<Rightarrow> 'db \<Rightarrow> changes \<Rightarrow> ((string + unit) \<times> 'db) option" where
  "raw_write_batch R db chgs = map_option (rdb_write R db) (fill_batch R db chgs)"

subsection \<open>Typed access\<close>

text \<open>Decoding a found value; \<open>None\<close> is the panic of \<open>deserialize\<close>.\<close>

definition decode_value :: "('k, 'v) schema \<Rightarrow> bytes option \<Rightarrow> 'v option option" where
  "decode_value S found = (case found of None \<Rightarrow> Some None | Some bs \<Rightarrow> map_option Some (value_from_slice S bs))"

definition decode_result :: "('k, 'v) schema \<Rightarrow> string + bytes option \<Rightarrow> 'v option db_result" where
  "decode_result S res = (case res of Inl e \<Rightarrow> Some (Inl e) | Inr found \<Rightarrow> map_option Inr (decode_value S found))"

definition rocks_get ::
    "('db, 'snap) rocks \<Rightarrow> ('k, 'v) schema \<Rightarrow> 'snap rocks_handle \<Rightarrow> 'db \<Rightarrow> 'k \<Rightarrow> 'v option db_result" where
  "rocks_get R S hnd db key = Option.bind (raw_get R hnd db (sname S) (key_to_vec S key)) (decode_result S)"

text \<open>The loop over the answers: the first error ends it.\<close>

fun decode_all :: "('k, 'v) schema \<Rightarrow> (string + bytes option) list \<Rightarrow> 'v option list db_result" where
  "decode_all S [] = Some (Inr [])"
| "decode_all S (res # ress) =
     (case decode_result S res of
        None \<Rightarrow> None
      | Some (Inl e) \<Rightarrow> Some (Inl e)
      | Some (Inr v) \<Rightarrow> map_option (\<lambda>r. case r of Inl e \<Rightarrow> Inl e | Inr vs \<Rightarrow> Inr (v # vs)) (decode_all S ress))"

definition rocks_multi_get ::
    "('db, 'snap) rocks \<Rightarrow> ('k, 'v) schema \<Rightarrow> 'snap rocks_handle \<Rightarrow> 'db \<Rightarrow> 'k list \<Rightarrow> 'v option list db_result" where
  "rocks_multi_get R S hnd db keys =
     Option.bind (raw_multi_get R hnd db (sname S) (map (key_to_vec S) keys)) (decode_all S)"

definition rocks_exists ::
    "('db, 'snap) rocks \<Rightarrow> ('k, 'v) schema \<Rightarrow> 'snap rocks_handle \<Rightarrow> 'db \<Rightarrow> 'k \<Rightarrow> bool db_result" where
  "rocks_exists R S hnd db key =
     map_option (\<lambda>res. case res of Inl e \<Rightarrow> Inl e | Inr found \<Rightarrow> Inr (found \<noteq> None))
       (raw_get R hnd db (sname S) (key_to_vec S key))"

definition rocks_put ::
    "('db, 'snap) rocks \<Rightarrow> ('k, 'v) schema \<Rightarrow> 'k \<Rightarrow> 'v \<Rightarrow> 'db \<Rightarrow> ((string + unit) \<times> 'db) option" where
  "rocks_put R S key val db = raw_put R db (sname S) (key_to_vec S key) (value_to_vec S val)"

definition rocks_delete ::
    "('db, 'snap) rocks \<Rightarrow> ('k, 'v) schema \<Rightarrow> 'k \<Rightarrow> 'db \<Rightarrow> ((string + unit) \<times> 'db) option" where
  "rocks_delete R S key db = raw_delete R db (sname S) (key_to_vec S key)"

definition rocks_write_batch :: "('db, 'snap) rocks \<Rightarrow> changes \<Rightarrow> 'db \<Rightarrow> ((string + unit) \<times> 'db) option" where
  "rocks_write_batch R chgs db = raw_write_batch R db chgs"

datatype 'k iterator_mode = IterStart | IterEnd | IterForward 'k | IterReverse 'k

fun rocks_mode_of :: "('k, 'v) schema \<Rightarrow> 'k iterator_mode \<Rightarrow> rocks_mode" where
  "rocks_mode_of S IterStart = RocksStart"
| "rocks_mode_of S IterEnd = RocksEnd"
| "rocks_mode_of S (IterForward key) = RocksFrom (key_to_vec S key) Forward"
| "rocks_mode_of S (IterReverse key) = RocksFrom (key_to_vec S key) Reverse"

text \<open>Each item the iterator yields: an error, a decoded pair, or \<open>None\<close> where decoding panics.\<close>

definition decode_item :: "('k, 'v) schema \<Rightarrow> string + bytes \<times> bytes \<Rightarrow> ('k \<times> 'v) db_result" where
  "decode_item S res =
     (case res of
        Inl e \<Rightarrow> Some (Inl e)
      | Inr (kb, vb) \<Rightarrow>
          Option.bind (key_from_slice S kb) (\<lambda>k. map_option (\<lambda>v. Inr (k, v)) (value_from_slice S vb)))"

definition rocks_iterator ::
    "('db, 'snap) rocks \<Rightarrow> ('k, 'v) schema \<Rightarrow> 'snap rocks_handle \<Rightarrow> 'db \<Rightarrow> 'k iterator_mode \<Rightarrow> ('k \<times> 'v) db_result list option" where
  "rocks_iterator R S hnd db mode = map_option (map (decode_item S)) (raw_iterator R hnd db (sname S) (rocks_mode_of S mode))"

subsection \<open>The contract of a key-value store\<close>

text \<open>What \<open>KeyValueAccessor\<close> and \<open>KeyValueMutator\<close> promise for one schema: reads and writes act on a map.\<close>

datatype ('k, 'v) kv_op = KvPut 'k 'v | KvDelete 'k

fun apply_kv_op :: "('k, 'v) kv_op \<Rightarrow> ('k \<rightharpoonup> 'v) \<Rightarrow> ('k \<rightharpoonup> 'v)" where
  "apply_kv_op (KvPut k v) m = m(k \<mapsto> v)"
| "apply_kv_op (KvDelete k) m = m(k := None)"

locale key_value =
  fixes ok :: "'s \<Rightarrow> bool"
    and content_of :: "'s \<Rightarrow> 'k \<Rightarrow> 'v option"
    and get :: "'s \<Rightarrow> 'k \<Rightarrow> 'v option db_result"
    and exists :: "'s \<Rightarrow> 'k \<Rightarrow> bool db_result"
    and put :: "'k \<Rightarrow> 'v \<Rightarrow> 's \<Rightarrow> ((string + unit) \<times> 's) option"
    and delete :: "'k \<Rightarrow> 's \<Rightarrow> ((string + unit) \<times> 's) option"
  assumes get_content: "ok s \<Longrightarrow> get s k = Some (Inr r) \<Longrightarrow> r = content_of s k"
    and exists_content: "ok s \<Longrightarrow> exists s k = Some (Inr b) \<Longrightarrow> b \<longleftrightarrow> content_of s k \<noteq> None"
    and put_content: "ok s \<Longrightarrow> put k v s = Some (res, s') \<Longrightarrow>
      ok s' \<and> content_of s' = (case res of Inl _ \<Rightarrow> content_of s | Inr _ \<Rightarrow> (content_of s)(k \<mapsto> v))"
    and delete_content: "ok s \<Longrightarrow> delete k s = Some (res, s') \<Longrightarrow>
      ok s' \<and> content_of s' = (case res of Inl _ \<Rightarrow> content_of s | Inr _ \<Rightarrow> (content_of s)(k := None))"
begin

text \<open>A client that performs writes one after the other and stops at the first that fails.\<close>

fun run_ops :: "('k, 'v) kv_op list \<Rightarrow> 's \<Rightarrow> 's option" where
  "run_ops [] s = Some s"
| "run_ops (op # ops) s =
     (case (case op of KvPut k v \<Rightarrow> put k v s | KvDelete k \<Rightarrow> delete k s) of
        Some (Inr _, s') \<Rightarrow> run_ops ops s'
      | _ \<Rightarrow> None)"

lemma run_ops_content:
  assumes "ok s" and "run_ops ops s = Some s'"
  shows "ok s' \<and> content_of s' = fold apply_kv_op ops (content_of s)"
  using assms
proof (induction ops arbitrary: s)
  case (Cons op ops)
  obtain s1 where step: "(case op of KvPut k v \<Rightarrow> put k v s | KvDelete k \<Rightarrow> delete k s) = Some (Inr (), s1)"
    and rest: "run_ops ops s1 = Some s'"
    using Cons.prems(2) by (simp split: option.split_asm prod.split_asm sum.split_asm)
  have "ok s1 \<and> content_of s1 = apply_kv_op op (content_of s)"
  proof (cases op)
    case (KvPut k v)
    then show ?thesis using put_content [OF Cons.prems(1), of k v "Inr ()" s1] step by simp
  next
    case (KvDelete k)
    then show ?thesis using delete_content [OF Cons.prems(1), of k "Inr ()" s1] step by simp
  qed
  then show ?case using Cons.IH [OF _ rest] by simp
qed simp

lemma get_after_ops:
  assumes "ok s" and "run_ops ops s = Some s'" and "get s' k = Some (Inr r)"
  shows "r = fold apply_kv_op ops (content_of s) k"
  using run_ops_content [OF assms(1,2)] get_content [OF _ assms(3)] by simp

end

subsection \<open>RocksDB keeps the contract\<close>

definition typed_content :: "('k, 'v) schema \<Rightarrow> content \<Rightarrow> 'k \<Rightarrow> 'v option" where
  "typed_content S w k = Option.bind (w (sname S) (key_to_vec S k)) (value_from_slice S)"

text \<open>Every value stored under a key of the schema decodes.\<close>

definition well_typed :: "('k, 'v) schema \<Rightarrow> content \<Rightarrow> bool" where
  "well_typed S w \<longleftrightarrow> (\<forall>k bs. w (sname S) (key_to_vec S k) = Some bs \<longrightarrow> value_from_slice S bs \<noteq> None)"

definition db_ok ::
    "('db, 'snap) rocks \<Rightarrow> ('db \<Rightarrow> content) \<Rightarrow> ('snap \<Rightarrow> content) \<Rightarrow> ('k, 'v) schema \<Rightarrow> content \<Rightarrow> bool" where
  "db_ok R view sview S w \<longleftrightarrow> rocks_ok R view sview \<and> schema_ok S \<and> well_typed S w"

lemma typed_put:
  assumes "schema_ok S"
  shows "typed_content S (w(sname S := (w (sname S))(key_to_vec S k \<mapsto> value_to_vec S v))) = (typed_content S w)(k \<mapsto> v)"
    and "well_typed S w \<Longrightarrow> well_typed S (w(sname S := (w (sname S))(key_to_vec S k \<mapsto> value_to_vec S v)))"
  using assms key_to_vec_inj [OF assms]
  by (auto simp: typed_content_def well_typed_def schema_ok_def fun_eq_iff)

lemma typed_delete:
  assumes "schema_ok S"
  shows "typed_content S (w(sname S := (w (sname S))(key_to_vec S k := None))) = (typed_content S w)(k := None)"
    and "well_typed S w \<Longrightarrow> well_typed S (w(sname S := (w (sname S))(key_to_vec S k := None)))"
  using key_to_vec_inj [OF assms] by (auto simp: typed_content_def well_typed_def fun_eq_iff)

lemma decode_result_found:
  "decode_result S res = Some (Inr r) \<longleftrightarrow>
     (\<exists>found. res = Inr found \<and> r = Option.bind found (value_from_slice S) \<and>
        (\<forall>bs. found = Some bs \<longrightarrow> value_from_slice S bs \<noteq> None))"
  by (auto simp: decode_result_def decode_value_def split: sum.splits option.splits)

lemma raw_get_seen:
  assumes "rocks_ok R view sview" and "raw_get R hnd db schema key = Some (Inr r)"
  shows "r = seen view sview db (rh_snapshot hnd) schema key"
  using assms by (auto simp: raw_get_def with_cf_def rocks_ok_def rocks_reads_ok_def split: if_splits)

lemma rocks_get_content:
  assumes "rocks_ok R view sview" and "rocks_get R S hnd db key = Some (Inr r)"
  shows "r = typed_content S (seen view sview db (rh_snapshot hnd)) key"
  using assms(2) raw_get_seen [OF assms(1)]
  by (fastforce simp: rocks_get_def bind_Some_iff decode_result_found typed_content_def)

lemma rocks_exists_content:
  assumes "rocks_ok R view sview" and "well_typed S (seen view sview db (rh_snapshot hnd))"
    and "rocks_exists R S hnd db key = Some (Inr b)"
  shows "b \<longleftrightarrow> typed_content S (seen view sview db (rh_snapshot hnd)) key \<noteq> None"
proof -
  obtain found where "raw_get R hnd db (sname S) (key_to_vec S key) = Some (Inr found)" and b: "b \<longleftrightarrow> found \<noteq> None"
    using assms(3) unfolding rocks_exists_def by (cases "raw_get R hnd db (sname S) (key_to_vec S key)") (auto split: sum.splits)
  then have "found = seen view sview db (rh_snapshot hnd) (sname S) (key_to_vec S key)"
    using raw_get_seen [OF assms(1)] by blast
  then show ?thesis using b assms(2) by (cases found) (auto simp: typed_content_def well_typed_def)
qed

lemma rocks_put_content:
  assumes "db_ok R view sview S (view db)" and "rocks_put R S k v db = Some (res, db')"
  shows "db_ok R view sview S (view db') \<and>
     typed_content S (view db') = (case res of Inl _ \<Rightarrow> typed_content S (view db) | Inr _ \<Rightarrow> (typed_content S (view db))(k \<mapsto> v))"
proof -
  have "wrote view (apply_batch_op (BatchPut (sname S) (key_to_vec S k) (value_to_vec S v)) (view db)) db (res, db')"
    using assms by (auto simp: db_ok_def rocks_ok_def rocks_writes_ok_def rocks_put_def raw_put_def with_cf_def split: if_splits) metis
  then show ?thesis
    using assms(1) typed_put [of S "view db" k v] by (auto simp: wrote_def db_ok_def split: sum.splits)
qed

lemma rocks_delete_content:
  assumes "db_ok R view sview S (view db)" and "rocks_delete R S k db = Some (res, db')"
  shows "db_ok R view sview S (view db') \<and>
     typed_content S (view db') = (case res of Inl _ \<Rightarrow> typed_content S (view db) | Inr _ \<Rightarrow> (typed_content S (view db))(k := None))"
proof -
  have "wrote view (apply_batch_op (BatchDelete (sname S) (key_to_vec S k)) (view db)) db (res, db')"
    using assms by (auto simp: db_ok_def rocks_ok_def rocks_writes_ok_def rocks_delete_def raw_delete_def with_cf_def split: if_splits) metis
  then show ?thesis
    using assms(1) typed_delete [of S "view db" k] by (auto simp: wrote_def db_ok_def split: sum.splits)
qed

lemma seen_full [simp]: "seen view sview db (rh_snapshot full_access) = view db"
  by (simp add: seen_def full_access_def)

interpretation rocks_kv: key_value "\<lambda>db. db_ok R view sview S (view db)" "\<lambda>db. typed_content S (view db)"
  "rocks_get R S full_access" "rocks_exists R S full_access" "rocks_put R S" "rocks_delete R S" for R view sview S
proof unfold_locales
  show "r = typed_content S (view db) k"
    if "db_ok R view sview S (view db)" and "rocks_get R S full_access db k = Some (Inr r)" for db k r
    using rocks_get_content [OF _ that(2), of view sview] that(1) by (simp add: db_ok_def)
  show "b \<longleftrightarrow> typed_content S (view db) k \<noteq> None"
    if "db_ok R view sview S (view db)" and "rocks_exists R S full_access db k = Some (Inr b)" for db k b
    using rocks_exists_content [OF _ _ that(2), of view sview] that(1) by (simp add: db_ok_def)
qed (fact rocks_put_content, fact rocks_delete_content)

end
