(* ===== verification/Transaction.thy ===== *)
theory Transaction
  imports Database Externals "HOL-Library.Finite_Map"
begin

text \<open>
  \<open>InMemoryTransaction\<close> (\<open>transaction.rs\<close>): writes are collected in memory over a database that is
  only read, and \<open>commit\<close> writes them as one batch. The abstraction of a transaction is its
  overlay on the content of the database; the transaction keeps the same contract as the
  database, and a commit makes the overlay the content.
\<close>

subsection \<open>The transaction\<close>

record transaction =
  tx_changes :: changes

definition tx_new :: transaction where
  "tx_new = \<lparr>tx_changes = []\<rparr>"

definition into_changes :: "transaction \<Rightarrow> changes" where
  "into_changes t = tx_changes t"

definition get_from_changes :: "transaction \<Rightarrow> schema_name \<Rightarrow> bytes \<Rightarrow> write_operation option" where
  "get_from_changes t schema key = Option.bind (map_of (tx_changes t) schema) (\<lambda>btree. map_of btree key)"

definition tx_get ::
    "('db, 'snap) rocks \<Rightarrow> ('k, 'v) schema \<Rightarrow> 'db \<Rightarrow> transaction \<Rightarrow> 'k \<Rightarrow> 'v option db_result" where
  "tx_get R S db t key =
     (let key_bytes = key_to_vec S key in
      case get_from_changes t (sname S) key_bytes of
        Some (Put value_bytes) \<Rightarrow> map_option (\<lambda>v. Inr (Some v)) (value_from_slice S value_bytes)
      | Some Delete \<Rightarrow> Some (Inr None)
      | None \<Rightarrow> Option.bind (raw_get R full_access db (sname S) key_bytes) (decode_result S))"

text \<open>The loop of \<open>multi_get\<close> over the keys, for a schema with changes; the first error ends it.\<close>

fun tx_multi_get_loop ::
    "('db, 'snap) rocks \<Rightarrow> ('k, 'v) schema \<Rightarrow> 'db \<Rightarrow> (bytes, write_operation) btree_map \<Rightarrow> 'k list \<Rightarrow> 'v option list db_result" where
  "tx_multi_get_loop R S db btree [] = Some (Inr [])"
| "tx_multi_get_loop R S db btree (key # keys) =
     (let key_bytes = key_to_vec S key;
          val = (case map_of btree key_bytes of
                   Some (Put value_bytes) \<Rightarrow> map_option (\<lambda>v. Inr (Some v)) (value_from_slice S value_bytes)
                 | Some Delete \<Rightarrow> Some (Inr None)
                 | None \<Rightarrow> Option.bind (raw_get R full_access db (sname S) key_bytes) (decode_result S))
      in case val of
           None \<Rightarrow> None
         | Some (Inl e) \<Rightarrow> Some (Inl e)
         | Some (Inr v) \<Rightarrow>
             map_option (\<lambda>r. case r of Inl e \<Rightarrow> Inl e | Inr vs \<Rightarrow> Inr (v # vs)) (tx_multi_get_loop R S db btree keys))"

definition tx_multi_get ::
    "('db, 'snap) rocks \<Rightarrow> ('k, 'v) schema \<Rightarrow> 'db \<Rightarrow> transaction \<Rightarrow> 'k list \<Rightarrow> 'v option list db_result" where
  "tx_multi_get R S db t keys =
     (case map_of (tx_changes t) (sname S) of
        Some btree \<Rightarrow> tx_multi_get_loop R S db btree keys
      | None \<Rightarrow> rocks_multi_get R S full_access db keys)"

definition tx_exists ::
    "('db, 'snap) rocks \<Rightarrow> ('k, 'v) schema \<Rightarrow> 'db \<Rightarrow> transaction \<Rightarrow> 'k \<Rightarrow> bool db_result" where
  "tx_exists R S db t key =
     (let key_bytes = key_to_vec S key in
      case get_from_changes t (sname S) key_bytes of
        Some (Put _) \<Rightarrow> Some (Inr True)
      | Some Delete \<Rightarrow> Some (Inr False)
      | None \<Rightarrow> map_option (\<lambda>res. case res of Inl e \<Rightarrow> Inl e | Inr found \<Rightarrow> Inr (found \<noteq> None))
                  (raw_get R full_access db (sname S) key_bytes))"

text \<open>\<open>changes.entry(schema).or_default().insert(key, operation)\<close>.\<close>

definition or_default :: "schema_name \<Rightarrow> changes \<Rightarrow> (bytes, write_operation) btree_map" where
  "or_default schema chgs = (case map_of chgs schema of None \<Rightarrow> [] | Some btree \<Rightarrow> btree)"

definition record_change :: "schema_name \<Rightarrow> bytes \<Rightarrow> write_operation \<Rightarrow> changes \<Rightarrow> changes" where
  "record_change schema key op chgs = hm_insert schema (bt_insert key op (or_default schema chgs)) chgs"

definition tx_put :: "('k, 'v) schema \<Rightarrow> 'k \<Rightarrow> 'v \<Rightarrow> transaction \<Rightarrow> ((string + unit) \<times> transaction) option" where
  "tx_put S key val t =
     Some (Inr (), t\<lparr>tx_changes := record_change (sname S) (key_to_vec S key) (Put (value_to_vec S val)) (tx_changes t)\<rparr>)"

definition tx_delete :: "('k, 'v) schema \<Rightarrow> 'k \<Rightarrow> transaction \<Rightarrow> ((string + unit) \<times> transaction) option" where
  "tx_delete S key t =
     Some (Inr (), t\<lparr>tx_changes := record_change (sname S) (key_to_vec S key) Delete (tx_changes t)\<rparr>)"

fun merge_btree :: "(bytes, write_operation) btree_map \<Rightarrow> (bytes, write_operation) btree_map \<Rightarrow> (bytes, write_operation) btree_map" where
  "merge_btree [] btree = btree"
| "merge_btree ((new_key, new_operation) # updates) btree = merge_btree updates (bt_insert new_key new_operation btree)"

fun merge_changes :: "changes \<Rightarrow> changes \<Rightarrow> changes" where
  "merge_changes [] chgs = chgs"
| "merge_changes ((schema, btree_updates) # news) chgs =
     merge_changes news (hm_insert schema (merge_btree btree_updates (or_default schema chgs)) chgs)"

definition tx_write_batch :: "changes \<Rightarrow> transaction \<Rightarrow> ((string + unit) \<times> transaction) option" where
  "tx_write_batch chgs t = Some (Inr (), t\<lparr>tx_changes := merge_changes chgs (tx_changes t)\<rparr>)"

text \<open>\<open>unimplemented!\<close>: iterating over a transaction always panics.\<close>

definition tx_iterator :: "'k iterator_mode \<Rightarrow> transaction \<Rightarrow> ('k \<times> 'v) db_result list option" where
  "tx_iterator mode t = None"

definition commit :: "('db, 'snap) rocks \<Rightarrow> 'db \<Rightarrow> transaction \<Rightarrow> ((string + unit) \<times> 'db) option" where
  "commit R db t = raw_write_batch R db (tx_changes t)"

subsection \<open>The overlay\<close>

text \<open>Changes are a map of maps, on pairs of schema and key.\<close>

interpretation chg: nested_map "[]" map_of hm_insert hm_remove "\<lambda>m. m" hm_wf
  "[]" map_of bt_insert bt_remove "\<lambda>m. m" bt_wf
  by unfold_locales

abbreviation changes_wf :: "changes \<Rightarrow> bool" where
  "changes_wf \<equiv> chg.ninvar"

definition change_at :: "changes \<Rightarrow> schema_name \<Rightarrow> bytes \<Rightarrow> write_operation option" where
  "change_at chgs schema key = map_of (or_default schema chgs) key"

fun overlay_op :: "write_operation option \<Rightarrow> bytes option \<Rightarrow> bytes option" where
  "overlay_op None x = x"
| "overlay_op (Some (Put v)) x = Some v"
| "overlay_op (Some Delete) x = None"

definition overlay :: "changes \<Rightarrow> content \<Rightarrow> content" where
  "overlay chgs w schema key = overlay_op (change_at chgs schema key) (w schema key)"

lemma the_inner_or_default: "chg.the_inner chgs schema = or_default schema chgs"
  by (simp add: chg.the_inner_def or_default_def)

lemma change_at_nlookup: "change_at chgs schema key = chg.nlookup chgs (schema, key)"
  by (simp add: change_at_def chg.nlookup_def the_inner_or_default)

lemma get_from_changes_at: "get_from_changes t schema key = change_at (tx_changes t) schema key"
  by (simp add: get_from_changes_def change_at_def or_default_def split: option.split)

lemma record_change_ninsert: "record_change schema key op chgs = chg.ninsert (schema, key) op chgs"
  by (simp add: record_change_def chg.ninsert_def the_inner_or_default)

lemma overlay_record_change:
  assumes "changes_wf chgs"
  shows "overlay (record_change schema key op chgs) w =
      (overlay chgs w)(schema := (overlay chgs w schema)(key := overlay_op (Some op) None))"
    and "changes_wf (record_change schema key op chgs)"
proof -
  show "overlay (record_change schema key op chgs) w =
      (overlay chgs w)(schema := (overlay chgs w schema)(key := overlay_op (Some op) None))"
    using assms
    by (cases op) (auto simp: fun_eq_iff overlay_def change_at_nlookup record_change_ninsert chg.pair.lookup_insert)
  show "changes_wf (record_change schema key op chgs)"
    using assms by (simp add: record_change_ninsert chg.pair.invar_insert)
qed

subsection \<open>The transaction keeps the contract\<close>

definition tx_ok ::
    "('db, 'snap) rocks \<Rightarrow> ('db \<Rightarrow> content) \<Rightarrow> ('snap \<Rightarrow> content) \<Rightarrow> ('k, 'v) schema \<Rightarrow> 'db \<Rightarrow> transaction \<Rightarrow> bool" where
  "tx_ok R view sview S db t \<longleftrightarrow> changes_wf (tx_changes t) \<and> db_ok R view sview S (overlay (tx_changes t) (view db))"

text \<open>The value a transaction finds for a key, in the changes or in the database.\<close>

lemma tx_found:
  assumes "rocks_ok R view sview"
    and "(case change_at chgs schema key of
            Some (Put bs) \<Rightarrow> map_option (\<lambda>v. Inr (Some v)) (value_from_slice S bs)
          | Some Delete \<Rightarrow> Some (Inr None)
          | None \<Rightarrow> Option.bind (raw_get R full_access db schema key) (decode_result S)) = Some (Inr r)"
  shows "r = Option.bind (overlay chgs (view db) schema key) (value_from_slice S)"
proof (cases "change_at chgs schema key")
  case None
  then obtain found where "raw_get R full_access db schema key = Some (Inr found)" "r = Option.bind found (value_from_slice S)"
    using assms(2) by (auto simp: bind_Some_iff decode_result_found)
  then show ?thesis using raw_get_seen [OF assms(1)] None by (fastforce simp: overlay_def)
next
  case (Some op)
  then show ?thesis using assms(2) by (cases op) (auto simp: overlay_def)
qed

lemma tx_get_content:
  assumes "tx_ok R view sview S db t" and "tx_get R S db t k = Some (Inr r)"
  shows "r = typed_content S (overlay (tx_changes t) (view db)) k"
proof -
  have "rocks_ok R view sview" using assms(1) by (simp add: tx_ok_def db_ok_def)
  from tx_found [OF this, where chgs = "tx_changes t" and schema = "sname S" and key = "key_to_vec S k" and S = S and db = db and r = r] assms(2) show ?thesis
    by (simp add: typed_content_def tx_get_def Let_def get_from_changes_at)
qed

lemma tx_exists_content:
  assumes "tx_ok R view sview S db t" and "tx_exists R S db t k = Some (Inr b)"
  shows "b \<longleftrightarrow> typed_content S (overlay (tx_changes t) (view db)) k \<noteq> None"
proof -
  let ?kb = "key_to_vec S k" and ?w = "overlay (tx_changes t) (view db)"
  have ok: "rocks_ok R view sview" "well_typed S ?w" using assms(1) by (simp_all add: tx_ok_def db_ok_def)
  have "b \<longleftrightarrow> ?w (sname S) ?kb \<noteq> None"
  proof (cases "change_at (tx_changes t) (sname S) ?kb")
    case None
    then obtain found where "raw_get R full_access db (sname S) ?kb = Some (Inr found)" "b \<longleftrightarrow> found \<noteq> None"
      using assms(2) unfolding tx_exists_def
      by (cases "raw_get R full_access db (sname S) ?kb") (auto simp: Let_def get_from_changes_at split: sum.splits)
    then show ?thesis using raw_get_seen [OF ok(1), of full_access db] None by (simp add: overlay_def)
  next
    case (Some op)
    then show ?thesis using assms(2) by (cases op) (auto simp: tx_exists_def Let_def get_from_changes_at overlay_def)
  qed
  then show ?thesis
    using ok(2) by (cases "?w (sname S) ?kb") (auto simp: typed_content_def well_typed_def)
qed

lemma tx_put_content:
  assumes "tx_ok R view sview S db t" and "tx_put S k v t = Some (res, t')"
  shows "tx_ok R view sview S db t' \<and> typed_content S (overlay (tx_changes t') (view db)) =
     (case res of Inl _ \<Rightarrow> typed_content S (overlay (tx_changes t) (view db))
        | Inr _ \<Rightarrow> (typed_content S (overlay (tx_changes t) (view db)))(k \<mapsto> v))"
  using assms typed_put [of S "overlay (tx_changes t) (view db)" k v]
  by (auto simp: tx_put_def tx_ok_def db_ok_def overlay_record_change)

lemma tx_delete_content:
  assumes "tx_ok R view sview S db t" and "tx_delete S k t = Some (res, t')"
  shows "tx_ok R view sview S db t' \<and> typed_content S (overlay (tx_changes t') (view db)) =
     (case res of Inl _ \<Rightarrow> typed_content S (overlay (tx_changes t) (view db))
        | Inr _ \<Rightarrow> (typed_content S (overlay (tx_changes t) (view db)))(k := None))"
  using assms typed_delete [of S "overlay (tx_changes t) (view db)" k]
  by (auto simp: tx_delete_def tx_ok_def db_ok_def overlay_record_change)

interpretation tx_kv: key_value "tx_ok R view sview S db" "\<lambda>t. typed_content S (overlay (tx_changes t) (view db))"
  "tx_get R S db" "tx_exists R S db" "tx_put S" "tx_delete S" for R view sview S db
  by unfold_locales (fact tx_get_content, fact tx_exists_content, fact tx_put_content, fact tx_delete_content)

subsection \<open>Commit\<close>

lemma changes_wfD:
  assumes "changes_wf chgs"
  shows "distinct (map fst chgs)" and "\<forall>p \<in> set chgs. bt_wf (snd p)"
proof -
  have hm: "hm_wf chgs" and inner: "\<And>k i. map_of chgs k = Some i \<Longrightarrow> bt_wf i"
    using assms by (auto simp: chg.ninvar_def)
  show "distinct (map fst chgs)" using hm by (simp add: hm_wf_def)
  show "\<forall>p \<in> set chgs. bt_wf (snd p)"
    using inner hm.entries_iff [OF hm] by auto
qed

lemma apply_batch_append: "apply_batch (xs @ ys) w = apply_batch ys (apply_batch xs w)"
  by (simp add: apply_batch_def)

lemma apply_batch_btree:
  assumes "distinct (map fst btree)"
  shows "apply_batch (map (batch_op_of schema) btree) w = w(schema := (\<lambda>k. overlay_op (map_of btree k) (w schema k)))"
  using assms
proof (induction btree arbitrary: w)
  case Nil
  show ?case by (simp add: apply_batch_def)
next
  case (Cons p btree)
  obtain key op where p: "p = (key, op)" by (cases p)
  have none: "map_of btree key = None" using Cons.prems p by (simp add: map_of_eq_None_iff)
  have "apply_batch (map (batch_op_of schema) (p # btree)) w =
      apply_batch (map (batch_op_of schema) btree) (apply_batch_op (batch_op_of schema (key, op)) w)"
    by (simp add: p apply_batch_def)
  also have "\<dots> = w(schema := (\<lambda>k. overlay_op (map_of (p # btree) k) (w schema k)))"
    using Cons none p by (cases op) (auto simp: fun_eq_iff)
  finally show ?case .
qed

lemma fill_batch_overlay:
  assumes "distinct (map fst chgs)" and "\<forall>p \<in> set chgs. bt_wf (snd p)"
    and "fill_batch R db chgs = Some ops"
  shows "apply_batch ops w = overlay chgs w"
  using assms
proof (induction chgs arbitrary: ops w)
  case Nil
  then show ?case by (simp add: apply_batch_def overlay_def change_at_def or_default_def fun_eq_iff)
next
  case (Cons p chgs)
  obtain schema btree where p: "p = (schema, btree)" by (cases p)
  obtain rest where ops: "ops = map (batch_op_of schema) btree @ rest" and rest: "fill_batch R db chgs = Some rest"
    using Cons.prems(3) p by (auto split: if_splits)
  have none: "map_of chgs schema = None" using Cons.prems(1) p by (simp add: map_of_eq_None_iff)
  have "distinct (map fst btree)" using Cons.prems(2) p by (simp add: bt_wf_distinct)
  then have "apply_batch ops w = overlay chgs (w(schema := (\<lambda>k. overlay_op (map_of btree k) (w schema k))))"
    using Cons.IH [OF _ _ rest] Cons.prems(1,2) by (simp add: ops apply_batch_append apply_batch_btree)
  also have "\<dots> = overlay (p # chgs) w"
    using none by (auto simp: p overlay_def change_at_def or_default_def fun_eq_iff)
  finally show ?case .
qed

lemma fill_batch_None: "fill_batch R db chgs = None \<longleftrightarrow> (\<exists>cf \<in> fst ` set chgs. \<not> rdb_cf_handle R db cf)"
  by (induction chgs rule: fill_batch.induct [of _ R db]) (auto split: if_splits)

lemma raw_write_batch_overlay:
  assumes "rocks_ok R view sview" and "changes_wf chgs" and "raw_write_batch R db chgs = Some (res, db')"
  shows "view db' = (case res of Inl _ \<Rightarrow> view db | Inr _ \<Rightarrow> overlay chgs (view db))"
proof -
  obtain ops where ops: "fill_batch R db chgs = Some ops" "rdb_write R db ops = (res, db')"
    using assms(3) by (auto simp: raw_write_batch_def)
  have "wrote view (apply_batch ops (view db)) db (rdb_write R db ops)"
    using assms(1) by (simp add: rocks_ok_def rocks_writes_ok_def)
  then show ?thesis
    using ops(2) fill_batch_overlay [OF changes_wfD [OF assms(2)] ops(1)] by (simp add: wrote_def)
qed

text \<open>C22: A commit is atomic and makes the transaction's view the content of the database: if it
  succeeds, every key of every schema has exactly the value the transaction saw for it; if the
  write fails, nothing has changed; and it panics only if a changed schema has no column family.\<close>

theorem commit_applies_overlay:
  assumes "rocks_ok R view sview" and "changes_wf (tx_changes t)"
  shows "case commit R db t of
      None \<Rightarrow> \<exists>cf \<in> fst ` set (tx_changes t). \<not> rdb_cf_handle R db cf
    | Some (Inl e, db') \<Rightarrow> view db' = view db
    | Some (Inr u, db') \<Rightarrow> view db' = overlay (tx_changes t) (view db)"
proof (cases "commit R db t")
  case None
  then show ?thesis using fill_batch_None [of R db "tx_changes t"] by (simp add: commit_def raw_write_batch_def)
next
  case (Some r)
  then show ?thesis
    using raw_write_batch_overlay [OF assms, of db "fst r" "snd r"]
    by (simp add: commit_def case_prod_unfold split: sum.splits)
qed

subsection \<open>A transaction against direct writes\<close>

abbreviation db_run :: "('db, 'snap) rocks \<Rightarrow> ('k, 'v) schema \<Rightarrow> ('k, 'v) kv_op list \<Rightarrow> 'db \<Rightarrow> 'db option" where
  "db_run R S \<equiv> key_value.run_ops (rocks_put R S) (rocks_delete R S)"

abbreviation tx_run :: "('k, 'v) schema \<Rightarrow> ('k, 'v) kv_op list \<Rightarrow> transaction \<Rightarrow> transaction option" where
  "tx_run S \<equiv> key_value.run_ops (tx_put S) (tx_delete S)"

lemma changes_wf_new: "changes_wf (tx_changes tx_new)"
  using chg.pair.invar_empty by (simp add: tx_new_def)

lemma overlay_new: "overlay (tx_changes tx_new) w = w"
  by (simp add: tx_new_def overlay_def change_at_def or_default_def fun_eq_iff)

lemma tx_ok_new: "db_ok R view sview S (view db) \<Longrightarrow> tx_ok R view sview S db tx_new"
  by (simp add: tx_ok_def changes_wf_new overlay_new)

text \<open>Collecting writes never fails and touches no other schema.\<close>

lemma record_change_schemas: "fst ` set (record_change schema key op chgs) = insert schema (fst ` set chgs)"
  unfolding dom_map_of_conv_image_fst [symmetric] by (simp add: record_change_def map_of_hm_insert)

lemma tx_run_total:
  "\<exists>t'. tx_run S ops t = Some t' \<and> fst ` set (tx_changes t') = (if ops = [] then {} else {sname S}) \<union> fst ` set (tx_changes t)"
proof (induction ops arbitrary: t)
  case (Cons op ops)
  obtain c where step: "(case op of KvPut k v \<Rightarrow> tx_put S k v t | KvDelete k \<Rightarrow> tx_delete S k t) = Some (Inr (), t\<lparr>tx_changes := c\<rparr>)"
    and c: "fst ` set c = insert (sname S) (fst ` set (tx_changes t))"
    by (cases op) (auto simp: tx_put_def tx_delete_def record_change_schemas)
  then show ?case using Cons.IH [of "t\<lparr>tx_changes := c\<rparr>"] by (auto simp: tx_kv.run_ops.simps)
qed (simp add: tx_kv.run_ops.simps)

lemma db_run_cf: "db_run R S ops db = Some db' \<Longrightarrow> ops \<noteq> [] \<Longrightarrow> rdb_cf_handle R db (sname S)"
  by (cases ops)
    (auto simp: rocks_kv.run_ops.simps rocks_put_def rocks_delete_def raw_put_def raw_delete_def with_cf_def
      split: kv_op.splits option.splits if_splits)

text \<open>C21: A transaction is equivalent to direct writes. If puts and deletes succeed when made directly on
  the database, they can be collected in a fresh transaction; every read there sees the content
  the direct writes would leave while the database is unchanged, the commit does not panic, and a
  commit that succeeds leaves the schema with that content.\<close>

theorem transaction_equals_direct_writes:
  assumes "db_ok R view sview S (view db)" and "db_run R S ops db = Some db1"
  shows "\<exists>t. tx_run S ops tx_new = Some t \<and>
    (\<forall>k r. tx_get R S db t k = Some (Inr r) \<longrightarrow> r = typed_content S (view db1) k) \<and>
    commit R db t \<noteq> None \<and>
    (\<forall>db2. commit R db t = Some (Inr (), db2) \<longrightarrow> typed_content S (view db2) = typed_content S (view db1))"
proof -
  obtain t where t: "tx_run S ops tx_new = Some t" "fst ` set (tx_changes t) = (if ops = [] then {} else {sname S})"
    using tx_run_total [of S ops tx_new] unfolding tx_new_def by auto
  have direct: "typed_content S (view db1) = fold apply_kv_op ops (typed_content S (view db))"
    using rocks_kv.run_ops_content [OF assms] by blast
  have tx: "tx_ok R view sview S db t"
    "typed_content S (overlay (tx_changes t) (view db)) = fold apply_kv_op ops (typed_content S (view db))"
    using tx_kv.run_ops_content [OF tx_ok_new [OF assms(1)] t(1)] by (simp_all add: overlay_new)
  have committed: "view db2 = overlay (tx_changes t) (view db)" if "commit R db t = Some (Inr (), db2)" for db2
    using raw_write_batch_overlay [of R view sview "tx_changes t" db "Inr ()" db2] assms(1) that tx(1)
    by (simp add: commit_def tx_ok_def db_ok_def)
  have "fill_batch R db (tx_changes t) \<noteq> None"
    unfolding fill_batch_None t(2) using db_run_cf [OF assms(2)] by simp
  then have "commit R db t \<noteq> None" by (simp add: commit_def raw_write_batch_def)
  then show ?thesis using t(1) direct tx tx_get_content [OF tx(1)] committed by (intro exI [of _ t]) simp
qed

subsection \<open>Batches inside a transaction\<close>

lemma merge_btree_laws:
  assumes "bt_wf btree" and "distinct (map fst updates)"
  shows "bt_wf (merge_btree updates btree)" and "map_of (merge_btree updates btree) = map_of btree ++ map_of updates"
proof -
  have "bt_wf (merge_btree updates btree) \<and> map_of (merge_btree updates btree) = map_of btree ++ map_of updates"
    using assms
  proof (induction updates btree rule: merge_btree.induct)
    case (2 k op updates btree)
    then have "map_of updates k = None" by (simp add: map_of_eq_None_iff)
    then have "map_of (bt_insert k op btree) ++ map_of updates = map_of btree ++ map_of ((k, op) # updates)"
      by (intro ext) (auto simp: map_of_bt_insert [OF 2(2)] map_add_def split: option.split)
    then show ?case using 2 by (simp add: bt_wf_insert del: map_of.simps)
  qed simp
  then show "bt_wf (merge_btree updates btree)" and "map_of (merge_btree updates btree) = map_of btree ++ map_of updates"
    by blast+
qed

lemma merge_changes_laws:
  assumes "changes_wf chgs" and "distinct (map fst news)" and "\<forall>p \<in> set news. bt_wf (snd p)"
  shows "changes_wf (merge_changes news chgs) \<and> overlay (merge_changes news chgs) w = overlay news (overlay chgs w)"
  using assms
proof (induction news chgs arbitrary: w rule: merge_changes.induct)
  case (1 chgs)
  then show ?case by (simp add: overlay_def change_at_def or_default_def fun_eq_iff)
next
  case (2 schema updates news chgs)
  let ?bt = "merge_btree updates (or_default schema chgs)" and ?chgs = "hm_insert schema (merge_btree updates (or_default schema chgs)) chgs"
  have bt: "bt_wf ?bt" "map_of ?bt = map_of (or_default schema chgs) ++ map_of updates"
    using merge_btree_laws chg.ninvar_inner [OF 2(2), of schema] 2(4)
    by (simp_all add: the_inner_or_default bt_wf_distinct)
  have wf: "changes_wf ?chgs" by (rule chg.ninvar_oinsert [OF 2(2) bt(1)])
  have none: "map_of news schema = None" using 2(3) by (simp add: map_of_eq_None_iff)
  have "overlay ?chgs w cf k = (if cf = schema then overlay_op (map_of updates k) (overlay chgs w cf k) else overlay chgs w cf k)" for cf k
    using bt(2) by (auto simp: overlay_def change_at_def or_default_def map_of_hm_insert map_add_def split: option.split)
      (metis not_None_eq overlay_op.elims overlay_op.simps)+
  then have "overlay news (overlay ?chgs w) = overlay ((schema, updates) # news) (overlay chgs w)"
    using none by (auto simp: overlay_def [of news] overlay_def [of "(schema, updates) # news"] change_at_def or_default_def fun_eq_iff)
  then show ?case using 2(1) [OF wf] 2(3,4) by simp
qed

text \<open>C32: A batch of changes written into a transaction acts like the same batch written to a database
  that already has the transaction's content: later operations on a key replace earlier ones, and
  no other key changes.\<close>

theorem write_batch_merges:
  assumes "rocks_ok R view sview" and "changes_wf (tx_changes t)" and "changes_wf chgs"
    and "tx_write_batch chgs t = Some (Inr (), t')"
    and "view db' = overlay (tx_changes t) (view db)" and "rocks_write_batch R chgs db' = Some (Inr (), db'')"
  shows "changes_wf (tx_changes t') \<and> overlay (tx_changes t') (view db) = view db''"
  using merge_changes_laws [OF assms(2) changes_wfD [OF assms(3)], where w = "view db"] assms(4,5)
    raw_write_batch_overlay [OF assms(1,3), of db' "Inr ()" db''] assms(6)
  by (auto simp: tx_write_batch_def rocks_write_batch_def)

subsection \<open>Reading several keys\<close>

lemma cons_result:
  "map_option (\<lambda>r. case r of Inl e \<Rightarrow> Inl e | Inr vs \<Rightarrow> Inr (v # vs)) x = Some (Inr ws) \<longleftrightarrow>
     (\<exists>vs. x = Some (Inr vs) \<and> ws = v # vs)"
  by (cases x) (auto split: sum.splits)

lemma decode_all_content:
  assumes "list_all2 (\<lambda>k res. \<forall>r. res = Inr r \<longrightarrow> r = f k) kbs ress" and "decode_all S ress = Some (Inr vs)"
  shows "vs = map (\<lambda>k. Option.bind (f k) (value_from_slice S)) kbs"
  using assms
proof (induction arbitrary: vs rule: list_all2_induct)
  case Nil
  then show ?case by simp
next
  case (Cons k kbs res ress)
  obtain v ws where v: "decode_result S res = Some (Inr v)" and ws: "decode_all S ress = Some (Inr ws)" and vs: "vs = v # ws"
    using Cons.prems by (auto simp: cons_result simp del: map_option_eq_Some split: option.splits sum.splits)
  then show ?case using Cons by (auto simp: decode_result_found)
qed

lemma tx_multi_get_loop_content:
  assumes "rocks_ok R view sview" and "map_of (tx_changes t) (sname S) = Some btree"
    and "tx_multi_get_loop R S db btree keys = Some (Inr vs)"
  shows "vs = map (typed_content S (overlay (tx_changes t) (view db))) keys"
  using assms(3)
proof (induction keys arbitrary: vs)
  case Nil
  then show ?case by simp
next
  case (Cons key keys)
  let ?val = "case map_of btree (key_to_vec S key) of
       Some (Put bs) \<Rightarrow> map_option (\<lambda>v. Inr (Some v)) (value_from_slice S bs)
     | Some Delete \<Rightarrow> Some (Inr None)
     | None \<Rightarrow> Option.bind (raw_get R full_access db (sname S) (key_to_vec S key)) (decode_result S)"
  have bt: "map_of btree = change_at (tx_changes t) (sname S)" using assms(2) by (simp add: change_at_def or_default_def fun_eq_iff)
  obtain v ws where v: "?val = Some (Inr v)" and ws: "tx_multi_get_loop R S db btree keys = Some (Inr ws)" and vs: "vs = v # ws"
    using Cons.prems by (cases ?val) (auto simp: Let_def cons_result simp del: map_option_eq_Some split: sum.splits)
  have "v = Option.bind (overlay (tx_changes t) (view db) (sname S) (key_to_vec S key)) (value_from_slice S)"
    by (rule tx_found [OF assms(1)]) (use v bt in simp)
  then show ?case using Cons.IH [OF ws] vs by (simp add: typed_content_def)
qed

text \<open>Reading several keys in a transaction returns for each key, in order, the value the
  transaction sees for it. If the schema has no changes yet the keys go to the database in one
  request, which answers so only if their encodings are sorted.\<close>

theorem multi_get_reads_each_key:
  assumes "rocks_ok R view sview" and "tx_multi_get R S db t keys = Some (Inr vs)"
    and "map_of (tx_changes t) (sname S) \<noteq> None \<or> sorted (map (key_to_vec S) keys)"
  shows "vs = map (typed_content S (overlay (tx_changes t) (view db))) keys"
proof (cases "map_of (tx_changes t) (sname S)")
  case (Some btree)
  then show ?thesis using tx_multi_get_loop_content [OF assms(1) Some] assms(2) by (simp add: tx_multi_get_def)
next
  case None
  then have get: "rocks_multi_get R S full_access db keys = Some (Inr vs)" using assms(2) by (simp add: tx_multi_get_def)
  have sorted: "sorted (map (key_to_vec S) keys)" using assms(3) None by simp
  obtain ress where ress: "ress = rdb_batched_multi_get R db None (sname S) (map (key_to_vec S) keys)" "decode_all S ress = Some (Inr vs)"
    using get by (auto simp: rocks_multi_get_def raw_multi_get_def with_cf_def bind_Some_iff full_access_def split: if_splits)
  have "list_all2 (\<lambda>k res. \<forall>r. res = Inr r \<longrightarrow> r = view db (sname S) k) (map (key_to_vec S) keys) ress"
  proof -
    have "list_all2 (\<lambda>k res. \<forall>r. res = Inr r \<longrightarrow> r = seen view sview db None (sname S) k) (map (key_to_vec S) keys) ress"
      using assms(1) sorted unfolding rocks_ok_def rocks_reads_ok_def ress(1) by blast
    then show ?thesis by (simp add: seen_def)
  qed
  from decode_all_content [OF this ress(2)] show ?thesis
    using None by (simp add: typed_content_def [abs_def] overlay_def change_at_def or_default_def)
qed

subsection \<open>Iteration\<close>

text \<open>A schema whose decoder accepts only encodings, as Borsh does for types of a fixed size.\<close>

definition canonical :: "('k, 'v) schema \<Rightarrow> bool" where
  "canonical S \<longleftrightarrow> schema_ok S \<and> (\<forall>bs k. key_from_slice S bs = Some k \<longrightarrow> bs = key_to_vec S k)"

lemma decoded_items:
  assumes "map (decode_item S) raws = map (\<lambda>kv. Some (Inr kv)) kvs"
  shows "\<exists>items. raws = map Inr items \<and>
     list_all2 (\<lambda>(kb, vb) (k, v). key_from_slice S kb = Some k \<and> value_from_slice S vb = Some v) items kvs"
  using assms
proof (induction raws arbitrary: kvs)
  case Nil
  then show ?case by simp
next
  case (Cons raw raws)
  obtain k v kvs' where kvs: "kvs = (k, v) # kvs'" and head: "decode_item S raw = Some (Inr (k, v))"
    and rest: "map (decode_item S) raws = map (\<lambda>kv. Some (Inr kv)) kvs'"
    using Cons.prems by (cases kvs) auto
  obtain kb vb where raw: "raw = Inr (kb, vb)" "key_from_slice S kb = Some k" "value_from_slice S vb = Some v"
    using head by (auto simp: decode_item_def bind_Some_iff split: sum.splits)
  obtain items where "raws = map Inr items"
    "list_all2 (\<lambda>(kb, vb) (k, v). key_from_slice S kb = Some k \<and> value_from_slice S vb = Some v) items kvs'"
    using Cons.IH [OF rest] by blast
  then show ?case using raw kvs by (intro exI [of _ "(kb, vb) # items"]) simp
qed

text \<open>C37: Iterating forward from a key yields exactly the entries whose encoded key is not below the encoded
  start key in the byte order, in that order, for a schema without a prefix. The order of the keys themselves plays no part:
  with Borsh's little-endian integers an iteration forward from 2 skips the key 256.\<close>

theorem iteration_follows_encoding:
  assumes "rocks_ok R view sview" and "canonical S" and "rdb_fixed_prefix R db (sname S) = None"
    and "rocks_iterator R S hnd db (IterForward key) = Some (map (\<lambda>kv. Some (Inr kv)) kvs)"
  shows "sorted_wrt (<) (map (\<lambda>(k, v). key_to_vec S k) kvs) \<and>
    (\<forall>k v. (k, v) \<in> set kvs \<longleftrightarrow>
       key_to_vec S key \<le> key_to_vec S k \<and> typed_content S (seen view sview db (rh_snapshot hnd)) k = Some v)"
proof -
  let ?w = "seen view sview db (rh_snapshot hnd)" and ?mode = "RocksFrom (key_to_vec S key) Forward"
  obtain items where items: "rdb_iterator R db (rh_snapshot hnd) (sname S) ?mode = map Inr items"
    and dec: "list_all2 (\<lambda>(kb, vb) (k, v). key_from_slice S kb = Some k \<and> value_from_slice S vb = Some v) items kvs"
    using assms(4) decoded_items [of S] by (fastforce simp: rocks_iterator_def raw_iterator_def with_cf_def split: if_splits)
  obtain xs where xs: "bt_wf xs" "map_of xs = ?w (sname S)" "items = filter (\<lambda>p. key_to_vec S key \<le> fst p) xs"
    using iterator_entries [OF assms(1,3) items] by auto
  have can: "key_from_slice S kb = Some k \<longleftrightarrow> kb = key_to_vec S k" for kb k
    using assms(2) by (auto simp: canonical_def schema_ok_def)
  have dec': "list_all2 (\<lambda>(kb, vb) (k, v). kb = key_to_vec S k \<and> value_from_slice S vb = Some v) items kvs"
    using dec by (simp add: can)
  then have keys: "map (\<lambda>(k, v). key_to_vec S k) kvs = map fst items"
    by (induction rule: list_all2_induct) auto
  have "bt_wf items" using xs(1,3) by (simp add: bt_wf_filter)
  then have "sorted_wrt (<) (map (\<lambda>(k, v). key_to_vec S k) kvs)" unfolding keys bt_wf_def .
  moreover have "(k, v) \<in> set kvs \<longleftrightarrow> (\<exists>vb. (key_to_vec S k, vb) \<in> set items \<and> value_from_slice S vb = Some v)" for k v
  proof -
    have inj: "key_to_vec S a = key_to_vec S b \<longleftrightarrow> a = b" for a b
      using assms(2) key_to_vec_inj [of S a b] by (simp add: canonical_def)
    have "\<exists>vb. (key_to_vec S k, vb) \<in> set items \<and> value_from_slice S vb = Some v \<Longrightarrow> (k, v) \<in> set kvs"
      using dec' by (induction rule: list_all2_induct) (auto simp: inj)
    moreover have "(k, v) \<in> set kvs \<Longrightarrow> \<exists>vb. (key_to_vec S k, vb) \<in> set items \<and> value_from_slice S vb = Some v"
      using dec' by (induction rule: list_all2_induct) auto
    ultimately show ?thesis by blast
  qed
  moreover have "(kb, vb) \<in> set items \<longleftrightarrow> key_to_vec S key \<le> kb \<and> ?w (sname S) kb = Some vb" for kb vb
    using xs bt.entries_iff [OF xs(1), of kb vb] by auto
  ultimately show ?thesis by (auto simp: typed_content_def bind_Some_iff)
qed

subsection \<open>A concrete database\<close>

text \<open>Column families as finite maps; a snapshot is a copy.\<close>

type_synonym sample_db = "schema_name \<rightharpoonup> (bytes, bytes) fmap"

definition sample_view :: "sample_db \<Rightarrow> content" where
  "sample_view db cf = (case db cf of None \<Rightarrow> Map.empty | Some m \<Rightarrow> fmlookup m)"

definition sample_write_op :: "batch_op \<Rightarrow> sample_db \<Rightarrow> sample_db" where
  "sample_write_op op db =
     (case op of
        BatchPut cf k v \<Rightarrow> db(cf := map_option (fmupd k v) (db cf))
      | BatchDelete cf k \<Rightarrow> db(cf := map_option (fmdrop k) (db cf)))"

fun batch_cf :: "batch_op \<Rightarrow> schema_name" where
  "batch_cf (BatchPut cf k v) = cf"
| "batch_cf (BatchDelete cf k) = cf"

definition sample_write :: "sample_db \<Rightarrow> batch_op list \<Rightarrow> (string + unit) \<times> sample_db" where
  "sample_write db ops =
     (if \<forall>op \<in> set ops. db (batch_cf op) \<noteq> None then (Inr (), fold sample_write_op ops db)
      else (Inl ''no column family'', db))"

definition sample_rocks :: "(sample_db, sample_db) rocks" where
  "sample_rocks =
     \<lparr>rdb_open = (\<lambda>opts path cfs. Inr (\<lambda>cf. if cf \<in> cf_name ` set cfs then Some fmempty else None)),
      rdb_cf_handle = (\<lambda>db cf. db cf \<noteq> None),
      rdb_fixed_prefix = (\<lambda>db cf. None),
      rdb_get_pinned = (\<lambda>db so cf k. Inr (sample_view (case so of None \<Rightarrow> db | Some sn \<Rightarrow> sn) cf k)),
      rdb_batched_multi_get = (\<lambda>db so cf ks. map (\<lambda>k. Inr (sample_view (case so of None \<Rightarrow> db | Some sn \<Rightarrow> sn) cf k)) ks),
      rdb_iterator = (\<lambda>db so cf mode. map Inr (iterated mode
         (case (case so of None \<Rightarrow> db | Some sn \<Rightarrow> sn) cf of None \<Rightarrow> [] | Some m \<Rightarrow> sorted_list_of_fmap m))),
      rdb_put = (\<lambda>db cf k v. sample_write db [BatchPut cf k v]),
      rdb_delete = (\<lambda>db cf k. sample_write db [BatchDelete cf k]),
      rdb_write = sample_write,
      rdb_snapshot = (\<lambda>db. db)\<rparr>"

lemma sample_view_write_op:
  assumes "db (batch_cf op) \<noteq> None"
  shows "sample_view (sample_write_op op db) = apply_batch_op op (sample_view db)"
    and "(\<lambda>cf. sample_write_op op db cf \<noteq> None) = (\<lambda>cf. db cf \<noteq> None)"
  using assms by (cases op; auto simp: sample_view_def sample_write_op_def fun_eq_iff split: option.split)+

lemma sample_fold_write:
  assumes "\<forall>op \<in> set ops. db (batch_cf op) \<noteq> None"
  shows "sample_view (fold sample_write_op ops db) = apply_batch ops (sample_view db) \<and>
     (\<lambda>cf. fold sample_write_op ops db cf \<noteq> None) = (\<lambda>cf. db cf \<noteq> None)"
  using assms
proof (induction ops arbitrary: db)
  case Nil
  then show ?case by (simp add: apply_batch_def)
next
  case (Cons op ops)
  note step = sample_view_write_op [of db op]
  have "\<forall>op' \<in> set ops. sample_write_op op db (batch_cf op') \<noteq> None"
    using Cons.prems step(2) by (metis list.set_intros(1,2))
  then show ?case using Cons.IH [of "sample_write_op op db"] Cons.prems step by (simp add: apply_batch_def)
qed

lemma sample_wrote:
  "wrote sample_view (apply_batch ops (sample_view db)) db (sample_write db ops)"
  "(\<lambda>cf. snd (sample_write db ops) cf \<noteq> None) = (\<lambda>cf. db cf \<noteq> None)"
  using sample_fold_write [of ops db] by (simp_all add: wrote_def sample_write_def)

lemma sample_entries: "bt_wf (sorted_list_of_fmap m)"
proof -
  have "map fst (sorted_list_of_fmap m) = sorted_list_of_fset (fmdom m)"
    by (simp add: sorted_list_of_fmap_def comp_def)
  then show ?thesis by (simp add: bt_wf_def sorted_list_of_fset.rep_eq)
qed

lemma sample_rocks_ok: "rocks_ok sample_rocks sample_view sample_view"
  unfolding rocks_ok_def
proof (intro conjI)
  have entries: "\<exists>xs. bt_wf xs \<and> map_of xs = sample_view db cf \<and> items = iterated mode xs"
    if "map Inr (iterated mode (case db cf of None \<Rightarrow> [] | Some m \<Rightarrow> sorted_list_of_fmap m)) = map Inr items"
    for db cf mode items
    using that sample_entries
    by (intro exI [of _ "case db cf of None \<Rightarrow> [] | Some m \<Rightarrow> sorted_list_of_fmap m"])
      (auto simp: sample_view_def inj_map_eq_map split: option.splits)
  show "rocks_reads_ok sample_rocks sample_view sample_view"
    unfolding rocks_reads_ok_def sample_rocks_def seen_def
    by (auto simp: list_all2_conv_all_nth split: option.splits intro!: entries)
  have one: "wrote sample_view (apply_batch_op op (sample_view db)) db (sample_write db [op])" for op db
    using sample_wrote(1) [of "[op]" db] by (simp add: apply_batch_def)
  show "rocks_writes_ok sample_rocks sample_view"
    unfolding rocks_writes_ok_def by (simp add: sample_rocks_def one sample_wrote del: apply_batch_op.simps not_None_eq)
  show "rocks_open_ok sample_rocks" by (simp add: rocks_open_ok_def sample_rocks_def)
qed

text \<open>A schema from \<open>u64\<close> to \<open>u64\<close>, both encoded in eight little-endian bytes.\<close>

definition sample_decode :: "bytes \<Rightarrow> u64 option" where
  "sample_decode bs = (if bs = le64 (of_le64 bs) then Some (of_le64 bs) else None)"

definition sample_schema :: "(u64, u64) schema" where
  "sample_schema = define_schema ''numbers'' le64 sample_decode le64 sample_decode"

lemma sample_canonical: "canonical sample_schema"
  by (auto simp: canonical_def schema_ok_def sample_schema_def define_schema_def sample_decode_def)

text \<open>A database opened on this schema, with the values 10 and 20 at the keys 1 and 256.\<close>

definition sample_database :: sample_db where
  "sample_database = (\<lambda>cf. if cf = ''numbers'' then Some (fmupd (le64 256) (le64 20) (fmupd (le64 1) (le64 10) fmempty)) else None)"

lemmas sample_defs = sample_rocks_def sample_schema_def define_schema_def sample_decode_def sample_write_def
  sample_write_op_def sample_view_def full_access_def

lemma sample_database_made:
  "Option.bind (rocks_open sample_rocks ''path'' config_default [schema_meta sample_schema]) (\<lambda>(hnd, db).
     db_run sample_rocks sample_schema [KvPut 1 10, KvPut 256 20] db) = Some sample_database"
  by (auto simp: rocks_open_def open_options_def open_cf_def rocks_put_def raw_put_def with_cf_def sample_defs
      sample_database_def rocks_kv.run_ops.simps fun_eq_iff)

lemma sample_database_ok: "db_ok sample_rocks sample_view sample_view sample_schema (sample_view sample_database)"
proof -
  have "schema_ok sample_schema" using sample_canonical by (simp add: canonical_def)
  moreover have "well_typed sample_schema (sample_view sample_database)"
    by (auto simp: well_typed_def sample_defs sample_database_def split: if_splits)
  ultimately show ?thesis by (simp add: db_ok_def sample_rocks_ok)
qed

definition sample_tx :: transaction where
  "sample_tx = \<lparr>tx_changes = [(''numbers'', [(le64 1, Delete), (le64 2, Put (le64 30))])]\<rparr>"

lemma sample_tx_made: "tx_run sample_schema [KvPut 2 30, KvDelete 1] tx_new = Some sample_tx"
  by (simp add: tx_kv.run_ops.simps tx_put_def tx_delete_def tx_new_def record_change_def or_default_def sample_tx_def
      sample_schema_def define_schema_def le64_def upt_rec)

lemma sample_tx_wf: "changes_wf (tx_changes sample_tx)"
  using tx_kv.run_ops_content [OF tx_ok_new [OF sample_database_ok] sample_tx_made] by (simp add: tx_ok_def)

theorem commit_applies_overlay_witness:
  "\<exists>db'. commit sample_rocks sample_database sample_tx = Some (Inr (), db') \<and>
     sample_view db' = overlay (tx_changes sample_tx) (sample_view sample_database)"
proof -
  have "\<exists>db'. commit sample_rocks sample_database sample_tx = Some (Inr (), db')"
    by (simp add: commit_def raw_write_batch_def sample_tx_def sample_defs sample_database_def)
  then show ?thesis
    using commit_applies_overlay [OF sample_rocks_ok sample_tx_wf, of sample_database] by auto
qed

theorem transaction_equals_direct_writes_witness:
  "\<exists>db1 t db2. db_run sample_rocks sample_schema [KvPut 2 30, KvDelete 1] sample_database = Some db1 \<and>
     tx_run sample_schema [KvPut 2 30, KvDelete 1] tx_new = Some t \<and>
     commit sample_rocks sample_database t = Some (Inr (), db2) \<and>
     typed_content sample_schema (sample_view db2) = typed_content sample_schema (sample_view db1)"
proof -
  obtain db1 where db1: "db_run sample_rocks sample_schema [KvPut 2 30, KvDelete 1] sample_database = Some db1"
    by (simp add: rocks_kv.run_ops.simps rocks_put_def rocks_delete_def raw_put_def raw_delete_def with_cf_def sample_defs
        sample_database_def)
  moreover have "\<exists>db2. commit sample_rocks sample_database sample_tx = Some (Inr (), db2)"
    by (simp add: commit_def raw_write_batch_def sample_tx_def sample_defs sample_database_def)
  ultimately show ?thesis
    using transaction_equals_direct_writes [OF sample_database_ok db1] sample_tx_made by auto
qed

theorem write_batch_merges_witness:
  "\<exists>t' db''. tx_write_batch [(''numbers'', [(le64 2, Delete)])] sample_tx = Some (Inr (), t') \<and>
     changes_wf (tx_changes t') \<and> overlay (tx_changes t') (sample_view sample_database) = sample_view db''"
proof -
  obtain db' where db': "commit sample_rocks sample_database sample_tx = Some (Inr (), db')"
    by (simp add: commit_def raw_write_batch_def sample_tx_def sample_defs sample_database_def)
  then have view: "sample_view db' = overlay (tx_changes sample_tx) (sample_view sample_database)"
    using raw_write_batch_overlay [OF sample_rocks_ok sample_tx_wf] by (auto simp: commit_def)
  have wf: "changes_wf [(''numbers'', [(le64 2, Delete)])]"
    by (auto simp: chg.ninvar_def hm_wf_def bt_wf_def)
  obtain db'' where "rocks_write_batch sample_rocks [(''numbers'', [(le64 2, Delete)])] db' = Some (Inr (), db'')"
    using db' by (auto simp: rocks_write_batch_def commit_def raw_write_batch_def sample_tx_def sample_defs sample_database_def)
  from write_batch_merges [OF sample_rocks_ok sample_tx_wf wf _ view this] show ?thesis
    by (auto simp: tx_write_batch_def)
qed

theorem multi_get_reads_each_key_witness:
  "tx_multi_get sample_rocks sample_schema sample_database sample_tx [2, 1, 256] = Some (Inr [Some 30, None, Some 20]) \<and>
   map (typed_content sample_schema (overlay (tx_changes sample_tx) (sample_view sample_database))) [2, 1, 256] = [Some 30, None, Some 20]"
proof -
  have "tx_multi_get sample_rocks sample_schema sample_database sample_tx [2, 1, 256] = Some (Inr [Some 30, None, Some 20])"
    by (simp add: tx_multi_get_def sample_tx_def raw_get_def with_cf_def decode_result_def decode_value_def sample_defs sample_database_def
      inj_eq [OF le64_inj])
  then show ?thesis
    using multi_get_reads_each_key [OF sample_rocks_ok, of sample_schema sample_database sample_tx "[2, 1, 256]"]
    by (auto simp: sample_tx_def sample_schema_def define_schema_def)
qed

theorem iteration_follows_encoding_witness:
  "rocks_iterator sample_rocks sample_schema full_access sample_database (IterForward 2) = Some [] \<and>
   typed_content sample_schema (sample_view sample_database) 256 = Some 20 \<and>
   \<not> key_to_vec sample_schema 2 \<le> key_to_vec sample_schema 256"
proof -
  have none: "rocks_iterator sample_rocks sample_schema full_access sample_database (IterForward 2) = Some (map (\<lambda>kv. Some (Inr kv)) [])"
    by (simp add: rocks_iterator_def raw_iterator_def with_cf_def sample_defs sample_database_def
      sorted_list_of_fmap_def sorted_list_of_fset.rep_eq le64_def upt_rec)
  have plain: "rdb_fixed_prefix sample_rocks sample_database (sname sample_schema) = None" by (simp add: sample_rocks_def)
  have found: "typed_content sample_schema (sample_view sample_database) 256 = Some 20"
    by (simp add: typed_content_def sample_defs sample_database_def)
  show ?thesis
    using iteration_follows_encoding [OF sample_rocks_ok sample_canonical plain none] none found by (auto simp: full_access_def seen_def)
qed

end
