(* ===== verification/Txpool.thy ===== *)
theory Txpool
  imports Collections Primitives "HOL-Library.Product_Lexorder"
begin

text \<open>
  The transaction pool (\<open>crates/txpool\<close>). The transaction types it imports from
  \<open>tonic-primitives\<close> and the integer type \<open>U256\<close> of \<open>crypto-bigint\<close> are not part of the sources:
  they are a parameter, the record \<open>tx_ext\<close> of the accessors the pool calls. \<open>None\<close> is a panic.
  The flag \<open>checks\<close> says whether the build checks arithmetic for overflow (a debug build panics,
  a release build wraps around).
\<close>

subsection \<open>Transactions from outside\<close>

text \<open>What a \<open>match\<close> on \<open>Transaction\<close> reads: the fee fields and the gas limit.\<close>

datatype tx_kind = Legacy u128 u64 | Eip1559 u128 u128 u64 | OtherTx

record ('tx, 'u) tx_ext =
  x_signer :: "'tx \<Rightarrow> address"
  x_nonce :: "'tx \<Rightarrow> u64"
  x_gas_limit :: "'tx \<Rightarrow> u64"
  x_max_fee_per_gas :: "'tx \<Rightarrow> u128"
  x_max_priority_fee_per_gas :: "'tx \<Rightarrow> u128 option"
  x_value :: "'tx \<Rightarrow> 'u"
  x_kind :: "'tx \<Rightarrow> tx_kind"
  u256_from_u128 :: "u128 \<Rightarrow> 'u"
  u256_from_u64 :: "u64 \<Rightarrow> 'u"
  u256_saturating_mul :: "'u \<Rightarrow> 'u \<Rightarrow> 'u"
  u256_saturating_add :: "'u \<Rightarrow> 'u \<Rightarrow> 'u"
  u256_ge :: "'u \<Rightarrow> 'u \<Rightarrow> bool"
  u256_default :: 'u

text \<open>Arithmetic on \<open>u128\<close> in a build with or without overflow checks.\<close>

definition u128_add :: "bool \<Rightarrow> u128 \<Rightarrow> u128 \<Rightarrow> u128 option" where
  "u128_add checks a b = (if checks \<and> unat a + unat b \<ge> 2 ^ 128 then None else Some (a + b))"

definition u128_mul :: "bool \<Rightarrow> u128 \<Rightarrow> u128 \<Rightarrow> u128 option" where
  "u128_mul checks a b = (if checks \<and> unat a * unat b \<ge> 2 ^ 128 then None else Some (a * b))"

definition u128_sub :: "bool \<Rightarrow> u128 \<Rightarrow> u128 \<Rightarrow> u128 option" where
  "u128_sub checks a b = (if checks \<and> a < b then None else Some (a - b))"

subsection \<open>Pooled transactions (transaction.rs)\<close>

text \<open>The hand-written \<open>Ord\<close>: by sender, then by nonce.\<close>

datatype transaction_id = TransactionId (tid_sender: address) (tid_nonce: u64)

instantiation transaction_id :: linorder
begin

definition less_eq_transaction_id :: "transaction_id \<Rightarrow> transaction_id \<Rightarrow> bool" where
  "less_eq_transaction_id a b \<longleftrightarrow>
     tid_sender a < tid_sender b \<or> tid_sender a = tid_sender b \<and> tid_nonce a \<le> tid_nonce b"

definition less_transaction_id :: "transaction_id \<Rightarrow> transaction_id \<Rightarrow> bool" where
  "less_transaction_id a b \<longleftrightarrow>
     tid_sender a < tid_sender b \<or> tid_sender a = tid_sender b \<and> tid_nonce a < tid_nonce b"

instance
  by standard (auto simp: less_eq_transaction_id_def less_transaction_id_def transaction_id.expand)

end

record ('tx, 'u) pooled_transaction =
  pt_tx :: 'tx
  pt_tx_id :: transaction_id
  pt_timestamp :: nat
  pt_cost :: 'u

text \<open>\<open>From<TransactionSignedEcRecovered>\<close>; \<open>now\<close> is the reading of the clock.\<close>

definition pooled_from :: "('tx, 'u) tx_ext \<Rightarrow> nat \<Rightarrow> 'tx \<Rightarrow> ('tx, 'u) pooled_transaction option" where
  "pooled_from X now tx =
     (let tx_id = TransactionId (x_signer X tx) (x_nonce X tx);
          gas_cost = (case x_kind X tx of
            Legacy gas_price gas_limit \<Rightarrow> Some (u256_saturating_mul X (u256_from_u128 X gas_price) (u256_from_u64 X gas_limit))
          | Eip1559 max_fee max_priority gas_limit \<Rightarrow>
              Some (u256_saturating_mul X (u256_from_u128 X max_fee) (u256_from_u64 X gas_limit))
          | OtherTx \<Rightarrow> None)
      in case gas_cost of
           None \<Rightarrow> None
         | Some gc \<Rightarrow> Some \<lparr>pt_tx = tx, pt_tx_id = tx_id, pt_timestamp = now, pt_cost = u256_saturating_add X (x_value X tx) gc\<rparr>)"

abbreviation pt_nonce :: "('tx, 'u) tx_ext \<Rightarrow> ('tx, 'u) pooled_transaction \<Rightarrow> u64" where
  "pt_nonce X t \<equiv> x_nonce X (pt_tx t)"

abbreviation pt_max_fee :: "('tx, 'u) tx_ext \<Rightarrow> ('tx, 'u) pooled_transaction \<Rightarrow> u128" where
  "pt_max_fee X t \<equiv> x_max_fee_per_gas X (pt_tx t)"

text \<open>\<open>replacement < self * (100 + price_bump_percentage) / 100\<close>.\<close>

definition below_bump :: "bool \<Rightarrow> u128 \<Rightarrow> u128 \<Rightarrow> u128 \<Rightarrow> bool option" where
  "below_bump checks own replacement price_bump_percentage =
     Option.bind (u128_add checks 100 price_bump_percentage) (\<lambda>factor.
     Option.bind (u128_mul checks own factor) (\<lambda>product. Some (replacement < product div 100)))"

definition is_underpriced ::
    "('tx, 'u) tx_ext \<Rightarrow> bool \<Rightarrow> ('tx, 'u) pooled_transaction \<Rightarrow> ('tx, 'u) pooled_transaction \<Rightarrow> u128 \<Rightarrow> bool option" where
  "is_underpriced X checks t replacement price_bump_percentage =
     Option.bind (below_bump checks (pt_max_fee X t) (pt_max_fee X replacement) price_bump_percentage) (\<lambda>below.
       if below then Some True
       else case (x_max_priority_fee_per_gas X (pt_tx t), x_max_priority_fee_per_gas X (pt_tx replacement)) of
              (Some self_priority, Some replacement_priority) \<Rightarrow>
                below_bump checks self_priority replacement_priority price_bump_percentage
            | _ \<Rightarrow> Some False)"

subsection \<open>The ordered set of the standard library\<close>

datatype ordering = Less | Equal | Greater

text \<open>
  A \<open>BTreeSet\<close> whose order is given by a comparison: the ascending list of its elements. Inserting
  an element equal to a present one changes nothing.
\<close>

fun bs_insert :: "('a \<Rightarrow> 'a \<Rightarrow> ordering) \<Rightarrow> 'a \<Rightarrow> 'a list \<Rightarrow> 'a list" where
  "bs_insert cmp x [] = [x]"
| "bs_insert cmp x (y # ys) =
     (case cmp x y of Less \<Rightarrow> x # y # ys | Equal \<Rightarrow> y # ys | Greater \<Rightarrow> y # bs_insert cmp x ys)"

definition bs_remove :: "('a \<Rightarrow> 'a \<Rightarrow> ordering) \<Rightarrow> 'a \<Rightarrow> 'a list \<Rightarrow> 'a list" where
  "bs_remove cmp x ys = filter (\<lambda>y. cmp x y \<noteq> Equal) ys"

locale ordered_set =
  fixes cmp :: "'a \<Rightarrow> 'a \<Rightarrow> ordering" and key :: "'a \<Rightarrow> 'k :: linorder"
  assumes cmp_key: "cmp x y = (if key x < key y then Less else if key x = key y then Equal else Greater)"
begin

definition bs_wf :: "'a list \<Rightarrow> bool" where
  "bs_wf ys \<longleftrightarrow> sorted_wrt (<) (map key ys)"

lemma cmp_Equal: "cmp x y = Equal \<longleftrightarrow> key x = key y"
  by (simp add: cmp_key [of x y])

lemma bs_insert_Cons:
  "bs_insert cmp x (y # ys) = (if key x < key y then x # y # ys else if key x = key y then y # ys else y # bs_insert cmp x ys)"
  by (simp add: cmp_key [of x y])

lemma set_insert:
  assumes "key x \<notin> key ` set ys"
  shows "set (bs_insert cmp x ys) = insert x (set ys)"
  using assms by (induction ys) (auto simp: bs_insert_Cons simp del: bs_insert.simps(2))

lemma keys_insert: "key ` set (bs_insert cmp x ys) = insert (key x) (key ` set ys)"
  by (induction ys) (auto simp: bs_insert_Cons simp del: bs_insert.simps(2))

lemma wf_insert: "bs_wf ys \<Longrightarrow> bs_wf (bs_insert cmp x ys)"
proof (induction ys)
  case (Cons y ys)
  have "\<forall>k \<in> key ` set (bs_insert cmp x ys). key y < k" if "key y < key x"
    using that Cons.prems unfolding keys_insert by (auto simp: bs_wf_def)
  then show ?case using Cons by (auto simp: bs_wf_def bs_insert_Cons simp del: bs_insert.simps(2))
qed (simp add: bs_wf_def)

lemma wf_remove: "bs_wf ys \<Longrightarrow> bs_wf (bs_remove cmp x ys)"
  by (induction ys) (auto simp: bs_wf_def bs_remove_def)

lemma wf_inj: "bs_wf ys \<Longrightarrow> y \<in> set ys \<Longrightarrow> z \<in> set ys \<Longrightarrow> key y = key z \<Longrightarrow> y = z"
  by (auto simp: bs_wf_def strict_sorted_iff distinct_map dest: inj_onD)

lemma set_remove:
  assumes "bs_wf ys" and "x \<in> set ys"
  shows "set (bs_remove cmp x ys) = set ys - {x}"
  using wf_inj [OF assms(1) assms(2)] by (auto simp: bs_remove_def cmp_Equal)

end

subsection \<open>Pending and parked pools (pending.rs, parked.rs)\<close>

record ('tx, 'u) pending_transaction =
  pd_submission_id :: u64
  pd_tx :: "('tx, 'u) pooled_transaction"
  pd_priority :: u128

definition pending_new :: "u64 \<Rightarrow> ('tx, 'u) pooled_transaction \<Rightarrow> u128 \<Rightarrow> ('tx, 'u) pending_transaction" where
  "pending_new submission_id tx priority = \<lparr>pd_submission_id = submission_id, pd_tx = tx, pd_priority = priority\<rparr>"

abbreviation pd_id :: "('tx, 'u) pending_transaction \<Rightarrow> transaction_id" where
  "pd_id p \<equiv> pt_tx_id (pd_tx p)"

definition cmp_of :: "'a :: linorder \<Rightarrow> 'a \<Rightarrow> ordering" where
  "cmp_of a b = (if a < b then Less else if a = b then Equal else Greater)"

text \<open>By priority; for equal priorities the earlier submission is the greater.\<close>

definition pending_cmp :: "('tx, 'u) pending_transaction \<Rightarrow> ('tx, 'u) pending_transaction \<Rightarrow> ordering" where
  "pending_cmp a b =
     (case cmp_of (pd_priority a) (pd_priority b) of
        Equal \<Rightarrow> cmp_of (pd_submission_id b) (pd_submission_id a)
      | ord \<Rightarrow> ord)"

record ('tx, 'u) pending_pool =
  pp_submission_id :: u64
  pp_by_id :: "(transaction_id, ('tx, 'u) pending_transaction) btree_map"
  pp_all :: "('tx, 'u) pending_transaction list"

definition pending_pool_new :: "('tx, 'u) pending_pool" where
  "pending_pool_new = \<lparr>pp_submission_id = 0, pp_by_id = [], pp_all = []\<rparr>"

definition priority_by_tip :: "('tx, 'u) tx_ext \<Rightarrow> bool \<Rightarrow> ('tx, 'u) pooled_transaction \<Rightarrow> u128 \<Rightarrow> u128 option" where
  "priority_by_tip X checks tx base_fee =
     (if pt_max_fee X tx \<ge> base_fee
      then case x_kind X (pt_tx tx) of
             Legacy gas_price gas_limit \<Rightarrow> u128_sub checks gas_price base_fee
           | Eip1559 max_fee max_priority gas_limit \<Rightarrow>
               map_option (\<lambda>tip. min tip max_priority) (u128_sub checks max_fee base_fee)
           | OtherTx \<Rightarrow> None
      else None)"

definition next_submission_id :: "('tx, 'u) pending_pool \<Rightarrow> u64 \<times> ('tx, 'u) pending_pool" where
  "next_submission_id pool = (pp_submission_id pool, pool\<lparr>pp_submission_id := pp_submission_id pool + 1\<rparr>)"

definition pending_contains :: "('tx, 'u) pending_pool \<Rightarrow> transaction_id \<Rightarrow> bool" where
  "pending_contains pool tx_id \<longleftrightarrow> map_of (pp_by_id pool) tx_id \<noteq> None"

definition pending_add ::
    "('tx, 'u) tx_ext \<Rightarrow> bool \<Rightarrow> ('tx, 'u) pooled_transaction \<Rightarrow> u128 \<Rightarrow> ('tx, 'u) pending_pool \<Rightarrow> ('tx, 'u) pending_pool option" where
  "pending_add X checks tx base_fee pool =
     (if pending_contains pool (pt_tx_id tx) then None
      else let (submission_id, pool1) = next_submission_id pool in
        map_option (\<lambda>priority.
          let pending_tx = pending_new submission_id tx priority in
          pool1\<lparr>pp_by_id := bt_insert (pd_id pending_tx) pending_tx (pp_by_id pool1),
                pp_all := bs_insert pending_cmp pending_tx (pp_all pool1)\<rparr>)
        (priority_by_tip X checks tx base_fee))"

definition pending_remove :: "transaction_id \<Rightarrow> ('tx, 'u) pending_pool \<Rightarrow> ('tx, 'u) pending_pool option" where
  "pending_remove tx_id pool =
     (case map_of (pp_by_id pool) tx_id of
        None \<Rightarrow> None
      | Some removed_tx \<Rightarrow>
          Some (pool\<lparr>pp_by_id := bt_remove tx_id (pp_by_id pool), pp_all := bs_remove pending_cmp removed_tx (pp_all pool)\<rparr>))"

text \<open>Both operations of a parked pool are \<open>todo!()\<close>.\<close>

datatype parked_pool = ParkedPool

definition parked_add :: "('tx, 'u) pooled_transaction \<Rightarrow> parked_pool \<Rightarrow> parked_pool option" where
  "parked_add tx pool = None"

definition parked_remove :: "transaction_id \<Rightarrow> parked_pool \<Rightarrow> parked_pool option" where
  "parked_remove tx_id pool = None"

subsection \<open>All transactions (txpool.rs)\<close>

record txpool_config =
  min_protocol_basefee :: u128
  max_tx_count :: u64
  max_tx_per_account :: u64
  max_pool_size :: u64
  block_gas_limit :: u64
  price_bump_percentage :: u128

datatype subpool = Pending | Queued | Basefee

datatype add_transaction_error =
    FeeBelowMinimumProtocolFee
  | GasLimitExceedsBlockGasLimit
  | NonceTooLow
  | ReplacementTxUnderpriced

datatype transaction_pool_error = AddTransactionError add_transaction_error

record ('tx, 'u) all_transactions =
  at_config :: txpool_config
  at_txs :: "(transaction_id, ('tx, 'u) pooled_transaction \<times> subpool) btree_map"
  at_basefee :: u128

record ('tx, 'u) add_transaction_ok =
  ok_tx :: "('tx, 'u) pooled_transaction"
  ok_subpool :: subpool
  ok_replaced_tx :: "(('tx, 'u) pooled_transaction \<times> subpool) option"

definition all_new :: "txpool_config \<Rightarrow> ('tx, 'u) all_transactions" where
  "all_new config = \<lparr>at_config = config, at_txs = [], at_basefee = 0\<rparr>"

definition validate_tx ::
    "('tx, 'u) tx_ext \<Rightarrow> ('tx, 'u) all_transactions \<Rightarrow> ('tx, 'u) pooled_transaction \<Rightarrow> add_transaction_error + unit" where
  "validate_tx X al tx =
     (if pt_max_fee X tx < min_protocol_basefee (at_config al) then Inl FeeBelowMinimumProtocolFee
      else if x_gas_limit X (pt_tx tx) > block_gas_limit (at_config al) then Inl GasLimitExceedsBlockGasLimit
      else Inr ())"

definition select_subpool ::
    "('tx, 'u) tx_ext \<Rightarrow> ('tx, 'u) all_transactions \<Rightarrow> ('tx, 'u) pooled_transaction \<Rightarrow> u64 \<Rightarrow> 'u \<Rightarrow> add_transaction_error + subpool" where
  "select_subpool X al tx on_chain_nonce on_chain_balance =
     (case cmp_of (pt_nonce X tx) on_chain_nonce of
        Equal \<Rightarrow>
          if u256_ge X on_chain_balance (pt_cost tx)
          then if pt_max_fee X tx \<ge> at_basefee al then Inr Pending else Inr Basefee
          else Inr Queued
      | Greater \<Rightarrow> Inr Queued
      | Less \<Rightarrow> Inl NonceTooLow)"

definition all_add ::
    "('tx, 'u) tx_ext \<Rightarrow> bool \<Rightarrow> ('tx, 'u) pooled_transaction \<Rightarrow> u64 \<Rightarrow> 'u \<Rightarrow> ('tx, 'u) all_transactions \<Rightarrow>
     ((add_transaction_error + ('tx, 'u) add_transaction_ok) \<times> ('tx, 'u) all_transactions) option" where
  "all_add X checks tx on_chain_nonce on_chain_balance al =
     (case validate_tx X al tx of
        Inl e \<Rightarrow> Some (Inl e, al)
      | Inr _ \<Rightarrow>
          (case select_subpool X al tx on_chain_nonce on_chain_balance of
             Inl e \<Rightarrow> Some (Inl e, al)
           | Inr sp \<Rightarrow>
               let inserted = al\<lparr>at_txs := bt_insert (pt_tx_id tx) (tx, sp) (at_txs al)\<rparr> in
               (case map_of (at_txs al) (pt_tx_id tx) of
                  None \<Rightarrow> Some (Inr \<lparr>ok_tx = tx, ok_subpool = sp, ok_replaced_tx = None\<rparr>, inserted)
                | Some existing_tx \<Rightarrow>
                    (case is_underpriced X checks (fst existing_tx) tx (price_bump_percentage (at_config al)) of
                       None \<Rightarrow> None
                     | Some True \<Rightarrow> Some (Inl ReplacementTxUnderpriced, al)
                     | Some False \<Rightarrow>
                         Some (Inr \<lparr>ok_tx = tx, ok_subpool = sp, ok_replaced_tx = Some existing_tx\<rparr>, inserted)))))"

subsection \<open>The pool (txpool.rs)\<close>

record 'u account_info =
  ai_nonce :: u64
  ai_balance :: 'u

definition account_update :: "u64 \<Rightarrow> 'u \<Rightarrow> 'u account_info \<Rightarrow> 'u account_info" where
  "account_update nonce balance ai = ai\<lparr>ai_nonce := nonce, ai_balance := balance\<rparr>"

record ('tx, 'u) transaction_pool =
  tp_pending :: "('tx, 'u) pending_pool"
  tp_queued :: parked_pool
  tp_basefee :: parked_pool
  tp_all :: "('tx, 'u) all_transactions"
  tp_account_info :: "(address, 'u account_info) hash_map"

definition pool_new :: "txpool_config \<Rightarrow> ('tx, 'u) transaction_pool" where
  "pool_new config =
     \<lparr>tp_pending = pending_pool_new, tp_queued = ParkedPool, tp_basefee = ParkedPool, tp_all = all_new config,
      tp_account_info = []\<rparr>"

definition add_to_subpool ::
    "('tx, 'u) tx_ext \<Rightarrow> bool \<Rightarrow> ('tx, 'u) pooled_transaction \<Rightarrow> subpool \<Rightarrow> ('tx, 'u) transaction_pool \<Rightarrow> ('tx, 'u) transaction_pool option" where
  "add_to_subpool X checks tx sp pool =
     (case sp of
        Pending \<Rightarrow> map_option (\<lambda>pp. pool\<lparr>tp_pending := pp\<rparr>) (pending_add X checks tx (at_basefee (tp_all pool)) (tp_pending pool))
      | Queued \<Rightarrow> map_option (\<lambda>q. pool\<lparr>tp_queued := q\<rparr>) (parked_add tx (tp_queued pool))
      | Basefee \<Rightarrow> map_option (\<lambda>q. pool\<lparr>tp_basefee := q\<rparr>) (parked_add tx (tp_basefee pool)))"

definition remove_from_subpool ::
    "transaction_id \<Rightarrow> subpool \<Rightarrow> ('tx, 'u) transaction_pool \<Rightarrow> ('tx, 'u) transaction_pool option" where
  "remove_from_subpool tx_id sp pool =
     (case sp of
        Pending \<Rightarrow> map_option (\<lambda>pp. pool\<lparr>tp_pending := pp\<rparr>) (pending_remove tx_id (tp_pending pool))
      | Queued \<Rightarrow> map_option (\<lambda>q. pool\<lparr>tp_queued := q\<rparr>) (parked_remove tx_id (tp_queued pool))
      | Basefee \<Rightarrow> map_option (\<lambda>q. pool\<lparr>tp_basefee := q\<rparr>) (parked_remove tx_id (tp_basefee pool)))"

definition update_account ::
    "('tx, 'u) tx_ext \<Rightarrow> address \<Rightarrow> u64 \<Rightarrow> 'u \<Rightarrow> ('tx, 'u) transaction_pool \<Rightarrow> ('tx, 'u) transaction_pool" where
  "update_account X signer nonce balance pool =
     (let ai = (case map_of (tp_account_info pool) signer of
                  None \<Rightarrow> \<lparr>ai_nonce = 0, ai_balance = u256_default X\<rparr> | Some ai \<Rightarrow> ai)
      in pool\<lparr>tp_account_info := hm_insert signer (account_update nonce balance ai) (tp_account_info pool)\<rparr>)"

definition pool_add ::
    "('tx, 'u) tx_ext \<Rightarrow> bool \<Rightarrow> ('tx, 'u) pooled_transaction \<Rightarrow> u64 \<Rightarrow> 'u \<Rightarrow> ('tx, 'u) transaction_pool \<Rightarrow>
     ((transaction_pool_error + unit) \<times> ('tx, 'u) transaction_pool) option" where
  "pool_add X checks tx on_chain_nonce on_chain_balance pool =
     (let pool1 = update_account X (x_signer X (pt_tx tx)) on_chain_nonce on_chain_balance pool in
      case all_add X checks tx on_chain_nonce on_chain_balance (tp_all pool1) of
        None \<Rightarrow> None
      | Some (Inl e, al) \<Rightarrow> Some (Inl (AddTransactionError e), pool1\<lparr>tp_all := al\<rparr>)
      | Some (Inr added, al) \<Rightarrow>
          let pool2 = pool1\<lparr>tp_all := al\<rparr> in
          Option.bind (case ok_replaced_tx added of
                         None \<Rightarrow> Some pool2
                       | Some (replaced_tx, replaced_subpool) \<Rightarrow> remove_from_subpool (pt_tx_id replaced_tx) replaced_subpool pool2)
            (\<lambda>pool3. map_option (Pair (Inr ())) (add_to_subpool X checks (ok_tx added) (ok_subpool added) pool3)))"

subsection \<open>The pending pool keeps its indexes in step\<close>

interpretation pend: ordered_set pending_cmp "\<lambda>p. (pd_priority p, - uint (pd_submission_id p))"
  by unfold_locales
    (auto simp: pending_cmp_def cmp_of_def less_prod_def word_less_def word_le_def word_uint_eq_iff split: ordering.splits)

text \<open>
  Both indexes hold the same transactions, the set in ascending order of priority and, for equal
  priorities, with the earlier submission last; every submission id is below the counter, and
  every priority is the tip the transaction offers without a base fee.
\<close>

definition pending_inv :: "('tx, 'u) tx_ext \<Rightarrow> bool \<Rightarrow> ('tx, 'u) pending_pool \<Rightarrow> bool" where
  "pending_inv X checks pp \<longleftrightarrow>
     bt_wf (pp_by_id pp) \<and> pend.bs_wf (pp_all pp) \<and> set (pp_all pp) = ran (map_of (pp_by_id pp)) \<and>
     (\<forall>tx_id p. map_of (pp_by_id pp) tx_id = Some p \<longrightarrow>
        pd_id p = tx_id \<and> pd_submission_id p < pp_submission_id pp \<and>
        priority_by_tip X checks (pd_tx p) 0 = Some (pd_priority p))"

lemma pending_inv_new: "pending_inv X checks pending_pool_new"
  by (simp add: pending_inv_def pending_pool_new_def pend.bs_wf_def)

lemma word_less_Suc:
  fixes a b :: "'a :: len word"
  assumes "b \<noteq> - 1"
  shows "a < b + 1 \<longleftrightarrow> a \<le> b"
  using word_succ_le [OF assms, of "a"] by (simp add: not_le [symmetric])

lemma pending_add_laws:
  assumes "pending_inv X checks pp" and "map_of (pp_by_id pp) (pt_tx_id tx) = None" and "pp_submission_id pp \<noteq> - 1"
    and "priority_by_tip X checks tx 0 = Some pr"
  shows "\<exists>pp'. pending_add X checks tx 0 pp = Some pp' \<and> pending_inv X checks pp' \<and>
     map_of (pp_by_id pp') = (map_of (pp_by_id pp))(pt_tx_id tx \<mapsto> pending_new (pp_submission_id pp) tx pr)"
proof -
  let ?new = "pending_new (pp_submission_id pp) tx pr"
  let ?pp = "\<lparr>pp_submission_id = pp_submission_id pp + 1, pp_by_id = bt_insert (pt_tx_id tx) ?new (pp_by_id pp),
    pp_all = bs_insert pending_cmp ?new (pp_all pp)\<rparr>"
  have bt: "map_of (pp_by_id ?pp) = (map_of (pp_by_id pp))(pt_tx_id tx \<mapsto> ?new)" "bt_wf (pp_by_id ?pp)"
    using assms(1) by (simp_all add: pending_inv_def map_of_bt_insert bt_wf_insert)
  have old: "pd_id p = tx_id \<and> pd_submission_id p < pp_submission_id pp" if "map_of (pp_by_id pp) tx_id = Some p" for tx_id p
    using assms(1) that by (simp add: pending_inv_def)
  have "(pd_priority ?new, - uint (pd_submission_id ?new)) \<notin> (\<lambda>p. (pd_priority p, - uint (pd_submission_id p))) ` set (pp_all pp)"
    using assms(1) old by (fastforce simp: pending_inv_def pending_new_def ran_def word_less_def)
  from pend.set_insert [OF this] have "set (pp_all ?pp) = ran (map_of (pp_by_id ?pp))"
    unfolding bt(1) using assms(1,2) by (simp add: pending_inv_def)
  moreover have "pend.bs_wf (pp_all ?pp)" using assms(1) by (simp add: pending_inv_def pend.wf_insert)
  moreover have "pd_id p = tx_id \<and> pd_submission_id p < pp_submission_id ?pp \<and> priority_by_tip X checks (pd_tx p) 0 = Some (pd_priority p)"
    if "map_of (pp_by_id ?pp) tx_id = Some p" for tx_id p
    using that assms(1,4) old [of tx_id p] unfolding bt(1)
    by (auto simp: pending_inv_def pending_new_def word_less_Suc [OF assms(3)] intro: less_imp_le split: if_splits)
  ultimately have "pending_inv X checks ?pp" using bt(2) unfolding pending_inv_def by blast
  then show ?thesis using assms(2,4) bt(1)
    by (intro exI [of _ ?pp]) (simp add: pending_add_def pending_contains_def next_submission_id_def pending_new_def Let_def)
qed

lemma ran_remove:
  assumes "m k = Some p" and "\<And>i. m i = Some p \<Longrightarrow> i = k"
  shows "ran m - {p} = ran (m(k := None))"
proof -
  have "m i = Some q \<and> q \<noteq> p \<longleftrightarrow> (m(k := None)) i = Some q" for i q
  proof (cases "i = k")
    case False
    then have "m i \<noteq> Some p" using assms(2) by blast
    then show ?thesis using False by auto
  qed (use assms(1) in auto)
  then show ?thesis unfolding ran_def by blast
qed

lemma pending_remove_laws:
  assumes "pending_inv X checks pp" and "map_of (pp_by_id pp) tx_id = Some p"
  shows "\<exists>pp'. pending_remove tx_id pp = Some pp' \<and> pending_inv X checks pp' \<and>
     pp_submission_id pp' = pp_submission_id pp \<and> map_of (pp_by_id pp') = (map_of (pp_by_id pp))(tx_id := None)"
proof -
  let ?pp = "pp\<lparr>pp_by_id := bt_remove tx_id (pp_by_id pp), pp_all := bs_remove pending_cmp p (pp_all pp)\<rparr>"
  have bt: "map_of (pp_by_id ?pp) = (map_of (pp_by_id pp))(tx_id := None)" "bt_wf (pp_by_id ?pp)"
    using assms(1) bt.lookup_remove [of "pp_by_id pp"] bt.invar_remove [of "pp_by_id pp"] by (auto simp: pending_inv_def fun_eq_iff)
  have inj: "map_of (pp_by_id pp) i = Some q \<Longrightarrow> pd_id q = i" for i q using assms(1) by (simp add: pending_inv_def)
  have "p \<in> set (pp_all pp)" using assms by (auto simp: pending_inv_def ran_def)
  then have "set (pp_all ?pp) = ran (map_of (pp_by_id pp)) - {p}"
    using pend.set_remove [of "pp_all pp" p] assms(1) by (simp add: pending_inv_def)
  also have "\<dots> = ran (map_of (pp_by_id ?pp))"
    unfolding bt(1) using ran_remove [where m = "map_of (pp_by_id pp)", OF assms(2)] inj assms(2) by metis
  finally have "pending_inv X checks ?pp"
    using assms(1) bt pend.wf_remove [of "pp_all pp" p] by (auto simp: pending_inv_def)
  then show ?thesis using assms(2) bt(1) by (intro exI [of _ ?pp]) (simp add: pending_remove_def)
qed

subsection \<open>The pool as a map from ids to transactions\<close>

definition pool_txs :: "('tx, 'u) transaction_pool \<Rightarrow> transaction_id \<Rightarrow> ('tx, 'u) pooled_transaction option" where
  "pool_txs pool tx_id = map_option fst (map_of (at_txs (tp_all pool)) tx_id)"

text \<open>
  Every transaction of the pool passed validation and is in the pending pool, and nothing else
  is; the base fee is zero, as no operation sets it.
\<close>

definition pool_inv :: "('tx, 'u) tx_ext \<Rightarrow> bool \<Rightarrow> ('tx, 'u) transaction_pool \<Rightarrow> bool" where
  "pool_inv X checks pool \<longleftrightarrow>
     pending_inv X checks (tp_pending pool) \<and> bt_wf (at_txs (tp_all pool)) \<and> hm_wf (tp_account_info pool) \<and>
     at_basefee (tp_all pool) = 0 \<and>
     map_of (at_txs (tp_all pool)) = map_option (\<lambda>p. (pd_tx p, Pending)) \<circ> map_of (pp_by_id (tp_pending pool)) \<and>
     (\<forall>tx_id t. pool_txs pool tx_id = Some t \<longrightarrow> validate_tx X (tp_all pool) t = Inr ())"

lemma pool_inv_new: "pool_inv X checks (pool_new config)"
  by (auto simp: pool_inv_def pool_new_def pending_inv_new all_new_def pool_txs_def pending_pool_new_def fun_eq_iff
      pending_inv_def pend.bs_wf_def)

lemma pooled_from_laws:
  assumes "pooled_from X now raw = Some tx"
  shows "pt_tx_id tx = TransactionId (x_signer X (pt_tx tx)) (pt_nonce X tx)" and "\<exists>pr. priority_by_tip X checks tx 0 = Some pr"
  using assms by (auto simp: pooled_from_def priority_by_tip_def u128_sub_def Let_def split: option.splits tx_kind.splits)

lemma update_account_fields [simp]:
  "tp_pending (update_account X a n b pool) = tp_pending pool"
  "tp_all (update_account X a n b pool) = tp_all pool"
  "hm_wf (tp_account_info pool) \<Longrightarrow> hm_wf (tp_account_info (update_account X a n b pool))"
  "map_of (tp_account_info (update_account X a n b pool)) = (map_of (tp_account_info pool))(a \<mapsto> \<lparr>ai_nonce = n, ai_balance = b\<rparr>)"
  by (auto simp: update_account_def account_update_def Let_def map_of_hm_insert wf_intros split: option.splits)

lemma validate_config: "at_config al = at_config al' \<Longrightarrow> validate_tx X al t = validate_tx X al' t"
  by (simp add: validate_tx_def)

text \<open>The part of \<open>add_transaction\<close> behind the checks, for a transaction that goes to the pending pool.\<close>

lemma pool_store_pending:
  assumes "pool_inv X checks pool" and "pooled_from X now raw = Some tx" and "pp_submission_id (tp_pending pool) \<noteq> - 1"
    and "validate_tx X (tp_all pool) tx = Inr ()"
    and "pool2 = (update_account X a n b pool)\<lparr>tp_all := (tp_all pool)\<lparr>at_txs := bt_insert (pt_tx_id tx) (tx, Pending) (at_txs (tp_all pool))\<rparr>\<rparr>"
  shows "\<exists>pool'. Option.bind (case map_of (at_txs (tp_all pool)) (pt_tx_id tx) of
        None \<Rightarrow> Some pool2
      | Some (replaced_tx, replaced_subpool) \<Rightarrow> remove_from_subpool (pt_tx_id replaced_tx) replaced_subpool pool2)
        (add_to_subpool X checks tx Pending) = Some pool' \<and>
      pool_inv X checks pool' \<and> pool_txs pool' = (pool_txs pool)(pt_tx_id tx \<mapsto> tx) \<and>
      map_of (tp_account_info pool') = map_of (tp_account_info pool2)"
proof -
  let ?id = "pt_tx_id tx" and ?pp = "tp_pending pool"
  obtain pr where pr: "priority_by_tip X checks tx 0 = Some pr" using pooled_from_laws(2) [OF assms(2)] by blast
  have pinv: "pending_inv X checks ?pp" using assms(1) by (simp add: pool_inv_def)
  have txs: "map_of (at_txs (tp_all pool)) = map_option (\<lambda>p. (pd_tx p, Pending)) \<circ> map_of (pp_by_id ?pp)"
    using assms(1) by (simp add: pool_inv_def)
  obtain pp1 where pp1: "pending_inv X checks pp1" "pp_submission_id pp1 \<noteq> - 1"
    "map_of (pp_by_id pp1) = (map_of (pp_by_id ?pp))(?id := None)"
    and removed: "(case map_of (at_txs (tp_all pool)) ?id of None \<Rightarrow> Some pool2
      | Some (replaced_tx, replaced_subpool) \<Rightarrow> remove_from_subpool (pt_tx_id replaced_tx) replaced_subpool pool2) =
      Some (pool2\<lparr>tp_pending := pp1\<rparr>)"
  proof (cases "map_of (pp_by_id ?pp) ?id")
    case None
    then show ?thesis using that [of ?pp] pinv assms(3,5) txs by (auto simp: fun_eq_iff)
  next
    case (Some p)
    have "pd_id p = ?id" using pinv Some by (simp add: pending_inv_def)
    moreover obtain pp1 where "pending_remove ?id ?pp = Some pp1" "pending_inv X checks pp1"
      "pp_submission_id pp1 = pp_submission_id ?pp" "map_of (pp_by_id pp1) = (map_of (pp_by_id ?pp))(?id := None)"
      using pending_remove_laws [OF pinv Some] by blast
    ultimately show ?thesis using that [of pp1] assms(3,5) txs Some by (simp add: remove_from_subpool_def)
  qed
  obtain pp2 where pp2: "pending_add X checks tx 0 pp1 = Some pp2" "pending_inv X checks pp2"
    "map_of (pp_by_id pp2) = (map_of (pp_by_id pp1))(?id \<mapsto> pending_new (pp_submission_id pp1) tx pr)"
    using pending_add_laws [OF pp1(1) _ pp1(2) pr] pp1(3) by auto
  let ?pool' = "pool2\<lparr>tp_pending := pp2\<rparr>"
  have all: "map_of (at_txs (tp_all ?pool')) = (map_of (at_txs (tp_all pool)))(?id \<mapsto> (tx, Pending))"
    using assms(1) by (simp add: assms(5) pool_inv_def map_of_bt_insert)
  then have abs: "pool_txs ?pool' = (pool_txs pool)(?id \<mapsto> tx)" by (auto simp: pool_txs_def fun_eq_iff)
  have "map_of (at_txs (tp_all ?pool')) = map_option (\<lambda>p. (pd_tx p, Pending)) \<circ> map_of (pp_by_id (tp_pending ?pool'))"
    unfolding all txs by (auto simp: fun_eq_iff pp2(3) pp1(3) pending_new_def)
  moreover have "validate_tx X (tp_all ?pool') t = Inr ()" if "pool_txs ?pool' tx_id = Some t" for tx_id t
  proof -
    have "validate_tx X (tp_all ?pool') t = validate_tx X (tp_all pool) t" by (rule validate_config) (simp add: assms(5))
    moreover have "validate_tx X (tp_all pool) t = Inr ()"
      using that assms(1,4) unfolding abs by (auto simp: pool_inv_def split: if_splits)
    ultimately show ?thesis by simp
  qed
  ultimately have "pool_inv X checks ?pool'"
    using assms(1) pp2(2) unfolding pool_inv_def by (auto simp: assms(5) bt_wf_insert)
  then show ?thesis
    using removed pp2(1) abs assms(1) by (intro exI [of _ ?pool']) (simp add: add_to_subpool_def assms(5) pool_inv_def)
qed

text \<open>Whether an accepted transaction would have to be parked.\<close>

definition must_park :: "('tx, 'u) tx_ext \<Rightarrow> ('tx, 'u) pooled_transaction \<Rightarrow> u64 \<Rightarrow> 'u \<Rightarrow> bool" where
  "must_park X tx on_chain_nonce on_chain_balance \<longleftrightarrow>
     on_chain_nonce < pt_nonce X tx \<or> \<not> u256_ge X on_chain_balance (pt_cost tx)"

lemma select_subpool_zero:
  assumes "at_basefee al = 0"
  shows "select_subpool X al tx n b =
    (if pt_nonce X tx < n then Inl NonceTooLow else if must_park X tx n b then Inr Queued else Inr Pending)"
  using assms by (auto simp: select_subpool_def cmp_of_def must_park_def not_less)

lemma add_parked: "add_to_subpool X checks tx Queued pool = None"
  by (simp add: add_to_subpool_def parked_add_def)

text \<open>The outcome of the checks: a panic, a refusal, or acceptance.\<close>

datatype verdict = Panics | Refused add_transaction_error | Accepted

definition verdict :: "('tx, 'u) tx_ext \<Rightarrow> bool \<Rightarrow> ('tx, 'u) pooled_transaction \<Rightarrow> u64 \<Rightarrow> 'u \<Rightarrow> ('tx, 'u) transaction_pool \<Rightarrow> verdict" where
  "verdict X checks tx n b pool =
     (if pt_max_fee X tx < min_protocol_basefee (at_config (tp_all pool)) then Refused FeeBelowMinimumProtocolFee
      else if block_gas_limit (at_config (tp_all pool)) < x_gas_limit X (pt_tx tx) then Refused GasLimitExceedsBlockGasLimit
      else if pt_nonce X tx < n then Refused NonceTooLow
      else let accepted = (if must_park X tx n b then Panics else Accepted) in
        case pool_txs pool (pt_tx_id tx) of
          None \<Rightarrow> accepted
        | Some existing \<Rightarrow>
            (case is_underpriced X checks existing tx (price_bump_percentage (at_config (tp_all pool))) of
               None \<Rightarrow> Panics
             | Some True \<Rightarrow> Refused ReplacementTxUnderpriced
             | Some False \<Rightarrow> accepted))"

lemma update_account_same: "(update_account X a n b pool)\<lparr>tp_all := tp_all pool\<rparr> = update_account X a n b pool"
  by (cases pool) (simp add: update_account_def Let_def)

lemma pool_txs_account [simp]: "pool_txs (update_account X a n b pool) = pool_txs pool"
  by (simp add: pool_txs_def fun_eq_iff)

lemma pool_inv_account: "pool_inv X checks pool \<Longrightarrow> pool_inv X checks (update_account X a n b pool)"
  by (simp add: pool_inv_def)

lemma validate_verdict:
  "validate_tx X (tp_all pool) tx = Inl e \<Longrightarrow> verdict X checks tx n b pool = Refused e"
  by (auto simp: validate_tx_def verdict_def split: if_splits)

lemma pool_add_refused:
  assumes "pool_inv X checks pool"
    and "all_add X checks tx n b (tp_all pool) = Some (Inl e, tp_all pool)" and "verdict X checks tx n b pool = Refused e"
  shows "\<exists>pool'. pool_add X checks tx n b pool = Some (Inl (AddTransactionError e), pool') \<and> pool_inv X checks pool' \<and>
    map_of (tp_account_info pool') = (map_of (tp_account_info pool))(x_signer X (pt_tx tx) \<mapsto> \<lparr>ai_nonce = n, ai_balance = b\<rparr>) \<and>
    verdict X checks tx n b pool = Refused e \<and> pool_txs pool' = pool_txs pool"
  using assms by (simp add: pool_add_def Let_def update_account_same pool_inv_account)

text \<open>What \<open>AllTransactions::add_transaction\<close> does for each verdict.\<close>

lemma all_add_verdict:
  fixes pool :: "('tx, 'u) transaction_pool" and tx :: "('tx, 'u) pooled_transaction"
  defines "al \<equiv> tp_all pool"
  defines "ok \<equiv> \<lambda>sp. \<lparr>ok_tx = tx, ok_subpool = sp, ok_replaced_tx = map_of (at_txs al) (pt_tx_id tx)\<rparr>"
    and "ins \<equiv> \<lambda>sp. al\<lparr>at_txs := bt_insert (pt_tx_id tx) (tx, sp) (at_txs al)\<rparr>"
  assumes zero: "at_basefee al = 0"
  obtains (refused) e where "all_add X checks tx n b al = Some (Inl e, al)" "verdict X checks tx n b pool = Refused e"
  | (overflow) "all_add X checks tx n b al = None" "verdict X checks tx n b pool = Panics"
  | (parked) "all_add X checks tx n b al = Some (Inr (ok Queued), ins Queued)" "verdict X checks tx n b pool = Panics"
  | (pending) "all_add X checks tx n b al = Some (Inr (ok Pending), ins Pending)" "verdict X checks tx n b pool = Accepted"
      "validate_tx X al tx = Inr ()"
proof (cases "validate_tx X al tx")
  case (Inl e)
  then show ?thesis using refused [of e] validate_verdict [OF Inl [unfolded al_def]] by (simp add: all_add_def ok_def ins_def)
next
  case (Inr u)
  show ?thesis
  proof (cases "pt_nonce X tx < n")
    case True
    then show ?thesis using refused [of NonceTooLow] Inr
      by (auto simp: all_add_def ok_def ins_def select_subpool_zero [OF zero [unfolded al_def]] al_def verdict_def validate_tx_def al_def split: if_splits)
  next
    case False
    have v: "verdict X checks tx n b pool =
      (case map_of (at_txs al) (pt_tx_id tx) of None \<Rightarrow> if must_park X tx n b then Panics else Accepted
       | Some existing \<Rightarrow> (case is_underpriced X checks (fst existing) tx (price_bump_percentage (at_config al)) of None \<Rightarrow> Panics
           | Some True \<Rightarrow> Refused ReplacementTxUnderpriced | Some False \<Rightarrow> if must_park X tx n b then Panics else Accepted))"
      using Inr False by (auto simp: verdict_def validate_tx_def al_def pool_txs_def Let_def split: if_splits option.splits bool.splits)
    have a: "all_add X checks tx n b al = (let sp = (if must_park X tx n b then Queued else Pending) in
      case map_of (at_txs al) (pt_tx_id tx) of None \<Rightarrow> Some (Inr (ok sp), ins sp)
       | Some existing \<Rightarrow> (case is_underpriced X checks (fst existing) tx (price_bump_percentage (at_config al)) of None \<Rightarrow> None
           | Some True \<Rightarrow> Some (Inl ReplacementTxUnderpriced, al) | Some False \<Rightarrow> Some (Inr (ok sp), ins sp)))"
      using Inr False by (auto simp: all_add_def ok_def ins_def select_subpool_zero [OF zero [unfolded al_def]] al_def Let_def split: option.splits bool.splits)
    show ?thesis
      using refused [of ReplacementTxUnderpriced] overflow parked pending Inr v a
      by (cases "map_of (at_txs al) (pt_tx_id tx)"; cases "must_park X tx n b")
        (auto simp: Let_def split: option.splits bool.splits)
  qed
qed

text \<open>C23: Adding a transaction refines an update of a map from ids to transactions. A refused transaction
  leaves the pool as it is, an accepted one is stored under its id in place of the one it
  replaces, and nothing else changes; both indexes of the pending pool stay in step and ordered.
  The call panics exactly if the transaction would have to be parked (the parked pools are not
  implemented) or the price bump overflows in a build that checks for it, and it always records the account's nonce and balance. (Submission
  ids must not have wrapped around.)\<close>

theorem pool_add_refines_map:
  assumes "pool_inv X checks pool" and "pooled_from X now raw = Some tx" and "pp_submission_id (tp_pending pool) \<noteq> - 1"
  shows "case pool_add X checks tx n b pool of
      None \<Rightarrow> verdict X checks tx n b pool = Panics
    | Some (res, pool') \<Rightarrow>
        pool_inv X checks pool' \<and>
        map_of (tp_account_info pool') = (map_of (tp_account_info pool))(x_signer X (pt_tx tx) \<mapsto> \<lparr>ai_nonce = n, ai_balance = b\<rparr>) \<and>
        (case res of
           Inl (AddTransactionError e) \<Rightarrow> verdict X checks tx n b pool = Refused e \<and> pool_txs pool' = pool_txs pool
         | Inr _ \<Rightarrow> verdict X checks tx n b pool = Accepted \<and> pool_txs pool' = (pool_txs pool)(pt_tx_id tx \<mapsto> tx))"
proof -
  let ?al = "tp_all pool"
  let ?ok = "\<lambda>sp. \<lparr>ok_tx = tx, ok_subpool = sp, ok_replaced_tx = map_of (at_txs ?al) (pt_tx_id tx)\<rparr>"
  let ?in = "\<lambda>sp. ?al\<lparr>at_txs := bt_insert (pt_tx_id tx) (tx, sp) (at_txs ?al)\<rparr>"
  have zero: "at_basefee ?al = 0" using assms(1) by (simp add: pool_inv_def)
  show ?thesis
  proof (cases rule: all_add_verdict [where pool = pool and tx = tx and X = X and checks = checks and n = n and b = b, OF zero,
      case_names refused overflow parked pending])
    case (refused e)
    from pool_add_refused [OF assms(1) this] show ?thesis by auto
  next
    case overflow
    then show ?thesis by (simp add: pool_add_def Let_def)
  next
    case parked
    then show ?thesis by (simp add: pool_add_def Let_def add_parked split: option.split)
  next
    case pending
    let ?pool2 = "(update_account X (x_signer X (pt_tx tx)) n b pool)\<lparr>tp_all := ?in Pending\<rparr>"
    obtain pool' where stored: "Option.bind (case map_of (at_txs ?al) (pt_tx_id tx) of None \<Rightarrow> Some ?pool2
        | Some (replaced_tx, replaced_subpool) \<Rightarrow> remove_from_subpool (pt_tx_id replaced_tx) replaced_subpool ?pool2)
        (add_to_subpool X checks tx Pending) = Some pool'"
      "pool_inv X checks pool'" "pool_txs pool' = (pool_txs pool)(pt_tx_id tx \<mapsto> tx)"
      "map_of (tp_account_info pool') = map_of (tp_account_info ?pool2)"
      using pool_store_pending [OF assms pending(3) refl] by blast
    have "pool_add X checks tx n b pool = Some (Inr (), pool')"
      using pending(1) stored(1) by (simp add: pool_add_def Let_def bind_Some_iff)
    then show ?thesis using stored(2-4) pending(2) by simp
  qed
qed

text \<open>A transaction type with the fields the pool reads, and costs as natural numbers below \<open>2 ^ 256\<close>.\<close>

record sample_transaction =
  st_signer :: address
  st_nonce :: u64
  st_kind :: tx_kind

definition sample_tx_ext :: "(sample_transaction, nat) tx_ext" where
  "sample_tx_ext =
     \<lparr>x_signer = st_signer, x_nonce = st_nonce,
      x_gas_limit = (\<lambda>t. case st_kind t of Legacy _ l \<Rightarrow> l | Eip1559 _ _ l \<Rightarrow> l | OtherTx \<Rightarrow> 0),
      x_max_fee_per_gas = (\<lambda>t. case st_kind t of Legacy p _ \<Rightarrow> p | Eip1559 m _ _ \<Rightarrow> m | OtherTx \<Rightarrow> 0),
      x_max_priority_fee_per_gas = (\<lambda>t. case st_kind t of Eip1559 _ m _ \<Rightarrow> Some m | _ \<Rightarrow> None),
      x_value = (\<lambda>t. 0), x_kind = st_kind, u256_from_u128 = unat, u256_from_u64 = unat,
      u256_saturating_mul = (\<lambda>a b. min (a * b) (2 ^ 256 - 1)), u256_saturating_add = (\<lambda>a b. min (a + b) (2 ^ 256 - 1)),
      u256_ge = (\<ge>), u256_default = 0\<rparr>"

definition sample_config :: txpool_config where
  "sample_config = \<lparr>min_protocol_basefee = 5, max_tx_count = 100, max_tx_per_account = 10, max_pool_size = 1000,
     block_gas_limit = 30000, price_bump_percentage = 10\<rparr>"

definition sample_pooled :: "u128 \<Rightarrow> (sample_transaction, nat) pooled_transaction" where
  "sample_pooled fee =
     \<lparr>pt_tx = \<lparr>st_signer = Address [], st_nonce = 0, st_kind = Legacy fee 2\<rparr>, pt_tx_id = TransactionId (Address []) 0,
      pt_timestamp = 0, pt_cost = min (min (unat fee * 2) (2 ^ 256 - 1)) (2 ^ 256 - 1)\<rparr>"

lemma sample_pooled_from:
  "pooled_from sample_tx_ext 0 \<lparr>st_signer = Address [], st_nonce = 0, st_kind = Legacy fee 2\<rparr> = Some (sample_pooled fee)"
  by (simp add: pooled_from_def sample_tx_ext_def sample_pooled_def)

theorem pool_add_refines_map_witness:
  "\<exists>pool'. pool_add sample_tx_ext True (sample_pooled 10) 0 20 (pool_new sample_config) = Some (Inr (), pool') \<and>
     pool_inv sample_tx_ext True pool' \<and> pool_txs pool' = [TransactionId (Address []) 0 \<mapsto> sample_pooled 10]"
proof -
  let ?v = "verdict sample_tx_ext True (sample_pooled 10) 0 20 (pool_new sample_config)"
  have v: "?v = Accepted"
    by (simp add: verdict_def sample_tx_ext_def sample_pooled_def sample_config_def pool_new_def all_new_def must_park_def pool_txs_def)
  have empty: "pool_txs (pool_new sample_config) = Map.empty" by (simp add: pool_txs_def pool_new_def all_new_def fun_eq_iff)
  have "pp_submission_id (tp_pending (pool_new sample_config)) \<noteq> - 1" by (simp add: pool_new_def pending_pool_new_def)
  note added = pool_add_refines_map [OF pool_inv_new sample_pooled_from [of 10] this, where checks = True and n = 0 and b = 20]
  have "pt_tx_id (sample_pooled 10) = TransactionId (Address []) 0" by (simp add: sample_pooled_def)
  then have upd: "(pool_txs (pool_new sample_config))(pt_tx_id (sample_pooled 10) \<mapsto> sample_pooled 10) = [TransactionId (Address []) 0 \<mapsto> sample_pooled 10]"
    by (simp only: empty)
  show ?thesis
  proof (cases "pool_add sample_tx_ext True (sample_pooled 10) 0 20 (pool_new sample_config)")
    case None
    then show ?thesis using added v by simp
  next
    case (Some r)
    obtain res pool' where r: "r = (res, pool')" by (cases r)
    then have "res = Inr ()" using added v Some by (cases res) (auto split: transaction_pool_error.splits)
    then show ?thesis using added Some r unfolding upd by simp
  qed
qed

subsection \<open>The price bump\<close>

text \<open>In a build that checks for overflow the comparison is that of the integers.\<close>

lemma below_bump_checked:
  "below_bump True own replacement pct =
     (if 100 + unat pct < 2 ^ 128 \<and> unat own * (100 + unat pct) < 2 ^ 128
      then Some (unat replacement < unat own * (100 + unat pct) div 100) else None)"
proof (cases "100 + unat pct < 2 ^ 128")
  case True
  then have f: "unat (100 + pct) = 100 + unat pct" by (simp add: unat_word_ariths)
  then show ?thesis
    using True by (auto simp: below_bump_def u128_add_def u128_mul_def word_less_nat_alt unat_div unat_word_ariths)
qed (simp add: below_bump_def u128_add_def)

text \<open>In a build with overflow checks, a replacement that is accepted pays at least the configured
  percentage more than the transaction it replaces, as a maximal fee and, where both offer one, as a priority fee,
  in exact arithmetic.\<close>

theorem replacement_pays_bump:
  assumes "is_underpriced X True t replacement pct = Some False"
  shows "unat (pt_max_fee X t) * (100 + unat pct) div 100 \<le> unat (pt_max_fee X replacement) \<and>
    (case (x_max_priority_fee_per_gas X (pt_tx t), x_max_priority_fee_per_gas X (pt_tx replacement)) of
       (Some own, Some new) \<Rightarrow> unat own * (100 + unat pct) div 100 \<le> unat new
     | _ \<Rightarrow> True)"
  using assms by (auto simp: is_underpriced_def below_bump_checked bind_Some_iff split: if_splits option.splits)

theorem replacement_pays_bump_witness:
  "is_underpriced sample_tx_ext True (sample_pooled 10) (sample_pooled 11) 10 = Some False \<and>
   unat (10 :: u128) * (100 + unat (10 :: u128)) div 100 \<le> unat (11 :: u128)"
proof -
  have "is_underpriced sample_tx_ext True (sample_pooled 10) (sample_pooled 11) 10 = Some False"
    by (simp add: is_underpriced_def below_bump_checked sample_tx_ext_def sample_pooled_def)
  from this replacement_pays_bump [OF this] show ?thesis by (simp add: sample_tx_ext_def sample_pooled_def)
qed

text \<open>A release build wraps around, so that a transaction with a very large fee can be replaced for nothing.\<close>

lemma replacement_bump_wraps:
  "is_underpriced sample_tx_ext False (sample_pooled (2 ^ 127)) (sample_pooled 5) 28 = Some False"
  by (simp add: is_underpriced_def below_bump_def u128_add_def u128_mul_def sample_tx_ext_def sample_pooled_def)

end
