(* ===== verification/Primitives_Serde.thy ===== *)
theory Primitives_Serde
  imports Primitives
begin

text \<open>
  The text and \<open>serde\<close> forms of addresses and signatures (\<open>Display\<close>, \<open>Serialize\<close> and \<open>Deserialize\<close>
  of \<open>address.rs\<close> and \<open>signature.rs\<close>). A serializer receives one value of serde's data model; a
  format is a parameter, the record of what its deserializer answers to the three requests the
  code makes. \<open>None\<close> is a panic.
\<close>

datatype serde_value = SerStr string | SerBytes bytes | SerTuple bytes

record serde_format =
  is_human_readable :: bool
  deserialize_str :: "serde_value \<Rightarrow> string + string"
  deserialize_bytes :: "serde_value \<Rightarrow> string + bytes"
  deserialize_array :: "nat \<Rightarrow> serde_value \<Rightarrow> string + bytes"

text \<open>A format gives back a value that is requested with the type it was serialized as.\<close>

definition serde_ok :: "serde_format \<Rightarrow> bool" where
  "serde_ok F \<longleftrightarrow>
     (\<forall>s. deserialize_str F (SerStr s) = Inr s) \<and>
     (\<forall>bs. deserialize_bytes F (SerBytes bs) = Inr bs) \<and>
     (\<forall>bs. deserialize_array F (length bs) (SerTuple bs) = Inr bs)"

subsection \<open>Addresses\<close>

definition address_display :: "externals \<Rightarrow> address \<Rightarrow> string option" where
  "address_display E a = address_encode_0x_prefixed E a"

definition address_serialize :: "externals \<Rightarrow> serde_format \<Rightarrow> address \<Rightarrow> serde_value option" where
  "address_serialize E F a =
     (if is_human_readable F then map_option SerStr (address_encode_0x_prefixed E a)
      else Some (SerBytes (address_bytes a)))"

definition address_deserialize :: "externals \<Rightarrow> serde_format \<Rightarrow> serde_value \<Rightarrow> address anyhow" where
  "address_deserialize E F x =
     (if is_human_readable F
      then (case deserialize_str F x of Inl e \<Rightarrow> Inl e | Inr s \<Rightarrow> address_from_hex E s)
      else (case deserialize_array F ADDRESS_SIZE x of Inl e \<Rightarrow> Inl e | Inr bs \<Rightarrow> Inr (Address bs)))"

subsection \<open>Signatures\<close>

definition signature_display :: "externals \<Rightarrow> signature \<Rightarrow> string option" where
  "signature_display E sig = signature_encode_0x_prefixed E sig"

definition signature_serialize :: "externals \<Rightarrow> serde_format \<Rightarrow> signature \<Rightarrow> serde_value option" where
  "signature_serialize E F sig =
     (if is_human_readable F then map_option SerStr (signature_encode_0x_prefixed E sig)
      else Some (SerBytes (signature_bytes sig)))"

definition signature_deserialize :: "externals \<Rightarrow> serde_format \<Rightarrow> serde_value \<Rightarrow> signature anyhow" where
  "signature_deserialize E F x =
     (if is_human_readable F
      then (case deserialize_str F x of Inl e \<Rightarrow> Inl e | Inr s \<Rightarrow> signature_from_hex E s)
      else (case deserialize_bytes F x of Inl e \<Rightarrow> Inl e | Inr bs \<Rightarrow> signature_from_slice bs))"

subsection \<open>Round trips\<close>

lemma address_hex_roundtrip:
  assumes "hex_ok E" and "length (address_bytes a) = ADDRESS_SIZE"
  obtains s where "address_display E a = Some s" and "length s = 50" and "address_from_hex E s = Inr a"
proof -
  obtain t where "hex_encode_to_slice E (address_bytes a) (2 * length (address_bytes a)) = Inr t"
    "length t = 2 * length (address_bytes a)" "hex_decode_to_slice E t (length (address_bytes a)) = Inr (address_bytes a)"
    using hex_text [OF assms(1)] .
  then show thesis using that assms(2)
    by (simp add: address_display_def address_encode_0x_prefixed_def address_from_hex_def ADDRESS_SIZE_def)
qed

lemma signature_hex_roundtrip:
  assumes "hex_ok E" and "signature_from_slice (signature_bytes sig) = Inr sig"
  obtains s where "signature_display E sig = Some s" and "length s = 132" and "signature_from_hex E s = Inr sig"
proof -
  obtain t where "hex_encode_to_slice E (signature_bytes sig) (2 * length (signature_bytes sig)) = Inr t"
    "length t = 2 * length (signature_bytes sig)" "hex_decode_to_slice E t (length (signature_bytes sig)) = Inr (signature_bytes sig)"
    using hex_text [OF assms(1)] .
  then show thesis using that assms(2)
    by (simp add: signature_display_def signature_encode_0x_prefixed_def signature_from_hex_def signature_from_slice_def
        SIGNATURE_SIZE_def split: if_splits)
qed

text \<open>Signatures survive every format, addresses the human-readable ones.\<close>

lemma signature_serde_roundtrip:
  assumes "hex_ok E" and "serde_ok F" and "signature_from_slice (signature_bytes sig) = Inr sig"
  shows "\<exists>x. signature_serialize E F sig = Some x \<and> signature_deserialize E F x = Inr sig"
  by (rule signature_hex_roundtrip [OF assms(1,3)]) (use assms(2,3) in \<open>auto simp: signature_serialize_def signature_deserialize_def serde_ok_def signature_display_def\<close>)

lemma address_serde_roundtrip:
  assumes "hex_ok E" and "serde_ok F" and "length (address_bytes a) = ADDRESS_SIZE" and "is_human_readable F"
  shows "\<exists>x. address_serialize E F a = Some x \<and> address_deserialize E F x = Inr a"
  by (rule address_hex_roundtrip [OF assms(1,3)]) (use assms(2,4) in \<open>auto simp: address_serialize_def address_deserialize_def serde_ok_def address_display_def\<close>)

text \<open>
  A binary format that tells byte strings from tuples does not give an address back: it is
  written as bytes and read as an array.
\<close>

definition sample_binary :: serde_format where
  "sample_binary =
     \<lparr>is_human_readable = False,
      deserialize_str = (\<lambda>x. case x of SerStr s \<Rightarrow> Inr s | _ \<Rightarrow> Inl ''expected a string''),
      deserialize_bytes = (\<lambda>x. case x of SerBytes bs \<Rightarrow> Inr bs | _ \<Rightarrow> Inl ''expected bytes''),
      deserialize_array = (\<lambda>n x. case x of SerTuple bs \<Rightarrow> if length bs = n then Inr bs else Inl ''invalid length'' | _ \<Rightarrow> Inl ''expected an array'')\<rparr>"

lemma address_binary_serde_fails:
  "serde_ok sample_binary \<and>
   (\<exists>x. address_serialize E sample_binary a = Some x \<and> (\<exists>e. address_deserialize E sample_binary x = Inl e))"
  by (simp add: serde_ok_def sample_binary_def address_serialize_def address_deserialize_def)

end
