(* ===== verification/Spec2Isabelle.thy ===== *)
theory Spec2Isabelle
  imports Simulation Fork Lost_Certificates P2p_Service Transaction Txpool Primitives_Serde
begin

text \<open>
  A verification of tonic, a node of a proof-of-authority chain written in Rust. All paths below are
  under \<open>src/crates\<close>.

  \<^bold>\<open>The program.\<close> A node consists of a consensus (\<open>consensus/poa\<close>), which decides one block per
  height with the IBFT protocol; a network layer (\<open>p2p\<close>), which carries its messages; a typed
  key-value database (\<open>database\<close>); a transaction pool (\<open>txpool\<close>); and primitives (\<open>primitives\<close>) for
  addresses, signatures and hashing. The consensus engine owns a message store. A background
  task, the message handler, checks each message that arrives from the network and puts it into the
  store; for each height the run loop spawns a task for the current round and two monitors for
  later rounds, which query the store, wait on its notification channels and broadcast votes. A
  round ends with a quorum of commits (the block is finalized and the store is pruned), with a
  timeout (a round change is broadcast) or with a jump to a later round.

  \<^bold>\<open>Conventions.\<close> Machine integers are words of their width, a \<open>usize\<close> that counts elements is a
  natural number. Results are sums with \<open>Inl\<close> the error; panics are \<open>None\<close> or a panic value of a
  state machine. Asynchronous code is modelled by the program points at which it awaits: one step
  runs from one await to the next, and the steps of the tasks interleave freely. Third-party
  crates are parameters (records of functions) with named contracts where a theorem relies on them; every contract has a
  concrete instance, and every theorem with hypotheses has a witness. No definition takes fuel:
  loops over data are structural recursions, and endless loops are step relations.

  \<^bold>\<open>Theories.\<close>
  \<^item> \<open>Prelude\<close>: machine types, results, rule collections, lemmas on association lists.
  \<^item> \<open>Collections\<close>: \<open>HashMap\<close> and \<open>BTreeMap\<close>, the locale \<open>rust_map\<close> of what both promise, and
    \<open>nested_map\<close> for maps of maps.
  \<^item> \<open>Externals\<close>: the crates \<open>sha2\<close>, \<open>borsh\<close>, \<open>secp256k1\<close> and \<open>hex\<close> as one record, with contracts.
  \<^item> \<open>Primitives\<close>, \<open>Primitives_Serde\<close>: \<open>address.rs\<close>, \<open>signature.rs\<close>, \<open>signer.rs\<close>, \<open>crypto\<close>; text and
    serde forms with their round trips, and the binary form of addresses that does not round-trip.
  \<^item> \<open>Poa_Types\<close>: \<open>types.rs\<close> and \<open>codec.rs\<close>. Signed messages recover to their signer; block digests
    bind block and round; the digest buffers are filled exactly.
  \<^item> \<open>Backend\<close>: the traits of \<open>backend.rs\<close>, the mock of \<open>sim_tests/mock.rs\<close>, and the locale
    \<open>quorum_system\<close>, interpreted on the mock.
  \<^item> \<open>Consensus_Messages\<close>, \<open>Message_Store\<close>, \<open>Message_Handler\<close>, \<open>Message_Rounds\<close>: \<open>messages.rs\<close>. The store
    is well formed, authentic and pruned whatever arrives; the first message of a sender stays;
    refused messages change nothing.
  \<^item> \<open>Ibft_Verify\<close>: the verification rules and the assembly of certificates in \<open>ibft.rs\<close>, equal to
    declarative descriptions; timeouts; three weaknesses of the rules, each with a theorem.
  \<^item> \<open>Ibft_Round\<close>, \<open>Ibft_Run\<close>: the round task, the monitors and the run loop of \<open>ibft.rs\<close> as state
    machines over the shared store (\<open>run_step\<close>, \<open>round_step\<close>, \<open>monitor_step\<close>, \<open>node_reachable\<close>).
  \<^item> \<open>Store_Invariant\<close>, \<open>Task_Invariant\<close>, \<open>Node_Invariant\<close>, \<open>Node_History\<close>, \<open>Round_Progress\<close>: what every step
    keeps, of the store, of one task, of the node, and of what it has sent; schedules that make progress.
  \<^item> \<open>Node_Properties\<close>: the theorems on a height. Finalized blocks carry a quorum of seals; votes do
    not equivocate; the commit state is prepared; round changes are valid; only the last round
    panics; the round completes when its messages are there; timeouts move on; rounds increase. The
    locale \<open>scheduled\<close> holds the schedules that lead there, for a node alone, in a network and in the simulation.
  \<^item> \<open>Sent_Messages\<close>: what a node broadcasts is well typed and, over \<open>P2p\<close>, ends up in the store of a peer.
  \<^item> \<open>Lost_Certificates\<close>: two orders of steps in which a node that has committed sends a round change
    without its prepared certificate.
  \<^item> \<open>Vote_Provenance\<close>, \<open>Message_Closure\<close>, \<open>Justified_Votes\<close>: where what a node holds comes from. Every vote it
    counts was cast, every certificate it sends is made of messages it was given (the locale
    \<open>closed_messages\<close>), every prepare it sends is for a proposal that passed its verification.
  \<^item> \<open>Agreement\<close>, \<open>Network\<close>, \<open>Validity\<close>: validators that run one height together, fewer than a third faulty, over a
    network that delivers in any order (\<open>net_reachable\<close>). Within a round they agree; across
    rounds every finalized block was accepted by the block service of an honest validator.
  \<^item> \<open>Fork\<close>: agreement across rounds fails. Four honest validators, over a network that only passes on what they have
    sent (\<open>relay_reachable\<close>), reach a state in which two of them have finalized different blocks in rounds 0 and 1, because
    round changes lose their prepared certificates.
  \<^item> \<open>Engine\<close>: \<open>engine.rs\<close>, heights one after the other on one store.
  \<^item> \<open>Simulation\<close>: \<open>sim_tests/mod.rs\<close>, several engines over the mock for 500 heights (\<open>sim_step\<close>). A run ends with the first failure,
    of which \<open>sim_failure\<close> lists the kinds. The assertions of both tests hold in every run, no broadcast panics on its signer, and a run loop panics
    only after its last round; the network of each height is one of \<open>Network\<close>, and each height starts the next.
  \<^item> \<open>Database\<close>, \<open>Transaction\<close>: the crate \<open>database\<close>. The locale \<open>key_value\<close> is the contract of the traits in
    \<open>kv_store.rs\<close>; \<open>RocksDB\<close> and \<open>InMemoryTransaction\<close> both satisfy it. A transaction is an overlay on the
    database; committing it equals direct writes, atomically; iteration follows the byte order
    of the encodings.
  \<^item> \<open>Txpool\<close>: the crate \<open>txpool\<close>. Adding a transaction refines an update of a map; the indexes of the
    pending pool stay in step; replacements pay the price bump.
  \<^item> \<open>P2p\<close>, \<open>P2p_Service\<close>: the crate \<open>p2p\<close>. A broadcast reaches peers of the same network unchanged; the node
    panics exactly when it broadcasts something of its own that is over the size limit, never on what it receives; the set-up of the service with its
    behaviours, topics and listening address, over a \<open>libp2p\<close> of which nothing is assumed.

  \<^bold>\<open>Bounds.\<close> Rounds are at most 21 (\<open>MAX_ROUND\<close>), so a height has at most 22 rounds; the engine runs
  heights up to the largest \<open>u64\<close>, the simulation 500 with channels of 128 messages; channels of the network hold 1024 messages of at most 4 MB;
  submission ids of the pool are distinct for fewer than \<open>2 ^ 64\<close> transactions.

  \<^bold>\<open>Not modelled.\<close> Wall-clock time: a timeout may fire at any moment. The contents of the tokio broadcast channels
  beyond what a waiting task may see: a receiver gets any view that was sent, or an error when it
  has lagged. The message handler files a message in one step, although the code awaits the lock of the store between the
  check of the height and the insertion. A write to RocksDB that fails is taken to leave the content as it was. A run of the
  engine has no cancelled heights, and tasks of a finished height that were aborted and not yet stopped are not carried
  into the next height. \<open>rpc\<close> (one unimplemented method
  and a call of a client builder), \<open>tracing\<close> and the binary, which have no logic; unit tests and helpers that
  only tests use, such as random keys and temporary databases. The transaction types the pool imports are not in the
  repository and are a parameter.
\<close>

end
